(* ===== verification/Prelude.thy ===== *)
theory Prelude
  imports Complex_Main "HOL-Library.AList" "HOL-Library.Multiset" "HOL-Library.List_Lexorder"
    "HOL-Library.Char_ord" "HOL-Library.Monad_Syntax" "HOL-Library.Code_Target_Numeral"
begin

text \<open>
  Shared vocabulary of the development: Python values and dictionaries, exceptions as values,
  decimal strings, counters, and the generic list lemmas the component theories use.

  A Python \<open>dict\<close> is an association list in insertion order; \<open>d[k] = v\<close> is
  \<open>AList.update\<close> (in place when the key is there, appended otherwise), \<open>d.pop(k, None)\<close> is
  \<open>AList.delete\<close>.  Python floats are exact rationals: the rounding of double arithmetic is not
  modelled, and properties about float code are stated about comparisons, clamps and
  integers only.
\<close>

section \<open>Hint collections\<close>

named_theorems dict_simps \<open>lookup after update, deletion and merge of dictionaries\<close>
named_theorems counter_simps \<open>counters after a bump\<close>

section \<open>Values, exceptions, results\<close>

datatype pyval =
    PNone
  | PBool bool
  | PInt int
  | PFloat rat
  | PStr string
  | PList "pyval list"
  | PDict "(string \<times> pyval) list"

datatype exn = KeyError string | ValueError | TypeError | AttributeError | DataError
  | IndexError | ZeroDivisionError | OtherError

type_synonym 'a result = "exn + 'a"
type_synonym dict = "(string \<times> pyval) list"
type_synonym event = dict

fun truthy :: "pyval \<Rightarrow> bool" where
  "truthy PNone = False"
| "truthy (PBool b) = b"
| "truthy (PInt i) = (i \<noteq> 0)"
| "truthy (PFloat x) = (x \<noteq> 0)"
| "truthy (PStr s) = (s \<noteq> [])"
| "truthy (PList xs) = (xs \<noteq> [])"
| "truthy (PDict d) = (d \<noteq> [])"

definition py_or :: "pyval \<Rightarrow> pyval \<Rightarrow> pyval" where
  "py_or v w = (if truthy v then v else w)"

definition rbind :: "'a result \<Rightarrow> ('a \<Rightarrow> 'b result) \<Rightarrow> 'b result" where
  "rbind r f = (case r of Inl e \<Rightarrow> Inl e | Inr x \<Rightarrow> f x)"

lemma rbind_simps [simp]: "rbind (Inl e) f = Inl e" "rbind (Inr x) f = f x"
  by (simp_all add: rbind_def)

lemma rbind_eq_Inr_iff: "rbind r f = Inr y \<longleftrightarrow> (\<exists>x. r = Inr x \<and> f x = Inr y)"
  by (cases r) auto

lemma not_isl_Inr: "\<not> isl r \<Longrightarrow> \<exists>x. r = Inr x"
  by (cases r) simp_all

section \<open>Dictionaries\<close>

definition dget :: "dict \<Rightarrow> string \<Rightarrow> pyval" where
  \<comment> \<open>\<open>d.get(k)\<close>\<close>
  "dget d k = (case map_of d k of None \<Rightarrow> PNone | Some v \<Rightarrow> v)"

definition dget_or :: "dict \<Rightarrow> string \<Rightarrow> pyval \<Rightarrow> pyval" where
  \<comment> \<open>\<open>d.get(k, default)\<close>\<close>
  "dget_or d k v = (case map_of d k of None \<Rightarrow> v | Some w \<Rightarrow> w)"

definition dsub :: "dict \<Rightarrow> string \<Rightarrow> pyval result" where
  \<comment> \<open>\<open>d[k]\<close>\<close>
  "dsub d k = (case map_of d k of None \<Rightarrow> Inl (KeyError k) | Some v \<Rightarrow> Inr v)"

abbreviation dset :: "dict \<Rightarrow> string \<Rightarrow> pyval \<Rightarrow> dict" where
  "dset d k v \<equiv> AList.update k v d"

abbreviation dpop :: "dict \<Rightarrow> string \<Rightarrow> dict" where
  "dpop d k \<equiv> AList.delete k d"

definition dmerge :: "dict \<Rightarrow> dict \<Rightarrow> dict" where
  \<comment> \<open>\<open>d.update(e)\<close>\<close>
  "dmerge d e = fold (\<lambda>(k, v) acc. dset acc k v) e d"

lemma update_new: "k \<notin> fst ` set d \<Longrightarrow> AList.update k v d = d @ [(k, v)]"
  by (induction d) auto

lemma map_of_dset [dict_simps, simp]:
  "map_of (dset d k v) k' = (if k' = k then Some v else map_of d k')"
  by (simp add: update_conv')

lemma map_of_dpop [dict_simps, simp]:
  "map_of (dpop d k) k' = (if k' = k then None else map_of d k')"
  by (simp add: delete_conv')

lemma dget_dset [dict_simps, simp]: "dget (dset d k v) k' = (if k' = k then v else dget d k')"
  by (simp add: dget_def)

lemma dget_dpop [dict_simps, simp]: "dget (dpop d k) k' = (if k' = k then PNone else dget d k')"
  by (simp add: dget_def)

lemma map_of_dmerge [dict_simps]:
  "distinct (map fst e) \<Longrightarrow> map_of (dmerge d e) k = (case map_of e k of None \<Rightarrow> map_of d k | Some v \<Rightarrow> Some v)"
proof (induction e arbitrary: d)
  case Nil
  then show ?case by (simp add: dmerge_def)
next
  case (Cons p e)
  obtain a b where p: "p = (a, b)" by (cases p)
  have "map_of e a = None"
    using Cons.prems by (simp add: p map_of_eq_None_iff image_iff)
  with Cons.IH [of "dset d a b"] Cons.prems show ?case
    by (auto simp: dmerge_def p split: option.splits)
qed

lemma distinct_dset: "distinct (map fst d) \<Longrightarrow> distinct (map fst (dset d k v))"
  by (rule distinct_update)

section \<open>Decimal strings\<close>

definition digit :: "nat \<Rightarrow> char" where
  "digit n = char_of (48 + n)"

definition is_digit :: "char \<Rightarrow> bool" where
  "is_digit c \<longleftrightarrow> 48 \<le> (of_char c :: nat) \<and> (of_char c :: nat) \<le> 57"

definition digit_val :: "char \<Rightarrow> nat" where
  "digit_val c = of_char c - 48"

lemma digit_val_digit [simp]: "n < 10 \<Longrightarrow> digit_val (digit n) = n"
  by (simp add: digit_val_def digit_def)

lemma is_digit_digit [simp]: "n < 10 \<Longrightarrow> is_digit (digit n)"
  by (simp add: is_digit_def digit_def)

fun dec_nat :: "nat \<Rightarrow> string" where
  "dec_nat n = (if n < 10 then [digit n] else dec_nat (n div 10) @ [digit (n mod 10)])"

declare dec_nat.simps [simp del]

definition dec_int :: "int \<Rightarrow> string" where
  \<comment> \<open>\<open>str(n)\<close> of a Python int\<close>
  "dec_int i = (if i < 0 then CHR ''-'' # dec_nat (nat (- i)) else dec_nat (nat i))"

lemma dec_int_not_Nil_aux: "dec_int i = CHR ''-'' # dec_nat (nat (- i)) \<or> dec_int i = dec_nat (nat i)"
  by (simp add: dec_int_def)

definition undec :: "string \<Rightarrow> nat" where
  "undec s = foldl (\<lambda>a c. 10 * a + digit_val c) 0 s"

lemma undec_snoc [simp]: "undec (s @ [c]) = 10 * undec s + digit_val c"
  by (simp add: undec_def)

lemma undec_dec_nat [simp]: "undec (dec_nat n) = n"
proof (induction n rule: dec_nat.induct)
  case (1 n)
  show ?case
  proof (cases "n < 10")
    case True
    then show ?thesis by (simp add: dec_nat.simps [of n] undec_def)
  next
    case False
    with 1 show ?thesis by (simp add: dec_nat.simps [of n])
  qed
qed

lemma dec_nat_digits: "list_all is_digit (dec_nat n)"
proof (induction n rule: dec_nat.induct)
  case (1 n)
  then show ?case by (simp add: dec_nat.simps [of n])
qed

lemma dec_nat_not_Nil [simp]: "dec_nat n \<noteq> []"
  by (simp add: dec_nat.simps [of n])

lemma dec_int_not_Nil [simp]: "dec_int i \<noteq> []"
  using dec_int_not_Nil_aux [of i] by auto

lemma dec_nat_inj: "dec_nat m = dec_nat n \<longleftrightarrow> m = n"
  by (metis undec_dec_nat)

lemma not_digit_minus [simp]: "\<not> is_digit (CHR ''-'')"
  by (simp add: is_digit_def)

lemma dec_nat_hd_not_minus: "dec_nat n \<noteq> CHR ''-'' # s"
  using dec_nat_digits [of n] by (metis list.pred_inject(2) not_digit_minus)

lemma dec_int_inj: "dec_int i = dec_int j \<longleftrightarrow> i = j"
  using dec_nat_hd_not_minus dec_nat_hd_not_minus [symmetric]
  by (auto simp: dec_int_def dec_nat_inj nat_eq_iff split: if_splits)

definition pad2 :: "nat \<Rightarrow> string" where
  "pad2 n = [digit (n div 10 mod 10), digit (n mod 10)]"

definition pad4 :: "nat \<Rightarrow> string" where
  "pad4 n = pad2 (n div 100) @ pad2 (n mod 100)"

lemma length_pad [simp]: "length (pad2 n) = 2" "length (pad4 n) = 4"
  by (simp_all add: pad2_def pad4_def)

lemma undec_pad2 [simp]: "n < 100 \<Longrightarrow> undec (pad2 n) = n"
  by (simp add: pad2_def undec_def)

lemma undec_append_pad2: "q < 100 \<Longrightarrow> undec (s @ pad2 q) = 100 * undec s + q"
  by (simp add: pad2_def undec_def)

lemma undec_pad4 [simp]: "n < 10000 \<Longrightarrow> undec (pad4 n) = n"
  by (simp add: pad4_def undec_append_pad2 less_mult_imp_div_less)

lemma digits_pad [simp]: "list_all is_digit (pad2 n)" "list_all is_digit (pad4 n)"
  by (simp_all add: pad2_def pad4_def)

lemma pad2_inj: "m < 100 \<Longrightarrow> n < 100 \<Longrightarrow> pad2 m = pad2 n \<longleftrightarrow> m = n"
  by (metis undec_pad2)

lemma pad4_inj: "m < 10000 \<Longrightarrow> n < 10000 \<Longrightarrow> pad4 m = pad4 n \<longleftrightarrow> m = n"
  by (metis undec_pad4)

section \<open>\<open>str\<close> of a value\<close>

text \<open>\<open>repr\<close> is Python's rendering of floats and containers, which is not modelled.\<close>

definition py_str :: "(pyval \<Rightarrow> string) \<Rightarrow> pyval \<Rightarrow> string" where
  "py_str repr v = (case v of
     PStr s \<Rightarrow> s | PInt i \<Rightarrow> dec_int i | PBool b \<Rightarrow> (if b then ''True'' else ''False'')
   | PNone \<Rightarrow> ''None'' | _ \<Rightarrow> repr v)"

section \<open>Numbers and their texts\<close>

definition py_int :: "rat \<Rightarrow> int" where
  \<comment> \<open>\<open>int(x)\<close>: truncation towards zero\<close>
  "py_int x = (if x < 0 then - \<lfloor>- x\<rfloor> else \<lfloor>x\<rfloor>)"

definition split_sign :: "string \<Rightarrow> bool \<times> string" where
  \<comment> \<open>an optional leading sign: whether it is a minus, and the rest\<close>
  "split_sign s = (case s of [] \<Rightarrow> (False, []) | c # r \<Rightarrow>
     if c = CHR ''-'' then (True, r) else if c = CHR ''+'' then (False, r) else (False, s))"

definition parse_int :: "string \<Rightarrow> int option" where
  \<comment> \<open>\<open>int(s)\<close>: an optional sign and digits; the spaces and underscores Python also takes are
     rejected here\<close>
  "parse_int s = (let (neg, ds) = split_sign s in
     if ds \<noteq> [] \<and> list_all is_digit ds then Some (if neg then - int (undec ds) else int (undec ds)) else None)"

definition parse_float :: "string \<Rightarrow> rat option" where
  \<comment> \<open>\<open>float(s)\<close>: an optional sign, digits and an optional fraction; exponents, \<open>inf\<close> and \<open>nan\<close> are
     rejected here\<close>
  "parse_float s =
     (let (neg, ds) = split_sign s; ip = takeWhile is_digit ds; rest = dropWhile is_digit ds;
          fp = (case rest of [] \<Rightarrow> [] | c # r \<Rightarrow> r);
          x = of_nat (undec (ip @ fp)) / 10 ^ length fp
      in if (rest = [] \<or> hd rest = CHR ''.'') \<and> list_all is_digit fp \<and> ip @ fp \<noteq> []
         then Some (if neg then - x else x) else None)"

lemma split_sign_dec_int: "split_sign (dec_int i) = (i < 0, dec_nat (nat \<bar>i\<bar>))"
proof (cases "i < 0")
  case False
  obtain c r where c: "dec_nat (nat i) = c # r" by (cases "dec_nat (nat i)") simp_all
  have "is_digit c" using dec_nat_digits [of "nat i"] by (simp add: c)
  then have "c \<noteq> CHR ''-''" "c \<noteq> CHR ''+''" by (auto simp: is_digit_def)
  with False show ?thesis by (simp add: split_sign_def dec_int_def c)
qed (simp add: split_sign_def dec_int_def)

lemma parse_int_dec_int [simp]: "parse_int (dec_int i) = Some i"
  by (simp add: parse_int_def split_sign_dec_int dec_nat_digits)

lemma parse_float_digits:
  assumes "split_sign s = (neg, ds)" "list_all is_digit ds" "ds \<noteq> []"
  shows "parse_float s = Some (if neg then - of_nat (undec ds) else of_nat (undec ds))"
proof -
  have whole: "takeWhile is_digit ds = ds" "dropWhile is_digit ds = []"
    using assms(2) by (simp_all add: takeWhile_eq_all_conv dropWhile_eq_Nil_conv list_all_iff)
  show ?thesis using assms(2) by (simp add: parse_float_def Let_def whole assms(1, 3) list_all_iff)
qed

lemma parse_float_dec_int [simp]: "parse_float (dec_int i) = Some (of_int i)"
  using parse_float_digits [OF split_sign_dec_int [of i] dec_nat_digits dec_nat_not_Nil] by simp

lemma py_int_of_int [simp]: "py_int (of_int i) = i"
proof -
  have "\<lfloor>- (of_int i :: rat)\<rfloor> = - i" by (metis floor_of_int of_int_minus)
  then show ?thesis by (simp add: py_int_def)
qed

section \<open>Counters\<close>

text \<open>\<open>collections.Counter\<close>: a missing key reads 0.\<close>

type_synonym counter = "string \<Rightarrow> int"

definition counter_add :: "counter \<Rightarrow> string \<Rightarrow> int \<Rightarrow> counter" where
  "counter_add c k n = c(k := c k + n)"

lemma counter_add_apply [counter_simps, simp]:
  "counter_add c k n k' = (if k' = k then c k' + n else c k')"
  by (simp add: counter_add_def)

section \<open>Lists\<close>

definition drop_last :: "nat \<Rightarrow> 'a list \<Rightarrow> 'a list" where
  \<comment> \<open>the slice \<open>xs[:-n]\<close>\<close>
  "drop_last n xs = take (length xs - n) xs"

lemma sum_list_remove1:
  fixes f :: "'a \<Rightarrow> 'b::ordered_cancel_comm_monoid_diff"
  shows "x \<in> set xs \<Longrightarrow> f x + sum_list (map f (remove1 x xs)) = sum_list (map f xs)"
  by (simp add: sum_list_map_remove1)

lemma sum_list_remove1_int:
  "x \<in> set xs \<Longrightarrow> (\<Sum>y\<leftarrow>remove1 x xs. f y) = (\<Sum>y\<leftarrow>xs. f y) - (f x :: int)"
  by (induction xs) auto

lemma Suc_length_remove1: "x \<in> set xs \<Longrightarrow> Suc (length (remove1 x xs)) = length xs"
  by (induction xs) auto

lemma count_filter_mono:
  "(\<And>x. P x \<Longrightarrow> Q x) \<Longrightarrow> length (filter P xs) \<le> length (filter Q xs)"
  by (induction xs) auto

end
