(* ===== verification/Gen_Stats.thy ===== *)
theory Gen_Stats
  imports Prelude
begin

text \<open>
  The traffic generator's counters (\<open>generator/stats.py\<close>) and the ad-decision client that
  feeds them (\<open>generator/addecision.py\<close>).

  \<open>stats\<close> is the class \<open>Stats\<close>: the cumulative counter, the counter of the current second, the
  two bounded latency deques, and the attribute \<open>_last_lat\<close>, which does not exist before the
  first snapshot (\<open>None\<close>).  The texts \<open>line\<close> and \<open>summary\<close> print are not modelled; what
  \<open>line\<close> reads and changes is.
\<close>

section \<open>Python helpers\<close>

definition py_nth :: "'a list \<Rightarrow> int \<Rightarrow> 'a result" where
  \<comment> \<open>\<open>xs[i]\<close>, negative indices from the end\<close>
  "py_nth xs i =
     (let j = (if i < 0 then i + int (length xs) else i)
      in if j < 0 \<or> int (length xs) \<le> j then Inl IndexError else Inr (xs ! nat j))"

definition deque_append :: "nat \<Rightarrow> 'a \<Rightarrow> 'a list \<Rightarrow> 'a list" where
  \<comment> \<open>\<open>append\<close> on a deque with \<open>maxlen\<close>: the oldest element falls out\<close>
  "deque_append maxlen x xs = (let ys = xs @ [x] in drop (length ys - maxlen) ys)"

lemma length_deque_append: "length (deque_append n x xs) \<le> n"
  by (simp add: deque_append_def Let_def)

section \<open>Stats\<close>

record stats =
  st_total :: counter
  st_window :: counter
  st_latencies :: "rat list"
  st_ad_latencies :: "rat list"
  st_last_lat :: "rat list option"

definition stats_init :: stats where
  "stats_init = \<lparr>st_total = (\<lambda>_. 0), st_window = (\<lambda>_. 0), st_latencies = [],
     st_ad_latencies = [], st_last_lat = None\<rparr>"

definition bump :: "string \<Rightarrow> int \<Rightarrow> stats \<Rightarrow> stats" where
  "bump key n st = st\<lparr>st_total := counter_add (st_total st) key n,
     st_window := counter_add (st_window st) key n\<rparr>"

definition latency :: "rat \<Rightarrow> stats \<Rightarrow> stats" where
  "latency ms st = st\<lparr>st_latencies := deque_append 5000 ms (st_latencies st)\<rparr>"

definition latency_ad :: "rat \<Rightarrow> stats \<Rightarrow> stats" where
  "latency_ad ms st = st\<lparr>st_ad_latencies := deque_append 5000 ms (st_ad_latencies st)\<rparr>"

definition pct_source :: "stats \<Rightarrow> rat list" where
  \<comment> \<open>\<open>getattr(self, "_last_lat", None) or list(self.latencies)\<close>\<close>
  "pct_source st = (case st_last_lat st of
     None \<Rightarrow> st_latencies st
   | Some l \<Rightarrow> if l = [] then st_latencies st else l)"

definition pct :: "stats \<Rightarrow> rat \<Rightarrow> rat result" where
  "pct st p =
     (let src = pct_source st in
      if src = [] then Inr 0
      else let s = sort src;
               i = min (int (length s) - 1) (py_int (of_nat (length s) * p))
           in py_nth s i)"

definition snapshot :: "stats \<Rightarrow> counter \<times> stats" where
  "snapshot st = (st_window st,
     st\<lparr>st_window := (\<lambda>_. 0), st_last_lat := Some (st_latencies st), st_latencies := []\<rparr>)"

definition stats_line :: "stats \<Rightarrow> (counter \<times> int \<times> rat result) \<times> stats" where
  \<comment> \<open>what \<open>line\<close> prints: the second's counters, the total sent, and p95\<close>
  "stats_line st =
     (let (w, st') = snapshot st in ((w, st_total st' ''sent'', pct st' (95 / 100)), st'))"

section \<open>Counting as an interface\<close>

text \<open>
  What the emitter and the ad-decision client rely on: a bump adds to its own key only, and
  recording a latency counts nothing.  The cumulative counter and the counter of the current
  second both keep the contract.
\<close>

locale event_counter =
  fixes add :: "string \<Rightarrow> int \<Rightarrow> 's \<Rightarrow> 's"
    and note_ms :: "rat \<Rightarrow> 's \<Rightarrow> 's"
    and note_ad_ms :: "rat \<Rightarrow> 's \<Rightarrow> 's"
    and count :: "'s \<Rightarrow> string \<Rightarrow> int"
  assumes count_add: "count (add k n s) k' = count s k' + (if k' = k then n else 0)"
    and count_note: "count (note_ms x s) k' = count s k'"
    and count_note_ad: "count (note_ad_ms x s) k' = count s k'"
begin

lemma count_add_other: "k' \<noteq> k \<Longrightarrow> count (add k n s) k' = count s k'"
  by (simp add: count_add)

lemma count_adds:
  "count (fold (\<lambda>(k, n). add k n) ops s) k' = count s k' + (\<Sum>(k, n)\<leftarrow>ops. if k' = k then n else 0)"
  by (induction ops arbitrary: s) (auto simp: count_add)

lemma count_add_mono: "0 \<le> n \<Longrightarrow> count s k' \<le> count (add k n s) k'"
  by (simp add: count_add)

end

interpretation total: event_counter bump latency latency_ad st_total
  by unfold_locales (simp_all add: bump_def latency_def latency_ad_def)

interpretation second: event_counter bump latency latency_ad st_window
  by unfold_locales (simp_all add: bump_def latency_def latency_ad_def)

lemmas total_simps = total.count_add total.count_note total.count_note_ad
lemmas second_simps = second.count_add second.count_note second.count_note_ad

lemma total_snapshot [simp]: "st_total (snd (snapshot st)) = st_total st"
  by (simp add: snapshot_def)

section \<open>Runs of the counters\<close>

datatype stats_op = Bump string int | Latency rat | LatencyAd rat | Snapshot

fun stats_run :: "stats_op list \<Rightarrow> stats \<Rightarrow> counter list \<times> stats" where
  "stats_run [] st = ([], st)"
| "stats_run (Bump k n # ops) st = stats_run ops (bump k n st)"
| "stats_run (Latency x # ops) st = stats_run ops (latency x st)"
| "stats_run (LatencyAd x # ops) st = stats_run ops (latency_ad x st)"
| "stats_run (Snapshot # ops) st =
     (let (w, st) = snapshot st; (ws, st) = stats_run ops st in (w # ws, st))"

lemma stats_run_balance:
  "stats_run ops st = (ws, st') \<Longrightarrow>
     st_total st' k - st_window st' k - (\<Sum>w\<leftarrow>ws. w k) = st_total st k - st_window st k"
proof (induction ops st arbitrary: ws st' rule: stats_run.induct)
  case (5 ops st)
  then show ?case
    by (fastforce simp: snapshot_def Let_def split: prod.splits)
qed (auto simp: total_simps second_simps)

section \<open>Percentiles\<close>

lemma sorted_nth_le_count:
  fixes s :: "'a::linorder list"
  assumes "sorted s" "i < length s"
  shows "i < length (filter (\<lambda>x. x \<le> s ! i) s)" "length (filter (\<lambda>x. x < s ! i) s) \<le> i"
proof -
  have split: "s = take (Suc i) s @ drop (Suc i) s" by simp
  have "\<forall>x \<in> set (take (Suc i) s). x \<le> s ! i"
    using assms by (auto simp: in_set_conv_nth sorted_nth_mono)
  then have "filter (\<lambda>x. x \<le> s ! i) (take (Suc i) s) = take (Suc i) s"
    by (simp add: filter_id_conv)
  then have "length (filter (\<lambda>x. x \<le> s ! i) s) = Suc i + length (filter (\<lambda>x. x \<le> s ! i) (drop (Suc i) s))"
    using assms(2) by (subst split) (simp only: filter_append length_append, simp)
  then show "i < length (filter (\<lambda>x. x \<le> s ! i) s)" by simp
  have "\<forall>x \<in> set (drop i s). \<not> x < s ! i"
    using assms by (auto simp: in_set_conv_nth not_less intro!: sorted_nth_mono)
  then have "filter (\<lambda>x. x < s ! i) (drop i s) = []"
    by (simp add: filter_empty_conv)
  then have "length (filter (\<lambda>x. x < s ! i) s) = length (filter (\<lambda>x. x < s ! i) (take i s))"
    by (metis append_Nil2 append_take_drop_id filter_append)
  also have "\<dots> \<le> i" by (rule order_trans [OF length_filter_le]) simp
  finally show "length (filter (\<lambda>x. x < s ! i) s) \<le> i" .
qed

lemma pct_nth:
  assumes "0 \<le> p" "pct_source st \<noteq> []"
  defines "s \<equiv> sort (pct_source st)"
  defines "i \<equiv> min (length s - 1) (nat \<lfloor>of_nat (length s) * p\<rfloor>)"
  shows "i < length s" and "pct st p = Inr (s ! i)"
proof -
  have len: "0 < length s" using assms(2) by (simp add: s_def)
  then show "i < length s" unfolding i_def by linarith
  have "0 \<le> of_nat (length s) * p" using assms(1) by simp
  then have fl: "0 \<le> \<lfloor>of_nat (length s) * p\<rfloor>" "\<not> of_nat (length s) * p < 0" by simp_all
  have "min (int (length s) - 1) \<lfloor>of_nat (length s) * p\<rfloor> = int i"
    unfolding i_def using fl len by linarith
  then show "pct st p = Inr (s ! i)"
    using assms(2) fl \<open>i < length s\<close>
    by (simp add: pct_def Let_def py_nth_def py_int_def s_def [symmetric])
qed

section \<open>The ad-decision client\<close>

text \<open>
  A reply is an exception of the HTTP call, or a status with the decoded JSON body (\<open>None\<close> when
  decoding raises).  \<open>data.get\<close> runs outside the \<open>try\<close>: a body that is no JSON object raises.
\<close>

datatype http_reply = HttpRaised | HttpReply int "pyval option"

definition ad_decision_request :: "http_reply \<Rightarrow> rat \<Rightarrow> stats \<Rightarrow> pyval result \<times> stats" where
  "ad_decision_request reply ms st =
     (case reply of
        HttpRaised \<Rightarrow> (Inr PNone, bump ''ad.err'' 1 st)
      | HttpReply status body \<Rightarrow>
          if status \<noteq> 200 then (Inr PNone, bump ''ad.err'' 1 st)
          else (case body of
              None \<Rightarrow> (Inr PNone, bump ''ad.err'' 1 st)
            | Some data \<Rightarrow>
                (let st = bump ''ad.call'' 1 (latency_ad ms st) in
                 case data of
                   PDict d \<Rightarrow>
                     (Inr data, bump (if truthy (dget d ''fill'') then ''ad.fill'' else ''ad.nofill'') 1 st)
                 | _ \<Rightarrow> (Inl AttributeError, st))))"

fun ad_calls :: "(http_reply \<times> rat) list \<Rightarrow> stats \<Rightarrow> pyval result list \<times> stats" where
  "ad_calls [] st = ([], st)"
| "ad_calls ((reply, ms) # calls) st =
     (let (r, st) = ad_decision_request reply ms st; (rs, st) = ad_calls calls st in (r # rs, st))"

lemma ad_decision_request_counts:
  assumes "ad_decision_request reply ms st = (r, st')"
  shows "st_total st' ''ad.call'' + st_total st' ''ad.err''
      = st_total st ''ad.call'' + st_total st ''ad.err'' + 1"
    and "st_total st' ''ad.err'' = st_total st ''ad.err'' + (if r = Inr PNone then 1 else 0)"
    and "st_total st' ''ad.fill'' + st_total st' ''ad.nofill''
      = st_total st ''ad.fill'' + st_total st ''ad.nofill'' + (case r of Inr (PDict _) \<Rightarrow> 1 | _ \<Rightarrow> 0)"
    and "st_total st' ''ad.fill'' = st_total st ''ad.fill''
        + (case r of Inr (PDict d) \<Rightarrow> if truthy (dget d ''fill'') then 1 else 0 | _ \<Rightarrow> 0)"
  using assms
  by (auto simp: ad_decision_request_def total_simps Let_def split: http_reply.splits if_splits option.splits pyval.splits)

lemma ad_decision_request_frame:
  assumes "ad_decision_request reply ms st = (r, st')" "k \<notin> {''ad.call'', ''ad.err'', ''ad.fill'', ''ad.nofill''}"
  shows "st_total st' k = st_total st k" "st_window st' k = st_window st k"
  using assms
  by (auto simp: ad_decision_request_def total_simps second_simps Let_def
      split: http_reply.splits if_splits option.splits pyval.splits)

section \<open>Properties\<close>

text \<open>The per-second lines lose nothing. Over any run of the counters from a fresh Stats, the
  cumulative count of a key is the sum of what the snapshots reported for it plus what the open
  second has counted so far.\<close>

theorem stats_lines_add_up:
  "stats_run ops stats_init = (ws, st) \<Longrightarrow> st_total st k = (\<Sum>w\<leftarrow>ws. w k) + st_window st k"
  using stats_run_balance [of ops stats_init ws st k] by (simp add: stats_init_def)

theorem stats_lines_add_up_witness:
  "\<exists>ws st. stats_run [Bump ''sent'' 2, Snapshot, Bump ''sent'' 3] stats_init = (ws, st)
     \<and> st_total st ''sent'' = 5"
proof -
  obtain ws st where r: "stats_run [Bump ''sent'' 2, Snapshot, Bump ''sent'' 3] stats_init = (ws, st)"
    by (cases "stats_run [Bump ''sent'' 2, Snapshot, Bump ''sent'' 3] stats_init")
  then have "ws = [(\<lambda>_. 0)(''sent'' := 2)]" "st_window st ''sent'' = 3"
    by (auto simp: snapshot_def stats_init_def bump_def counter_add_def Let_def)
  with stats_lines_add_up [OF r, of "''sent''"] r show ?thesis by auto
qed

text \<open>For a nonnegative fraction p the percentile never raises; it is 0 without samples, and
  otherwise one of the samples, with more than \<open>min(n-1, floor(n*p))\<close> samples at or below it and
  at most that many strictly below it.\<close>

theorem pct_order_statistic:
  assumes "0 \<le> p"
  shows "\<exists>v. pct st p = Inr v \<and>
    (if pct_source st = [] then v = 0
     else v \<in> set (pct_source st) \<and>
       min (length (pct_source st) - 1) (nat \<lfloor>of_nat (length (pct_source st)) * p\<rfloor>)
         < length (filter (\<lambda>x. x \<le> v) (pct_source st)) \<and>
       length (filter (\<lambda>x. x < v) (pct_source st))
         \<le> min (length (pct_source st) - 1) (nat \<lfloor>of_nat (length (pct_source st)) * p\<rfloor>))"
proof (cases "pct_source st = []")
  case True
  then show ?thesis by (simp add: pct_def)
next
  case False
  let ?s = "sort (pct_source st)"
  let ?i = "min (length ?s - 1) (nat \<lfloor>of_nat (length ?s) * p\<rfloor>)"
  note i = pct_nth [OF assms False]
  have len: "length (filter P ?s) = length (filter P (pct_source st))" for P
    by (metis mset_filter mset_sort size_mset)
  have "?s ! ?i \<in> set (pct_source st)" using i(1) nth_mem set_sort by metis
  then show ?thesis
    using False i sorted_nth_le_count [OF sorted_sort i(1)] by (auto simp: len)
qed

theorem pct_order_statistic_witness:
  "\<exists>v. pct (stats_init\<lparr>st_latencies := [30, 10, 20]\<rparr>) (95 / 100) = Inr v \<and> v \<in> {10, 20, 30}"
  using pct_order_statistic [of "95 / 100" "stats_init\<lparr>st_latencies := [30, 10, 20]\<rparr>"]
  by (auto simp: pct_source_def stats_init_def)

text \<open>The ad-decision client accounts for every call. Over any sequence of replies each call
  counts once, as an error or as an answered call, and an answered call whose body is a JSON
  object counts once more, as a fill exactly when \<open>fill\<close> is true and as a no-fill otherwise.\<close>

theorem ad_calls_accounted:
  "ad_calls calls st = (rs, st') \<Longrightarrow>
     length rs = length calls \<and>
     st_total st' ''ad.call'' + st_total st' ''ad.err''
       = st_total st ''ad.call'' + st_total st ''ad.err'' + int (length calls) \<and>
     st_total st' ''ad.err'' = st_total st ''ad.err'' + int (length (filter (\<lambda>r. r = Inr PNone) rs)) \<and>
     st_total st' ''ad.fill'' + st_total st' ''ad.nofill''
       = st_total st ''ad.fill'' + st_total st ''ad.nofill''
         + int (length (filter (\<lambda>r. \<exists>d. r = Inr (PDict d)) rs)) \<and>
     st_total st' ''ad.fill'' = st_total st ''ad.fill''
       + int (length (filter (\<lambda>r. \<exists>d. r = Inr (PDict d) \<and> truthy (dget d ''fill'')) rs))"
proof (induction calls st arbitrary: rs st' rule: ad_calls.induct)
  case (2 reply ms calls st)
  obtain r st1 where one: "ad_decision_request reply ms st = (r, st1)" by force
  obtain rs1 where rs: "rs = r # rs1" and rest: "ad_calls calls st1 = (rs1, st')"
    using "2.prems" one by (auto simp: Let_def split: prod.splits)
  show ?case
    using "2.IH" [OF one [symmetric] refl rest] ad_decision_request_counts [OF one]
    by (cases r rule: sum.exhaust) (auto simp: rs split: pyval.splits)
qed simp

theorem ad_calls_accounted_witness:
  "\<exists>rs st'. ad_calls [(HttpReply 200 (Some (PDict [(''fill'', PBool True)])), 3), (HttpRaised, 0)] stats_init = (rs, st')
     \<and> st_total st' ''ad.call'' + st_total st' ''ad.err'' = 2"
proof -
  let ?c = "[(HttpReply 200 (Some (PDict [(''fill'', PBool True)])), 3), (HttpRaised, 0)]"
  obtain rs st' where r: "ad_calls ?c stats_init = (rs, st')" by force
  from ad_calls_accounted [OF r] r show ?thesis by (auto simp: stats_init_def)
qed

end
