(* ===== verification/Collector.thy ===== *)
theory Collector
  imports Prelude
begin

text \<open>
  The two pure services of the Kotlin collector the Python side copies or talks to: the topic
  router (\<open>TopicRouter.kt\<close>) and the verifier of tracking-pixel signatures
  (\<open>SignatureVerifier.kt\<close>).  HMAC-SHA256 in lower-case hex is a parameter.

  A request's query parameters are a map from names to value lists; the model is a list of
  entries with distinct names.
\<close>

section \<open>Strings\<close>

definition lower_char :: "char \<Rightarrow> char" where
  "lower_char c = (if 65 \<le> (of_char c :: nat) \<and> (of_char c :: nat) \<le> 90 then char_of ((of_char c :: nat) + 32) else c)"

definition lowercase :: "string \<Rightarrow> string" where
  \<comment> \<open>ASCII only\<close>
  "lowercase s = map lower_char s"

definition is_space :: "char \<Rightarrow> bool" where
  \<comment> \<open>ASCII white space of Python and Kotlin\<close>
  "is_space c \<longleftrightarrow> (of_char c :: nat) \<in> {9, 10, 11, 12, 13, 28, 29, 30, 31, 32}"

definition is_letter :: "char \<Rightarrow> bool" where
  "is_letter c \<longleftrightarrow> (65 \<le> (of_char c :: nat) \<and> (of_char c :: nat) \<le> 90) \<or> (97 \<le> (of_char c :: nat) \<and> (of_char c :: nat) \<le> 122)"

definition strip_ws :: "string \<Rightarrow> string" where
  \<comment> \<open>\<open>strip\<close> of Python, \<open>trim\<close> of Kotlin\<close>
  "strip_ws s = rev (dropWhile is_space (rev (dropWhile is_space s)))"

fun join :: "string \<Rightarrow> string list \<Rightarrow> string" where
  "join sep [] = []"
| "join sep [x] = x"
| "join sep (x # y # xs) = x @ sep @ join sep (y # xs)"

definition to_long :: "string \<Rightarrow> int option" where
  \<comment> \<open>\<open>toLongOrNull\<close>: an optional sign, digits, 64 bits\<close>
  "to_long s =
     (let (neg, ds) = (case s of [] \<Rightarrow> (False, []) | c # r \<Rightarrow>
            if c = CHR ''-'' then (True, r) else if c = CHR ''+'' then (False, r) else (False, s));
          n = (if neg then - int (undec ds) else int (undec ds))
      in if ds \<noteq> [] \<and> list_all is_digit ds \<and> - (2 ^ 63) \<le> n \<and> n < 2 ^ 63 then Some n else None)"

lemma is_digit_not_sign [simp]: "is_digit c \<Longrightarrow> c \<noteq> CHR ''-'' \<and> c \<noteq> CHR ''+''"
  by (auto simp: is_digit_def)

lemma to_long_dec_int: "0 \<le> n \<Longrightarrow> n < 2 ^ 63 \<Longrightarrow> to_long (dec_int n) = Some n"
  using dec_nat_digits [of "nat n"]
  by (cases "dec_nat (nat n)") (auto simp: to_long_def dec_int_def Let_def dest: arg_cong [where f = undec])

section \<open>Topic routing\<close>

definition topic_for :: "string \<Rightarrow> string option" where
  "topic_for event_type =
     (let t = lowercase event_type in
      if t \<in> {''impression'', ''ad_impression''} then Some ''ad.impression''
      else if t \<in> {''quartile'', ''start'', ''first_quartile'', ''firstquartile'',
          ''midpoint'', ''third_quartile'', ''thirdquartile'', ''complete''} then Some ''ad.quartile''
      else if t \<in> {''click'', ''ad_click'', ''clickthrough''} then Some ''ad.click''
      else if t \<in> {''ad_request'', ''request'', ''ad_response'', ''response''} then Some ''ad.request''
      else if t \<in> {''progress'', ''play'', ''pause'', ''resume'', ''seek'',
          ''session_start'', ''session_end'', ''content_start'', ''content_end''} then Some ''user.behavior''
      else None)"

section \<open>Pixel signatures\<close>

type_synonym query = "(string \<times> string list) list"

datatype sig_result = SigValid | SigInvalid string

definition first_value :: "query \<Rightarrow> string \<Rightarrow> string option" where
  "first_value q k = (case map_of q k of Some (v # _) \<Rightarrow> Some v | _ \<Rightarrow> None)"

definition collector_canonical :: "query \<Rightarrow> string" where
  "collector_canonical q =
     join ''&'' (map (\<lambda>(k, v). k @ ''='' @ (case v of [] \<Rightarrow> [] | x # _ \<Rightarrow> x))
       (sort_key fst (filter (\<lambda>(k, v). k \<noteq> ''sig'') q)))"

definition sig_verify :: "(string \<Rightarrow> string \<Rightarrow> string) \<Rightarrow> string \<Rightarrow> int \<Rightarrow> query \<Rightarrow> sig_result" where
  "sig_verify hmac secret now q =
     (case first_value q ''sig'' of
        None \<Rightarrow> SigInvalid ''missing_sig''
      | Some sg \<Rightarrow>
          (case first_value q ''exp'' of
             None \<Rightarrow> SigInvalid ''missing_exp''
           | Some expRaw \<Rightarrow>
               (case to_long expRaw of
                  None \<Rightarrow> SigInvalid ''bad_exp''
                | Some expiry \<Rightarrow>
                    if now > expiry then SigInvalid ''expired''
                    else if hmac secret (collector_canonical q) = lowercase sg then SigValid
                    else SigInvalid ''bad_signature'')))"

text \<open>The query the collector sees for a list of distinct parameters.\<close>

definition as_query :: "(string \<times> string) list \<Rightarrow> query" where
  "as_query ps = map (\<lambda>(k, v). (k, [v])) ps"

section \<open>The contract between signers and the collector\<close>

text \<open>
  A signer must compute HMAC of the collector's canonical string.  Then a pixel with the
  signature appended is accepted until it expires, whatever order its parameters arrive in,
  and one with another signature is rejected.
\<close>

lemma map_of_as_query: "map_of (as_query ps) k = map_option (\<lambda>v. [v]) (map_of ps k)"
  by (induction ps) (auto simp: as_query_def)

lemma first_value_as_query: "first_value (as_query ps) k = map_of ps k"
  by (simp add: first_value_def map_of_as_query split: option.splits)

lemma first_value_perm:
  assumes "distinct (map fst ps)" "mset q = mset (as_query ps)"
  shows "first_value q k = map_of ps k"
proof -
  have "map fst (as_query ps) = map fst ps" by (auto simp: as_query_def)
  then have d: "distinct (map fst (as_query ps))" using assms(1) by simp
  have dq: "distinct (map fst q)" using d assms(2) by (metis mset_eq_imp_distinct_iff mset_map)
  have "map_of q = map_of (as_query ps)"
    using dq d assms(2) by (metis map_of_eqI mset_eq_setD mset_map map_of_inject_set)
  then show ?thesis using first_value_as_query [of ps k] by (simp add: first_value_def)
qed

lemma collector_canonical_mset:
  assumes "distinct (map fst q)" "mset q = mset q'"
  shows "collector_canonical q = collector_canonical q'"
proof -
  let ?f = "filter (\<lambda>(k, v). k \<noteq> ''sig'')"
  have "inj_on fst (set (?f q))"
    using assms(1) by (auto simp: distinct_map inj_on_def)
  moreover have "mset (?f q) = mset (sort_key fst (?f q'))" using assms(2) by simp
  ultimately have "sort_key fst (?f q) = sort_key fst (?f q')"
    by (intro sort_key_inj_key_eq) simp_all
  then show ?thesis by (simp add: collector_canonical_def)
qed

lemma collector_canonical_sig:
  "collector_canonical (q @ [(''sig'', v)]) = collector_canonical q"
  by (simp add: collector_canonical_def)

locale pixel_signer =
  fixes signer :: "(string \<Rightarrow> string \<Rightarrow> string) \<Rightarrow> string \<Rightarrow> (string \<times> string) list \<Rightarrow> string"
  assumes signer_canonical:
    "distinct (map fst ps) \<Longrightarrow> signer hmac secret ps = hmac secret (collector_canonical (as_query ps))"
begin

lemma verify_signed:
  assumes ps: "distinct (map fst ps)" "''sig'' \<notin> fst ` set ps" "map_of ps ''exp'' = Some (dec_int expiry)"
    and expiry: "0 \<le> expiry" "expiry < 2 ^ 63"
    and q: "mset q = mset (as_query (ps @ [(''sig'', sg)]))"
  shows "sig_verify hmac secret now q =
    (if now > expiry then SigInvalid ''expired''
     else if signer hmac secret ps = lowercase sg then SigValid else SigInvalid ''bad_signature'')"
proof -
  let ?r = "as_query (ps @ [(''sig'', sg)])"
  have keys: "map fst ?r = map fst ps @ [''sig'']" by (auto simp: as_query_def)
  then have d: "distinct (map fst ?r)" using ps by simp
  have dq: "distinct (map fst q)" using d q by (metis mset_eq_imp_distinct_iff mset_map)
  have "first_value q k = map_of (ps @ [(''sig'', sg)]) k" for k
    using ps q by (intro first_value_perm) auto
  moreover have "map_of ps ''sig'' = None" using ps(2) by (simp add: map_of_eq_None_iff)
  ultimately have vals: "first_value q ''sig'' = Some sg" "first_value q ''exp'' = Some (dec_int expiry)"
    using ps(3) by (simp_all add: map_add_def)
  have "collector_canonical q = collector_canonical ?r"
    by (rule collector_canonical_mset [OF dq q])
  also have "\<dots> = collector_canonical (as_query ps)"
    using collector_canonical_sig [of "as_query ps"] by (simp add: as_query_def)
  finally show ?thesis
    using signer_canonical [OF ps(1), of hmac secret] expiry
    by (simp add: sig_verify_def vals to_long_dec_int)
qed

end

end
