(* ===== verification/Emitter.thy ===== *)
theory Emitter
  imports Gen_Stats Collector "HOL-Library.Stream"
begin

text \<open>
  The event emitter of the traffic generator (\<open>generator/emitter.py\<close>).

  \<open>emitter\<close> is the state of class \<open>Emitter\<close>: the two buffers, the flags, the tasks in flight
  (POST of a batch, a pixel call, a delayed retransmission), the shared Stats, the random
  stream and how many uuids were drawn.  A random number is the head of a stream of numbers in
  [0, 1); each call of \<open>random\<close>, \<open>uniform\<close> or \<open>choice\<close> takes one.  \<open>uuid4().hex\<close> is the
  \<open>n\<close>-th value of a supply, a parameter of the configuration.  \<open>asyncio\<close> runs one coroutine at a
  time and switches only at an \<open>await\<close> that suspends: \<open>emit\<close>, \<open>_route\<close> and \<open>_flush\<close> never
  suspend, so each is one step, and the completion of a task in flight is one step.
\<close>

section \<open>Tables\<close>

definition REQUIRED_FIELDS :: "string list" where
  "REQUIRED_FIELDS = [''event_id'', ''event_type'', ''campaign_id'', ''event_time'']"

definition TYPE_BUCKET :: "(string \<times> string) list" where
  "TYPE_BUCKET = [(''impression'', ''t.impression''), (''quartile'', ''t.quartile''),
     (''click'', ''t.click''), (''ad_request'', ''t.request''), (''ad_response'', ''t.request'')]"

definition PIXEL_MAP :: "(string \<times> string) list" where
  "PIXEL_MAP = [(''eid'', ''event_id''), (''et'', ''event_type''), (''cid'', ''campaign_id''),
     (''ts'', ''event_time''), (''arid'', ''ad_request_id''), (''crid'', ''creative_id''),
     (''q'', ''quartile''), (''sid'', ''session_id''), (''src'', ''source'')]"

section \<open>State\<close>

record anomalies =
  an_late :: rat
  an_dup :: rat
  an_bad :: rat
  an_forge :: rat
  an_ssai :: rat

record config =
  cf_anom :: anomalies
  cf_pixel_ratio :: rat
  cf_batch_size :: int
  cf_hex :: "nat \<Rightarrow> string"

datatype task = PostTask "event list" | PixelTask event bool | DelayedTask event bool

record emitter =
  em_buf :: "event list"
  em_pixel_buf :: "(event \<times> bool) list"
  em_paused :: bool
  em_closing :: bool
  em_inflight :: "task list"
  em_stats :: stats
  em_rng :: "rat stream"
  em_uuid :: nat

definition em_init :: "rat stream \<Rightarrow> emitter" where
  "em_init rng = \<lparr>em_buf = [], em_pixel_buf = [], em_paused = False, em_closing = False,
     em_inflight = [], em_stats = stats_init, em_rng = rng, em_uuid = 0\<rparr>"

definition em_bump :: "string \<Rightarrow> int \<Rightarrow> emitter \<Rightarrow> emitter" where
  "em_bump k n e = e\<lparr>em_stats := bump k n (em_stats e)\<rparr>"

definition em_latency :: "rat \<Rightarrow> emitter \<Rightarrow> emitter" where
  "em_latency x e = e\<lparr>em_stats := latency x (em_stats e)\<rparr>"

definition rand :: "emitter \<Rightarrow> rat \<times> emitter" where
  "rand e = (shd (em_rng e), e\<lparr>em_rng := stl (em_rng e)\<rparr>)"

definition uniform :: "rat \<Rightarrow> rat \<Rightarrow> emitter \<Rightarrow> rat \<times> emitter" where
  "uniform a b e = (let (u, e) = rand e in (a + (b - a) * u, e))"

definition choice :: "'a list \<Rightarrow> emitter \<Rightarrow> 'a \<times> emitter" where
  "choice xs e = (let (u, e) = rand e in (xs ! nat \<lfloor>u * of_nat (length xs)\<rfloor>, e))"

definition hex16 :: "config \<Rightarrow> emitter \<Rightarrow> string \<times> emitter" where
  \<comment> \<open>\<open>uuid.uuid4().hex[:16]\<close>\<close>
  "hex16 cfg e = (take 16 (cf_hex cfg (em_uuid e)), e\<lparr>em_uuid := Suc (em_uuid e)\<rparr>)"

section \<open>Emission\<close>

definition em_pause :: "emitter \<Rightarrow> emitter" where
  "em_pause e = e\<lparr>em_paused := True\<rparr>"

definition em_resume :: "emitter \<Rightarrow> emitter" where
  "em_resume e = e\<lparr>em_paused := False\<rparr>"

definition em_pending :: "emitter \<Rightarrow> nat" where
  "em_pending e = length (em_buf e) + length (em_pixel_buf e)"

definition bucket_of :: "event \<Rightarrow> string" where
  "bucket_of ev = (case dget ev ''event_type'' of
     PStr t \<Rightarrow> (case map_of TYPE_BUCKET t of Some b \<Rightarrow> b | None \<Rightarrow> ''t.behavior'')
   | _ \<Rightarrow> ''t.behavior'')"

definition em_strip :: "event \<Rightarrow> event" where
  "em_strip ev = ev"

definition route :: "config \<Rightarrow> event \<Rightarrow> bool \<Rightarrow> bool \<Rightarrow> emitter \<Rightarrow> emitter" where
  "route cfg ev allow_pixel forge e =
     (let e = em_bump ''sent'' 1 (em_bump (bucket_of ev) 1 e);
          (use_pixel, e) =
            (if forge then (True, e)
             else if allow_pixel then (let (u, e) = rand e in (u < cf_pixel_ratio cfg, e))
             else (False, e))
      in if use_pixel then
           (let e = (if forge then em_bump ''a.forge'' 1 e else e)
            in e\<lparr>em_pixel_buf := em_pixel_buf e @ [(ev, forge)]\<rparr>)
         else e\<lparr>em_buf := em_buf e @ [em_strip ev]\<rparr>)"

text \<open>(1) the SSAI twin of an impression.\<close>

definition ssai_twin :: "event \<Rightarrow> string \<Rightarrow> pyval \<Rightarrow> event" where
  "ssai_twin ev fresh orig =
     dset (dset (dset ev ''event_id'' (PStr (''evt-'' @ fresh))) ''source'' (PStr ''server'')) ''ssai_twin_of'' orig"

definition emit_ssai :: "config \<Rightarrow> event \<Rightarrow> emitter \<Rightarrow> exn option \<times> emitter" where
  "emit_ssai cfg ev e =
     (if dget ev ''event_type'' = PStr ''impression'' then
        (let (u, e) = rand e in
         if u < an_ssai (cf_anom cfg) then
           (let (h, e) = hex16 cfg e in
            case dsub ev ''event_id'' of
              Inl x \<Rightarrow> (Some x, e)
            | Inr orig \<Rightarrow> (None, route cfg (ssai_twin ev h orig) False False (em_bump ''a.ssai'' 1 e)))
         else (None, e))
      else (None, e))"

text \<open>(2) the event moved 30 to 60 seconds into the past.\<close>

fun minus_ms :: "pyval \<Rightarrow> int \<Rightarrow> pyval result" where
  "minus_ms (PInt t) d = Inr (PInt (t - d))"
| "minus_ms (PFloat x) d = Inr (PFloat (x - of_int d))"
| "minus_ms (PBool b) d = Inr (PInt ((if b then 1 else 0) - d))"
| "minus_ms _ d = Inl TypeError"

definition emit_late :: "config \<Rightarrow> event \<Rightarrow> emitter \<Rightarrow> event result \<times> emitter" where
  "emit_late cfg ev e =
     (let (u, e) = rand e in
      if u < an_late (cf_anom cfg) then
        (case dsub ev ''event_time'' of
           Inl x \<Rightarrow> (Inl x, e)
         | Inr t \<Rightarrow>
             (let (d, e) = uniform 30 60 e in
              case minus_ms t (py_int (d * 1000)) of
                Inl x \<Rightarrow> (Inl x, e)
              | Inr t' \<Rightarrow> (Inr (dset (dset ev ''event_time'' t') ''_late'' (PBool True)), em_bump ''a.late'' 1 e)))
      else (Inr ev, e))"

text \<open>(4) one required field removed.\<close>

definition emit_bad :: "config \<Rightarrow> event \<Rightarrow> emitter \<Rightarrow> event \<times> emitter" where
  "emit_bad cfg ev e =
     (let (u, e) = rand e in
      if u < an_bad (cf_anom cfg) then
        (let (victim, e) = choice REQUIRED_FIELDS e
         in (dset (dpop ev victim) ''_bad'' (PStr victim), em_bump ''a.bad'' 1 e))
      else (ev, e))"

text \<open>(5) a retransmission of the same event later.\<close>

definition emit_dup :: "config \<Rightarrow> event \<Rightarrow> bool \<Rightarrow> emitter \<Rightarrow> emitter" where
  "emit_dup cfg ev allow_pixel e =
     (let (u, e) = rand e in
      if u < an_dup (cf_anom cfg) then
        (let e = em_bump ''a.dup'' 1 e;
             copy = dset ev ''_dup'' (PBool True);
             (delay, e) = uniform (1 / 2) 3 e
         in e\<lparr>em_inflight := em_inflight e @ [DelayedTask copy allow_pixel]\<rparr>)
      else e)"

definition emit :: "config \<Rightarrow> event \<Rightarrow> bool \<Rightarrow> emitter \<Rightarrow> exn option \<times> emitter" where
  "emit cfg ev allow_pixel e =
     (case emit_ssai cfg ev e of
        (Some x, e) \<Rightarrow> (Some x, e)
      | (None, e) \<Rightarrow>
          (case emit_late cfg ev e of
             (Inl x, e) \<Rightarrow> (Some x, e)
           | (Inr ev, e) \<Rightarrow>
               (let (u, e) = rand e;
                    forge = (u < an_forge (cf_anom cfg));
                    (ev, e) = emit_bad cfg ev e;
                    e = route cfg ev allow_pixel forge e
                in (None, emit_dup cfg ev allow_pixel e))))"

definition delayed :: "config \<Rightarrow> event \<Rightarrow> bool \<Rightarrow> emitter \<Rightarrow> emitter" where
  \<comment> \<open>\<open>_delayed\<close> after its sleep\<close>
  "delayed cfg ev allow_pixel e = (if \<not> em_closing e then route cfg ev allow_pixel False e else e)"

section \<open>Flushing\<close>

function chunks :: "nat \<Rightarrow> 'a list \<Rightarrow> 'a list list" where
  "chunks n xs = (if xs = [] \<or> n = 0 then [] else take n xs # chunks n (drop n xs))"
  by pat_completeness auto
termination
  by (relation "measure (\<lambda>(n, xs). length xs)") auto

declare chunks.simps [simp del]

definition batches :: "int \<Rightarrow> 'a list \<Rightarrow> 'a list list result" where
  \<comment> \<open>\<open>[xs[i:i+size] for i in range(0, len(xs), size)]\<close>; \<open>range\<close> raises on step 0 and is empty on a
     negative step\<close>
  "batches bs xs =
     (if bs = 0 then Inl ValueError else if bs < 0 then Inr [] else Inr (chunks (nat bs) xs))"

definition em_flush :: "config \<Rightarrow> bool \<Rightarrow> emitter \<Rightarrow> exn option \<times> emitter" where
  "em_flush cfg force e =
     (if em_paused e \<and> \<not> force then (None, e)
      else
        (let batch = em_buf e; e = e\<lparr>em_buf := []\<rparr> in
         case (if batch = [] then Inr [] else batches (cf_batch_size cfg) batch) of
           Inl x \<Rightarrow> (Some x, e)
         | Inr bs \<Rightarrow>
             (let e = e\<lparr>em_inflight := em_inflight e @ map PostTask bs\<rparr>;
                  pixels = em_pixel_buf e
              in (None, e\<lparr>em_pixel_buf := [],
                   em_inflight := em_inflight e @ map (\<lambda>(ev, forge). PixelTask ev forge) pixels\<rparr>))))"

datatype send_reply = SendRaised | SendReply int rat

definition post_done :: "event list \<Rightarrow> send_reply \<Rightarrow> emitter \<Rightarrow> emitter" where
  \<comment> \<open>the outcome of \<open>_post\<close>\<close>
  "post_done batch reply e =
     (case reply of
        SendRaised \<Rightarrow> em_bump ''http.err'' (int (length batch)) e
      | SendReply status ms \<Rightarrow>
          em_bump (if 200 \<le> status \<and> status < 300 then ''http.2xx'' else ''http.err'') (int (length batch))
            (em_bump ''sent.post'' (int (length batch)) (em_latency ms e)))"

definition pixel_done :: "send_reply \<Rightarrow> emitter \<Rightarrow> emitter" where
  \<comment> \<open>the outcome of \<open>_pixel\<close>\<close>
  "pixel_done reply e =
     (case reply of
        SendRaised \<Rightarrow> em_bump ''http.err'' 1 e
      | SendReply status ms \<Rightarrow>
          em_bump (if 200 \<le> status \<and> status < 300 then ''http.2xx'' else ''http.err'') 1
            (em_bump ''sent.pixel'' 1 (em_latency ms e)))"

definition em_close :: "config \<Rightarrow> emitter \<Rightarrow> exn option \<times> emitter" where
  \<comment> \<open>\<open>close\<close> up to the \<open>gather\<close>, which waits for the tasks in flight\<close>
  "em_close cfg e = em_flush cfg True (em_resume (e\<lparr>em_closing := True\<rparr>))"

section \<open>The emitter as a state machine\<close>

definition task_done :: "task \<Rightarrow> emitter \<Rightarrow> emitter" where
  \<comment> \<open>the done callback: \<open>_inflight.discard\<close>\<close>
  "task_done t e = e\<lparr>em_inflight := remove1 t (em_inflight e)\<rparr>"

inductive em_complete :: "config \<Rightarrow> emitter \<Rightarrow> emitter \<Rightarrow> bool" for cfg :: config where
  delayed: "DelayedTask ev ap \<in> set (em_inflight e) \<Longrightarrow>
     em_complete cfg e (delayed cfg ev ap (task_done (DelayedTask ev ap) e))"
| post: "PostTask batch \<in> set (em_inflight e) \<Longrightarrow>
     em_complete cfg e (post_done batch reply (task_done (PostTask batch) e))"
| pixel: "PixelTask ev forge \<in> set (em_inflight e) \<Longrightarrow>
     em_complete cfg e (pixel_done reply (task_done (PixelTask ev forge) e))"

inductive em_step :: "config \<Rightarrow> emitter \<Rightarrow> emitter \<Rightarrow> bool" for cfg :: config where
  emit: "em_step cfg e (snd (emit cfg ev allow_pixel e))"
| pause: "em_step cfg e (em_pause e)"
| resume: "em_step cfg e (em_resume e)"
| flush: "em_step cfg e (snd (em_flush cfg False e))"
| complete: "em_complete cfg e e' \<Longrightarrow> em_step cfg e e'"
| close: "em_step cfg e (snd (em_close cfg e))"
| ad_call: "em_step cfg e (e\<lparr>em_stats := snd (ad_decision_request reply ms (em_stats e))\<rparr>)"
| report: "em_step cfg e (e\<lparr>em_stats := snd (stats_line (em_stats e))\<rparr>)"

inductive em_reachable :: "config \<Rightarrow> rat stream \<Rightarrow> emitter \<Rightarrow> bool" for cfg rng where
  start: "em_reachable cfg rng (em_init rng)"
| step: "em_reachable cfg rng e \<Longrightarrow> em_step cfg e e' \<Longrightarrow> em_reachable cfg rng e'"

section \<open>Every routed event is somewhere\<close>

fun task_weight :: "task \<Rightarrow> int" where
  "task_weight (PostTask b) = int (length b)"
| "task_weight (PixelTask ev forge) = 1"
| "task_weight (DelayedTask ev ap) = 0"

definition em_outstanding :: "emitter \<Rightarrow> int" where
  \<comment> \<open>events buffered, plus events of the calls in flight\<close>
  "em_outstanding e = int (em_pending e) + (\<Sum>t\<leftarrow>em_inflight e. task_weight t)"

definition em_total :: "emitter \<Rightarrow> string \<Rightarrow> int" where
  "em_total e k = st_total (em_stats e) k"

definition em_gap :: "emitter \<Rightarrow> int" where
  "em_gap e = em_total e ''sent'' - em_total e ''http.2xx'' - em_total e ''http.err'' - em_outstanding e"

lemmas em_gap_simps = em_gap_def em_total_def em_outstanding_def em_pending_def em_bump_def em_latency_def
  total_simps

lemma em_total_bump [counter_simps, simp]:
  "em_total (em_bump k n e) k' = em_total e k' + (if k' = k then n else 0)"
  by (simp add: em_total_def em_bump_def total_simps)

lemma em_total_latency [counter_simps, simp]: "em_total (em_latency x e) k = em_total e k"
  by (simp add: em_total_def em_latency_def total_simps)

lemma bucket_of_range:
  "bucket_of ev \<in> {''t.impression'', ''t.quartile'', ''t.click'', ''t.request'', ''t.behavior''}"
  by (auto simp: bucket_of_def TYPE_BUCKET_def split: pyval.splits option.splits if_splits)

lemma bucket_of_neq [simp]:
  "bucket_of ev \<noteq> ''sent''" "bucket_of ev \<noteq> ''http.2xx''" "bucket_of ev \<noteq> ''http.err''"
  "''sent'' \<noteq> bucket_of ev" "''http.2xx'' \<noteq> bucket_of ev" "''http.err'' \<noteq> bucket_of ev"
  using bucket_of_range [of ev] by auto

lemma em_gap_bump_other:
  "k \<notin> {''sent'', ''http.2xx'', ''http.err''} \<Longrightarrow> em_gap (em_bump k n e) = em_gap e"
  by (auto simp: em_gap_simps)

lemma em_gap_rng [simp]: "em_gap (e\<lparr>em_rng := r\<rparr>) = em_gap e" "em_gap (e\<lparr>em_uuid := n\<rparr>) = em_gap e"
  "em_gap (e\<lparr>em_paused := b\<rparr>) = em_gap e" "em_gap (e\<lparr>em_closing := b\<rparr>) = em_gap e"
  by (simp_all add: em_gap_simps)

lemma em_gap_route: "em_gap (route cfg ev ap forge e) = em_gap e"
  by (simp add: route_def Let_def rand_def em_gap_simps)

lemma em_gap_emit_ssai: "em_gap (snd (emit_ssai cfg ev e)) = em_gap e"
  by (auto simp: emit_ssai_def Let_def rand_def hex16_def em_gap_route em_gap_bump_other split: sum.splits)

lemma em_gap_emit_late: "em_gap (snd (emit_late cfg ev e)) = em_gap e"
  by (auto simp: emit_late_def Let_def rand_def uniform_def em_gap_bump_other split: sum.splits)

lemma em_gap_emit_bad: "em_gap (snd (emit_bad cfg ev e)) = em_gap e"
  by (auto simp: emit_bad_def Let_def rand_def choice_def em_gap_bump_other)

lemma em_gap_emit_dup: "em_gap (emit_dup cfg ev ap e) = em_gap e"
  by (simp add: emit_dup_def Let_def rand_def uniform_def em_gap_simps)

lemma em_gap_emit: "em_gap (snd (emit cfg ev ap e)) = em_gap e"
  using em_gap_emit_ssai [of cfg ev e]
  by (auto simp: emit_def Let_def rand_def em_gap_route em_gap_emit_dup
      split: prod.splits option.splits sum.splits)
    (metis em_gap_emit_late em_gap_emit_bad em_gap_rng(1) snd_conv)+

lemma concat_chunks: "0 < n \<Longrightarrow> concat (chunks n xs) = xs"
proof (induction n xs rule: chunks.induct)
  case (1 n xs)
  then show ?case by (cases "xs = []") (simp_all add: chunks.simps [of n xs] chunks.simps [of n "[]"])
qed

lemma chunks_bounds: "c \<in> set (chunks n xs) \<Longrightarrow> c \<noteq> [] \<and> length c \<le> n"
proof (induction n xs rule: chunks.induct)
  case (1 n xs)
  then show ?case by (cases "xs = [] \<or> n = 0") (auto simp: chunks.simps [of n xs])
qed

lemma sum_post_weights: "sum_list (map (task_weight \<circ> PostTask) bs) = int (length (concat bs))"
  by (induction bs) auto

lemma sum_pixel_weights: "sum_list (map (task_weight \<circ> (\<lambda>(ev, forge). PixelTask ev forge)) ps) = int (length ps)"
  by (induction ps) auto

lemma em_gap_flush:
  assumes "0 < cf_batch_size cfg"
  shows "em_gap (snd (em_flush cfg force e)) = em_gap e"
proof -
  have "length (concat (chunks (nat (cf_batch_size cfg)) (em_buf e))) = length (em_buf e)"
    using assms by (simp only: concat_chunks zero_less_nat_eq)
  then show ?thesis
    using assms
    by (simp add: em_flush_def Let_def batches_def em_gap_simps sum_post_weights sum_pixel_weights
        del: length_concat)
qed

lemma em_gap_task_done:
  "t \<in> set (em_inflight e) \<Longrightarrow> em_gap (task_done t e) = em_gap e + task_weight t"
  by (simp add: task_done_def em_gap_simps sum_list_remove1_int)

lemma em_gap_post_done: "em_gap (post_done batch reply e) = em_gap e - int (length batch)"
  by (simp add: post_done_def em_gap_simps split: send_reply.splits)

lemma em_gap_pixel_done: "em_gap (pixel_done reply e) = em_gap e - 1"
  by (simp add: pixel_done_def em_gap_simps split: send_reply.splits)

lemma em_gap_complete: "em_complete cfg e e' \<Longrightarrow> em_gap e' = em_gap e"
  by (induction rule: em_complete.induct)
    (simp_all add: em_gap_task_done em_gap_post_done em_gap_pixel_done delayed_def em_gap_route)

lemma em_gap_stats:
  "(\<And>k. k \<in> {''sent'', ''http.2xx'', ''http.err''} \<Longrightarrow> st_total st k = em_total e k) \<Longrightarrow>
    em_gap (e\<lparr>em_stats := st\<rparr>) = em_gap e"
  by (simp add: em_gap_simps)

lemma em_gap_step:
  assumes "em_step cfg e e'" "0 < cf_batch_size cfg"
  shows "em_gap e' = em_gap e"
  using assms
proof (induction rule: em_step.induct)
  case (ad_call e reply ms)
  show ?case
    by (rule em_gap_stats)
      (use ad_decision_request_frame(1) [OF surjective_pairing] in \<open>auto simp: em_total_def\<close>)
next
  case (report e)
  show ?case
    by (rule em_gap_stats) (simp add: stats_line_def snapshot_def em_total_def)
qed (simp_all add: em_gap_emit em_pause_def em_resume_def em_gap_flush em_gap_complete em_close_def)

lemma em_gap_init: "em_gap (em_init rng) = 0"
  by (simp add: em_gap_simps em_init_def stats_init_def)

lemma em_reachable_gap: "em_reachable cfg rng e \<Longrightarrow> 0 < cf_batch_size cfg \<Longrightarrow> em_gap e = 0"
  by (induction rule: em_reachable.induct) (simp_all add: em_gap_init em_gap_step)

section \<open>Closing\<close>

definition em_closed :: "emitter \<Rightarrow> bool" where
  "em_closed e \<longleftrightarrow> em_closing e \<and> em_buf e = [] \<and> em_pixel_buf e = []"

lemma em_close_closed: "em_close cfg e = (None, e') \<Longrightarrow> em_closed e'"
  by (auto simp: em_close_def em_closed_def em_resume_def em_flush_def Let_def split: sum.splits if_splits)

lemma em_close_returns: "cf_batch_size cfg \<noteq> 0 \<Longrightarrow> fst (em_close cfg e) = None"
  by (simp add: em_close_def em_flush_def em_resume_def batches_def Let_def split: sum.splits)

lemma em_bump_frame [simp]:
  "em_buf (em_bump k n e) = em_buf e" "em_pixel_buf (em_bump k n e) = em_pixel_buf e"
  "em_closing (em_bump k n e) = em_closing e" "em_inflight (em_bump k n e) = em_inflight e"
  "em_rng (em_bump k n e) = em_rng e" "em_uuid (em_bump k n e) = em_uuid e"
  by (simp_all add: em_bump_def)

lemma em_latency_frame [simp]:
  "em_buf (em_latency x e) = em_buf e" "em_pixel_buf (em_latency x e) = em_pixel_buf e"
  "em_closing (em_latency x e) = em_closing e" "em_inflight (em_latency x e) = em_inflight e"
  by (simp_all add: em_latency_def)

lemma em_complete_closed:
  "em_complete cfg e e' \<Longrightarrow> em_closed e \<Longrightarrow>
     em_closed e' \<and> Suc (length (em_inflight e')) = length (em_inflight e)"
  by (induction rule: em_complete.induct)
    (auto simp: em_closed_def delayed_def task_done_def post_done_def pixel_done_def Suc_length_remove1
      split: send_reply.splits)

lemma em_complete_progress: "em_inflight e \<noteq> [] \<Longrightarrow> \<exists>e'. em_complete cfg e e'"
  by (metis em_complete.intros list.set_intros(1) neq_Nil_conv task.exhaust)

lemma em_completes:
  "(em_complete cfg ^^ n) e e' \<Longrightarrow> em_closed e \<Longrightarrow>
     em_closed e' \<and> length (em_inflight e') + n = length (em_inflight e) \<and> em_gap e' = em_gap e"
proof (induction n arbitrary: e')
  case (Suc n)
  then obtain e1 where e1: "(em_complete cfg ^^ n) e e1" "em_complete cfg e1 e'" by auto
  from Suc.IH [OF e1(1) Suc.prems(2)] em_complete_closed [OF e1(2)] em_gap_complete [OF e1(2)]
  show ?case by auto
qed simp

section \<open>Pixels and their signature\<close>

definition canonical :: "(string \<times> string) list \<Rightarrow> string" where
  "canonical params =
     join ''&'' (map (\<lambda>k. k @ ''='' @ the (map_of params k))
       (filter (\<lambda>k. k \<noteq> ''sig'') (sort (map fst params))))"

definition em_sign :: "(string \<Rightarrow> string \<Rightarrow> string) \<Rightarrow> string \<Rightarrow> (string \<times> string) list \<Rightarrow> string" where
  "em_sign hmac secret params = hmac secret (canonical params)"

definition pixel_fields :: "(pyval \<Rightarrow> string) \<Rightarrow> event \<Rightarrow> (string \<times> string) list" where
  "pixel_fields repr ev =
     concat (map (\<lambda>(pk, ek). let v = dget ev ek in if v \<noteq> PNone then [(pk, py_str repr v)] else []) PIXEL_MAP)"

definition pixel_params ::
    "(pyval \<Rightarrow> string) \<Rightarrow> (string \<Rightarrow> string \<Rightarrow> string) \<Rightarrow> string \<Rightarrow> int \<Rightarrow> string \<Rightarrow> event \<Rightarrow> bool \<Rightarrow> (string \<times> string) list" where
  \<comment> \<open>the query of \<open>_pixel\<close> at epoch second \<open>now\<close>; \<open>fresh\<close> is the uuid a forged signature takes\<close>
  "pixel_params repr hmac secret now fresh ev forge =
     (let params = pixel_fields repr ev @ [(''exp'', dec_int (now + 300))]
      in params @ [(''sig'', if forge then take 32 fresh else em_sign hmac secret params)])"

text \<open>A signer that sorts its keys computes the collector's canonical string.\<close>

lemma canonical_eq_collector:
  assumes "distinct (map fst ps)"
  shows "canonical ps = collector_canonical (as_query ps)"
proof -
  let ?r = "sort_key fst (filter (\<lambda>(k, v). k \<noteq> ''sig'') (as_query ps))"
  have "filter (\<lambda>k. k \<noteq> ''sig'') (sort (map fst ps)) = sort (filter (\<lambda>k. k \<noteq> ''sig'') (map fst ps))"
    by (simp add: filter_sort)
  also have "\<dots> = map fst ?r"
  proof (rule properties_for_sort)
    have "filter (\<lambda>k. k \<noteq> ''sig'') (map fst ps) = map fst (filter (\<lambda>(k, v). k \<noteq> ''sig'') (as_query ps))"
      by (induction ps) (auto simp: as_query_def)
    then show "mset (map fst ?r) = mset (filter (\<lambda>k. k \<noteq> ''sig'') (map fst ps))" by simp
    show "sorted (map fst ?r)" by simp
  qed
  finally have keys: "filter (\<lambda>k. k \<noteq> ''sig'') (sort (map fst ps)) = map fst ?r" .
  have "(case v of [] \<Rightarrow> [] | x # _ \<Rightarrow> x) = the (map_of ps k)" if "(k, v) \<in> set ?r" for k v
    using that assms by (auto simp: as_query_def)
  then show ?thesis
    by (simp only: canonical_def collector_canonical_def keys map_map)
      (auto intro!: arg_cong [where f = "join ''&''"])
qed

interpretation gen: pixel_signer em_sign
  by unfold_locales (simp add: em_sign_def canonical_eq_collector)

lemma pixel_fields_keys:
  "map fst (concat (map (\<lambda>(pk, ek). let v = dget ev ek in if v \<noteq> PNone then [(pk, py_str repr v)] else []) m))
     = map fst (filter (\<lambda>(pk, ek). dget ev ek \<noteq> PNone) m)"
  by (induction m) (auto simp: Let_def)

lemma pixel_keys:
  "distinct (map fst (pixel_fields repr ev @ [(''exp'', x)]))"
  "''sig'' \<notin> fst ` set (pixel_fields repr ev @ [(''exp'', x)])"
  "map_of (pixel_fields repr ev @ [(''exp'', x)]) ''exp'' = Some x"
proof -
  let ?f = "filter (\<lambda>(pk, ek). dget ev ek \<noteq> PNone) PIXEL_MAP"
  have keys: "map fst (pixel_fields repr ev) = map fst ?f"
    unfolding pixel_fields_def by (rule pixel_fields_keys)
  have "distinct (map fst PIXEL_MAP)" by (simp add: PIXEL_MAP_def)
  then have "distinct (map fst ?f)" by (rule distinct_map_filter)
  then have d: "distinct (map fst (pixel_fields repr ev))" by (simp only: keys)
  have "fst ` set (pixel_fields repr ev) \<subseteq> fst ` set PIXEL_MAP"
    using arg_cong [OF keys, of set] by auto
  moreover have "''exp'' \<notin> fst ` set PIXEL_MAP" "''sig'' \<notin> fst ` set PIXEL_MAP"
    by (simp_all add: PIXEL_MAP_def)
  ultimately have e: "''exp'' \<notin> fst ` set (pixel_fields repr ev)" and g: "''sig'' \<notin> fst ` set (pixel_fields repr ev)"
    by auto
  show "distinct (map fst (pixel_fields repr ev @ [(''exp'', x)]))"
    using d e by simp
  show "''sig'' \<notin> fst ` set (pixel_fields repr ev @ [(''exp'', x)])"
    using g by simp
  have "map_of (pixel_fields repr ev) ''exp'' = None" using e by (simp add: map_of_eq_None_iff)
  then show "map_of (pixel_fields repr ev @ [(''exp'', x)]) ''exp'' = Some x"
    by (simp add: map_add_def)
qed

section \<open>What one emission does\<close>

lemma rand_frame [simp]:
  "em_buf (snd (rand e)) = em_buf e" "em_inflight (snd (rand e)) = em_inflight e"
  "em_stats (snd (rand e)) = em_stats e"
  by (simp_all add: rand_def)

lemma route_buf: "\<exists>rest. em_buf (route cfg ev ap forge e) = em_buf e @ rest"
  by (auto simp: route_def Let_def rand_def)

lemma route_server: "em_buf (route cfg ev False False e) = em_buf e @ [ev]"
  by (simp add: route_def Let_def em_strip_def)

lemma route_inflight [simp]: "em_inflight (route cfg ev ap forge e) = em_inflight e"
  by (simp add: route_def Let_def rand_def)

lemma route_total:
  "em_total (route cfg ev ap forge e) ''sent'' = em_total e ''sent'' + 1"
  "em_total (route cfg ev ap forge e) ''a.dup'' = em_total e ''a.dup''"
  "em_total (route cfg ev ap forge e) ''a.ssai'' = em_total e ''a.ssai''"
  using bucket_of_range [of ev]
  by (auto simp: route_def Let_def rand_def em_total_def em_bump_def total_simps)

lemma emit_late_frame:
  "em_buf (snd (emit_late cfg ev e)) = em_buf e"
  "em_inflight (snd (emit_late cfg ev e)) = em_inflight e"
  "k \<noteq> ''a.late'' \<Longrightarrow> em_total (snd (emit_late cfg ev e)) k = em_total e k"
  by (auto simp: emit_late_def Let_def rand_def uniform_def em_total_def em_bump_def total_simps split: sum.splits)

lemma emit_bad_frame:
  "em_buf (snd (emit_bad cfg ev e)) = em_buf e"
  "em_inflight (snd (emit_bad cfg ev e)) = em_inflight e"
  "k \<noteq> ''a.bad'' \<Longrightarrow> em_total (snd (emit_bad cfg ev e)) k = em_total e k"
  by (auto simp: emit_bad_def Let_def rand_def choice_def em_total_def em_bump_def total_simps)

lemma emit_dup_buf: "em_buf (emit_dup cfg ev ap e) = em_buf e"
  by (simp add: emit_dup_def Let_def rand_def uniform_def)

lemma emit_tail_buf:
  "\<exists>rest. em_buf (snd (case emit_late cfg ev e of
        (Inl x, e) \<Rightarrow> (Some x, e)
      | (Inr ev, e) \<Rightarrow>
          (let (u, e) = rand e; forge = (u < an_forge (cf_anom cfg)); (ev, e) = emit_bad cfg ev e;
               e = route cfg ev ap forge e
           in (None, emit_dup cfg ev ap e)))) = em_buf e @ rest"
proof -
  obtain r e1 where 1: "emit_late cfg ev e = (r, e1)" by force
  have b1: "em_buf e1 = em_buf e" using emit_late_frame(1) [of cfg ev e] 1 by simp
  show ?thesis
  proof (cases r)
    case (Inl x)
    then show ?thesis using b1 by (simp add: 1)
  next
    case (Inr ev1)
    obtain u e2 where 2: "rand e1 = (u, e2)" by force
    obtain ev2 e3 where 3: "emit_bad cfg ev1 e2 = (ev2, e3)" by force
    have "em_buf e3 = em_buf e"
      using b1 2 3 rand_frame(1) [of e1] emit_bad_frame(1) [of cfg ev1 e2] by simp
    then show ?thesis
      using route_buf [of cfg ev2 ap "u < an_forge (cf_anom cfg)" e3]
      by (simp add: 1 2 3 Inr Let_def emit_dup_buf)
  qed
qed

definition well_formed :: "event \<Rightarrow> bool" where
  \<comment> \<open>what \<open>VirtualUser._base\<close> always provides\<close>
  "well_formed ev \<longleftrightarrow> map_of ev ''event_id'' \<noteq> None \<and> (\<exists>t. map_of ev ''event_time'' = Some (PInt t))"

lemma emit_late_well_formed: "well_formed ev \<Longrightarrow> \<exists>ev'. fst (emit_late cfg ev e) = Inr ev'"
  by (auto simp: emit_late_def well_formed_def dsub_def Let_def rand_def uniform_def split: option.splits)

lemma em_total_frame [simp]:
  "em_total (e\<lparr>em_rng := r\<rparr>) k = em_total e k" "em_total (e\<lparr>em_uuid := n\<rparr>) k = em_total e k"
  "em_total (e\<lparr>em_inflight := ts\<rparr>) k = em_total e k"
  by (simp_all add: em_total_def)

lemma emit_ssai_well_formed:
  assumes "well_formed ev" "emit_ssai cfg ev e = (x, e')"
  shows "x = None" "em_inflight e' = em_inflight e"
    "em_total e' ''sent'' = em_total e ''sent'' + (em_total e' ''a.ssai'' - em_total e ''a.ssai'')"
    "em_total e' ''a.dup'' = em_total e ''a.dup''"
  using assms
  by (auto simp: emit_ssai_def well_formed_def dsub_def Let_def rand_def hex16_def route_total
      split: option.splits if_splits)

lemma emit_dup_total:
  "em_total (emit_dup cfg ev ap e) ''sent'' = em_total e ''sent''"
  "em_total (emit_dup cfg ev ap e) ''a.ssai'' = em_total e ''a.ssai''"
  "int (length (em_inflight (emit_dup cfg ev ap e))) - em_total (emit_dup cfg ev ap e) ''a.dup''
     = int (length (em_inflight e)) - em_total e ''a.dup''"
  by (simp_all add: emit_dup_def Let_def rand_def uniform_def)

lemma em_total_rand [simp]: "em_total (snd (rand e)) k = em_total e k"
  by (simp add: rand_def)

lemma emit_cases:
  assumes wf: "well_formed ev" and run: "emit cfg ev ap e = (x, e')"
  obtains e1 ev1 e2 u e3 ev2 e4 where
    "emit_ssai cfg ev e = (None, e1)" "emit_late cfg ev e1 = (Inr ev1, e2)" "rand e2 = (u, e3)"
    "emit_bad cfg ev1 e3 = (ev2, e4)" "x = None"
    "e' = emit_dup cfg ev2 ap (route cfg ev2 ap (u < an_forge (cf_anom cfg)) e4)"
proof -
  obtain y e1 where 1: "emit_ssai cfg ev e = (y, e1)" by force
  with emit_ssai_well_formed(1) [OF wf this] have 1: "emit_ssai cfg ev e = (None, e1)" by simp
  obtain ev1 e2 where 2: "emit_late cfg ev e1 = (Inr ev1, e2)"
    using emit_late_well_formed [OF wf, of cfg e1] by (metis prod.collapse)
  obtain u e3 where 3: "rand e2 = (u, e3)" by force
  obtain ev2 e4 where 4: "emit_bad cfg ev1 e3 = (ev2, e4)" by force
  show thesis
    by (rule that [OF 1 2 3 4]) (use run in \<open>simp_all add: emit_def 1 2 3 4 Let_def\<close>)
qed

lemma em_complete_sent: "em_complete cfg e e' \<Longrightarrow> em_closing e \<Longrightarrow>
    em_total e' ''sent'' = em_total e ''sent''"
  by (induction rule: em_complete.induct)
    (simp_all add: delayed_def task_done_def post_done_def pixel_done_def split: send_reply.splits)

lemma em_completes_sent:
  "(em_complete cfg ^^ n) e e' \<Longrightarrow> em_closed e \<Longrightarrow> em_total e' ''sent'' = em_total e ''sent''"
proof (induction n arbitrary: e')
  case (Suc n)
  then obtain e1 where e1: "(em_complete cfg ^^ n) e e1" "em_complete cfg e1 e'" by auto
  from em_completes [OF e1(1) Suc.prems(2)] have "em_closing e1" by (simp add: em_closed_def)
  with em_complete_sent [OF e1(2)] Suc.IH [OF e1(1) Suc.prems(2)] show ?case by simp
qed simp

lemma em_close_sent: "em_total (snd (em_close cfg e)) ''sent'' = em_total e ''sent''"
  by (auto simp: em_close_def em_flush_def em_resume_def em_total_def Let_def split: sum.splits)

definition demo_cfg :: config where
  \<comment> \<open>a configuration with the emitter's default ratios, batches of two\<close>
  "demo_cfg = \<lparr>cf_anom = \<lparr>an_late = 1 / 10, an_dup = 1 / 20, an_bad = 1 / 100, an_forge = 1 / 100, an_ssai = 3 / 100\<rparr>,
     cf_pixel_ratio = 15 / 100, cf_batch_size = 2,
     cf_hex = (\<lambda>n. replicate 28 CHR ''a'' @ pad4 n)\<rparr>"

definition demo_impression :: event where
  "demo_impression = [(''event_id'', PStr ''evt-1''), (''event_type'', PStr ''impression''),
     (''campaign_id'', PStr ''c1''), (''event_time'', PInt 1000000)]"

definition quiet_rng :: "rat stream" where
  \<comment> \<open>draws that trigger no anomaly\<close>
  "quiet_rng = sconst (1 / 2)"

lemma quiet_rng_simps [simp]: "shd quiet_rng = 1 / 2" "stl quiet_rng = quiet_rng"
  by (simp_all add: quiet_rng_def)

section \<open>Properties\<close>

text \<open>C1: nothing is lost on the way out. In every state the emitter can reach, whatever was
  emitted, paused, flushed, delayed or answered, each routed event (\<open>sent\<close>) is in exactly one
  place: accepted (\<open>http.2xx\<close>), failed (\<open>http.err\<close>), buffered, or in a call in flight.\<close>

theorem emitter_conserves_events:
  assumes "em_reachable cfg rng e" "0 < cf_batch_size cfg"
  shows "em_total e ''sent'' = em_total e ''http.2xx'' + em_total e ''http.err'' + em_outstanding e"
  using em_reachable_gap [OF assms] by (simp add: em_gap_def)

theorem emitter_conserves_events_witness:
  "\<exists>e. em_reachable demo_cfg quiet_rng e \<and> em_buf e = [demo_impression] \<and>
     em_total e ''sent'' = em_total e ''http.2xx'' + em_total e ''http.err'' + em_outstanding e"
proof -
  let ?e = "snd (emit demo_cfg demo_impression True (em_init quiet_rng))"
  have r: "em_reachable demo_cfg quiet_rng ?e"
    by (intro em_reachable.step [OF em_reachable.start] em_step.emit)
  moreover have "em_buf ?e = [demo_impression]"
    by (simp add: emit_def emit_ssai_def emit_late_def emit_bad_def emit_dup_def route_def rand_def Let_def
        demo_cfg_def em_init_def em_strip_def)
  ultimately show ?thesis
    using emitter_conserves_events [OF r] by (auto simp: demo_cfg_def)
qed

text \<open>Closing settles everything. From a reachable state with a positive batch size, \<open>close\<close>
  does not raise and leaves both buffers empty; the completions of the tasks in flight, in any
  order and with any outcome, start nothing new: each removes one task, another can happen while
  a task is left, and when none is left every event ever routed was accepted or failed.\<close>

theorem close_settles_everything:
  assumes "em_reachable cfg rng e" "0 < cf_batch_size cfg"
    and "em_close cfg e = (x, e1)" "(em_complete cfg ^^ n) e1 e2"
  shows "x = None \<and> em_pending e2 = 0 \<and> length (em_inflight e2) + n = length (em_inflight e1) \<and>
    (n < length (em_inflight e1) \<longrightarrow> (\<exists>e3. em_complete cfg e2 e3)) \<and>
    (n = length (em_inflight e1) \<longrightarrow>
       em_total e ''sent'' = em_total e2 ''http.2xx'' + em_total e2 ''http.err'')"
proof -
  have x: "x = None" using em_close_returns [of cfg e] assms by simp
  have cl: "em_closed e1" using assms(3) by (simp add: x em_close_closed)
  note n = em_completes [OF assms(4) cl]
  have "em_reachable cfg rng e1"
    using em_reachable.step [OF assms(1) em_step.close] assms(3) by simp
  then have "em_gap e2 = 0" using em_reachable_gap assms(2) n by simp
  then have "em_inflight e2 = [] \<Longrightarrow> em_total e2 ''sent'' = em_total e2 ''http.2xx'' + em_total e2 ''http.err''"
    using n by (simp add: em_gap_def em_outstanding_def em_pending_def em_closed_def)
  moreover have "em_total e2 ''sent'' = em_total e ''sent''"
    using em_completes_sent [OF assms(4) cl] em_close_sent [of cfg e] assms(3) by simp
  moreover have "em_inflight e2 \<noteq> [] \<Longrightarrow> \<exists>e3. em_complete cfg e2 e3" by (rule em_complete_progress)
  moreover have "n < length (em_inflight e1) \<longleftrightarrow> em_inflight e2 \<noteq> []" "n = length (em_inflight e1) \<longleftrightarrow> em_inflight e2 = []"
    using n by (cases "em_inflight e2", auto)+
  ultimately show ?thesis using n x by (simp add: em_pending_def em_closed_def)
qed

theorem close_settles_everything_witness:
  "\<exists>e1 e2. em_close demo_cfg (snd (emit demo_cfg demo_impression True (em_init quiet_rng))) = (None, e1) \<and>
     (em_complete demo_cfg ^^ 1) e1 e2 \<and> em_inflight e2 = [] \<and>
     em_total e2 ''http.2xx'' + em_total e2 ''http.err'' = 1"
proof -
  let ?e = "snd (emit demo_cfg demo_impression True (em_init quiet_rng))"
  have r: "em_reachable demo_cfg quiet_rng ?e"
    by (intro em_reachable.step [OF em_reachable.start] em_step.emit)
  have e: "em_buf ?e = [demo_impression]" "em_pixel_buf ?e = []" "em_inflight ?e = []" "em_total ?e ''sent'' = 1"
    by (simp_all add: emit_def emit_ssai_def emit_late_def emit_bad_def emit_dup_def route_def rand_def Let_def
        demo_cfg_def em_init_def em_strip_def em_total_def em_bump_def bump_def stats_init_def bucket_of_neq [symmetric])
  obtain e1 where c: "em_close demo_cfg ?e = (None, e1)"
    using em_close_returns [of demo_cfg ?e] by (cases "em_close demo_cfg ?e") (simp add: demo_cfg_def)
  then have i: "em_inflight e1 = [PostTask [demo_impression]]"
    using e by (auto simp: em_close_def em_flush_def em_resume_def Let_def batches_def demo_cfg_def
        chunks.simps [of _ "[demo_impression]"] chunks.simps [of _ "[]"])
  define e2 where "e2 = post_done [demo_impression] SendRaised (task_done (PostTask [demo_impression]) e1)"
  have n: "(em_complete demo_cfg ^^ 1) e1 e2"
    using em_complete.post [of "[demo_impression]" e1 demo_cfg SendRaised] i by (simp add: e2_def eq_OO)
  have "0 < cf_batch_size demo_cfg" by (simp add: demo_cfg_def)
  from close_settles_everything [OF r this c n] i e c n show ?thesis by auto
qed


text \<open>A flush that is not held back sends the whole buffer, in order. With a positive batch
  size it does not raise, empties both buffers, and starts one POST per batch and one call per
  buffered pixel, in that order; the batches concatenate to the buffer, none is empty and none is
  longer than the batch size.\<close>

theorem flush_sends_in_batches:
  assumes "0 < cf_batch_size cfg" "force \<or> \<not> em_paused e" "em_flush cfg force e = (x, e')"
  shows "x = None \<and> em_buf e' = [] \<and> em_pixel_buf e' = [] \<and>
    (\<exists>bs. em_inflight e' = em_inflight e @ map PostTask bs @ map (\<lambda>(ev, forge). PixelTask ev forge) (em_pixel_buf e) \<and>
      concat bs = em_buf e \<and> (\<forall>b \<in> set bs. b \<noteq> [] \<and> int (length b) \<le> cf_batch_size cfg))"
proof -
  let ?bs = "chunks (nat (cf_batch_size cfg)) (em_buf e)"
  have b: "(if em_buf e = [] then Inr [] else batches (cf_batch_size cfg) (em_buf e)) = Inr ?bs"
    using assms(1) by (simp add: batches_def chunks.simps)
  have "\<forall>b \<in> set ?bs. b \<noteq> [] \<and> int (length b) \<le> cf_batch_size cfg"
    using chunks_bounds [of _ "nat (cf_batch_size cfg)" "em_buf e"] assms(1) by (simp add: nat_le_eq_zle le_nat_iff)
  moreover have "concat ?bs = em_buf e" using assms(1) by (simp add: concat_chunks)
  moreover have "x = None \<and> em_buf e' = [] \<and> em_pixel_buf e' = [] \<and>
    em_inflight e' = em_inflight e @ map PostTask ?bs @ map (\<lambda>(ev, forge). PixelTask ev forge) (em_pixel_buf e)"
    using assms(2, 3) b by (auto simp: em_flush_def Let_def split: if_splits)
  ultimately show ?thesis by blast
qed

theorem flush_sends_in_batches_witness:
  "em_inflight (snd (em_flush demo_cfg False
     (em_init quiet_rng\<lparr>em_buf := [[(''k'', PInt 1)], [(''k'', PInt 2)], [(''k'', PInt 3)]]\<rparr>)))
   \<noteq> []"
proof -
  let ?e = "em_init quiet_rng\<lparr>em_buf := [[(''k'', PInt 1)], [(''k'', PInt 2)], [(''k'', PInt 3)]]\<rparr>"
  obtain x e' where r: "em_flush demo_cfg False ?e = (x, e')" by force
  have "0 < cf_batch_size demo_cfg" "False \<or> \<not> em_paused ?e" by (simp_all add: demo_cfg_def em_init_def)
  from flush_sends_in_batches [OF this r] r show ?thesis by auto
qed

text \<open>What one emission does to the counters. For an event with an id and an integer time,
  \<open>emit\<close> does not raise; it routes the event once, and once more for each SSAI twin it counts, and
  it starts one delayed retransmission exactly when it counts a duplicate.\<close>

theorem emit_counts_what_it_routes:
  assumes "well_formed ev" "emit cfg ev ap e = (x, e')"
  shows "x = None \<and>
    em_total e' ''sent'' = em_total e ''sent'' + 1 + (em_total e' ''a.ssai'' - em_total e ''a.ssai'') \<and>
    int (length (em_inflight e')) = int (length (em_inflight e)) + (em_total e' ''a.dup'' - em_total e ''a.dup'')"
proof (rule emit_cases [OF assms])
  fix e1 ev1 e2 u e3 ev2 e4
  assume s: "emit_ssai cfg ev e = (None, e1)" "emit_late cfg ev e1 = (Inr ev1, e2)" "rand e2 = (u, e3)"
    "emit_bad cfg ev1 e3 = (ev2, e4)" and x: "x = None"
    and e': "e' = emit_dup cfg ev2 ap (route cfg ev2 ap (u < an_forge (cf_anom cfg)) e4)"
  have same: "em_total e4 k = em_total e1 k" if "k \<noteq> ''a.late''" "k \<noteq> ''a.bad''" for k
    using emit_late_frame(3) [OF that(1), of cfg ev e1] emit_bad_frame(3) [OF that(2), of cfg ev1 e3]
      em_total_rand [of e2 k] s by simp
  have "em_inflight e4 = em_inflight e1"
    using emit_late_frame(2) [of cfg ev e1] emit_bad_frame(2) [of cfg ev1 e3] rand_frame(2) [of e2] s by simp
  with x same emit_ssai_well_formed [OF assms(1) s(1)]
    emit_dup_total [of cfg ev2 ap "route cfg ev2 ap (u < an_forge (cf_anom cfg)) e4"]
  show ?thesis by (simp add: e' route_total)
qed

theorem emit_counts_what_it_routes_witness:
  "\<exists>e'. emit demo_cfg demo_impression True (em_init (sconst 0)) = (None, e') \<and>
     em_total e' ''sent'' = 1 + (em_total e' ''a.ssai'')"
proof -
  obtain x e' where r: "emit demo_cfg demo_impression True (em_init (sconst 0)) = (x, e')" by force
  have "well_formed demo_impression" by (simp add: well_formed_def demo_impression_def)
  from emit_counts_what_it_routes [OF this r] r show ?thesis
    by (auto simp: em_init_def em_total_def stats_init_def)
qed

text \<open>The SSAI twin. When an impression draws the SSAI anomaly, the first thing \<open>emit\<close> adds to
  the batch buffer is a copy that differs from the event only in a fresh event id, the source
  \<open>server\<close>, and the original's id in \<open>ssai_twin_of\<close>.\<close>

theorem ssai_twin_goes_first:
  assumes "well_formed ev" "dget ev ''event_type'' = PStr ''impression''"
    and "shd (em_rng e) < an_ssai (cf_anom cfg)"
  shows "\<exists>twin rest. em_buf (snd (emit cfg ev ap e)) = em_buf e @ twin # rest \<and>
    dget twin ''event_id'' = PStr (''evt-'' @ take 16 (cf_hex cfg (em_uuid e))) \<and>
    dget twin ''source'' = PStr ''server'' \<and> dget twin ''ssai_twin_of'' = dget ev ''event_id'' \<and>
    (\<forall>k. k \<notin> {''event_id'', ''source'', ''ssai_twin_of''} \<longrightarrow> dget twin k = dget ev k)"
proof -
  obtain orig where orig: "map_of ev ''event_id'' = Some orig" using assms(1) by (auto simp: well_formed_def)
  let ?twin = "ssai_twin ev (take 16 (cf_hex cfg (em_uuid e))) orig"
  obtain e1 where e1: "emit_ssai cfg ev e = (None, e1)" "em_buf e1 = em_buf e @ [?twin]"
    using assms(2, 3) orig
    by (simp add: emit_ssai_def dsub_def Let_def rand_def hex16_def route_server)
  obtain rest where "em_buf (snd (emit cfg ev ap e)) = em_buf e1 @ rest"
    using emit_tail_buf [where cfg = cfg and ev = ev and e = e1 and ap = ap] by (auto simp: emit_def e1)
  with e1 show ?thesis
    by (intro exI [of _ ?twin] exI [of _ rest]) (simp add: ssai_twin_def dget_def [of ev "''event_id''"] orig)
qed

theorem ssai_twin_goes_first_witness:
  "\<exists>twin rest. em_buf (snd (emit demo_cfg demo_impression True (em_init (sconst 0)))) = twin # rest \<and>
     dget twin ''ssai_twin_of'' = PStr ''evt-1''"
  using ssai_twin_goes_first [of demo_impression "em_init (sconst 0)" demo_cfg True]
  by (auto simp: well_formed_def demo_impression_def demo_cfg_def em_init_def dget_def)

text \<open>A schema violation is marked. With draws in [0, 1), an event that has all four required
  fields either stays as it is or loses exactly one of them and carries the name of that field
  in \<open>_bad\<close>; other fields keep their values.\<close>

theorem bad_event_names_its_victim:
  assumes "0 \<le> shd (stl (em_rng e))" "shd (stl (em_rng e)) < 1" "emit_bad cfg ev e = (ev', e')"
    and "\<forall>f \<in> set REQUIRED_FIELDS. map_of ev f \<noteq> None"
  shows "(ev' = ev \<and> em_total e' ''a.bad'' = em_total e ''a.bad'') \<or>
    (\<exists>victim \<in> set REQUIRED_FIELDS. em_total e' ''a.bad'' = em_total e ''a.bad'' + 1 \<and>
       dget ev' ''_bad'' = PStr victim \<and> {f \<in> set REQUIRED_FIELDS. map_of ev' f = None} = {victim} \<and>
       (\<forall>k. k \<noteq> ''_bad'' \<and> k \<noteq> victim \<longrightarrow> map_of ev' k = map_of ev k))"
proof (cases "shd (em_rng e) < an_bad (cf_anom cfg)")
  case False
  with assms(3) show ?thesis by (auto simp: emit_bad_def rand_def Let_def)
next
  case True
  let ?u = "shd (stl (em_rng e))"
  let ?v = "REQUIRED_FIELDS ! nat \<lfloor>?u * of_nat (length REQUIRED_FIELDS)\<rfloor>"
  have "nat \<lfloor>?u * of_nat (length REQUIRED_FIELDS)\<rfloor> < length REQUIRED_FIELDS"
    using assms(1, 2) by (simp add: REQUIRED_FIELDS_def nat_less_iff floor_less_iff)
  then have v: "?v \<in> set REQUIRED_FIELDS" by (rule nth_mem)
  have "''_bad'' \<notin> set REQUIRED_FIELDS" by (simp add: REQUIRED_FIELDS_def)
  with v assms(4) have "{f \<in> set REQUIRED_FIELDS. map_of (dset (dpop ev ?v) ''_bad'' (PStr ?v)) f = None} = {?v}"
    by auto
  moreover have "ev' = dset (dpop ev ?v) ''_bad'' (PStr ?v)" "em_total e' ''a.bad'' = em_total e ''a.bad'' + 1"
    using assms(3) True by (auto simp: emit_bad_def rand_def choice_def Let_def)
  ultimately show ?thesis using v by auto
qed

theorem bad_event_names_its_victim_witness:
  "\<exists>v \<in> set REQUIRED_FIELDS. dget (fst (emit_bad demo_cfg demo_impression (em_init (sconst 0)))) ''_bad'' = PStr v"
proof -
  obtain ev' e' where r: "emit_bad demo_cfg demo_impression (em_init (sconst 0)) = (ev', e')" by force
  have d: "ev' = dset (dpop demo_impression ''event_id'') ''_bad'' (PStr ''event_id'')"
    using r by (auto simp: emit_bad_def rand_def choice_def Let_def em_init_def demo_cfg_def REQUIRED_FIELDS_def)
  then have n: "ev' \<noteq> demo_impression" by (simp add: demo_impression_def)
  have "0 \<le> shd (stl (em_rng (em_init (sconst 0))))" "shd (stl (em_rng (em_init (sconst 0)))) < 1"
    "\<forall>f \<in> set REQUIRED_FIELDS. map_of demo_impression f \<noteq> None"
    by (simp_all add: em_init_def REQUIRED_FIELDS_def demo_impression_def)
  from bad_event_names_its_victim [OF this(1, 2) r this(3)] n show ?thesis
    by (auto simp only: r fst_conv)
qed

text \<open>C19: the collector accepts the generator's pixels. A pixel built at second \<open>now\<close> and not
  forged is valid for the collector that holds the same secret at any second up to \<open>now + 300\<close> and
  expired after it, in whatever order the parameters arrive; with a forged signature it is valid
  only if that happens to be the HMAC. Assumed: the hex digest is lower case, the clock fits a
  64-bit integer.\<close>

theorem pixel_accepted_until_expiry:
  assumes "\<And>k m. lowercase (hmac k m) = hmac k m" "0 \<le> now" "now + 300 < 2 ^ 63"
    and "mset q = mset (as_query (pixel_params repr hmac secret now fresh ev forge))"
  shows "sig_verify hmac secret t q =
    (if now + 300 < t then SigInvalid ''expired''
     else if \<not> forge \<or> em_sign hmac secret (pixel_fields repr ev @ [(''exp'', dec_int (now + 300))]) = lowercase (take 32 fresh)
       then SigValid
     else SigInvalid ''bad_signature'')"
proof -
  let ?ps = "pixel_fields repr ev @ [(''exp'', dec_int (now + 300))]"
  let ?sg = "if forge then take 32 fresh else em_sign hmac secret ?ps"
  have q: "mset q = mset (as_query (?ps @ [(''sig'', ?sg)]))"
    using assms(4) by (simp add: pixel_params_def Let_def)
  have low: "lowercase (em_sign hmac secret ?ps) = em_sign hmac secret ?ps"
    using assms(1) by (simp add: em_sign_def)
  have "0 \<le> now + 300" using assms(2) by simp
  from gen.verify_signed [OF pixel_keys this assms(3) q, of hmac secret t] low
  show ?thesis by auto
qed

theorem pixel_accepted_until_expiry_witness:
  "sig_verify (\<lambda>k m. lowercase (k @ m)) ''key'' 1100
     (as_query (pixel_params (\<lambda>_. []) (\<lambda>k m. lowercase (k @ m)) ''key'' 1000 [] demo_impression False)) = SigValid"
proof -
  have "lower_char (lower_char c) = lower_char c" for c
    by (simp add: lower_char_def of_char_of)
  then have "lowercase (lowercase s) = lowercase s" for s
    by (simp add: lowercase_def)
  then show ?thesis
    using pixel_accepted_until_expiry [of "\<lambda>k m. lowercase (k @ m)" 1000 _ "\<lambda>_. []" "''key''" "[]" demo_impression False 1100]
    by simp
qed

end
