(* ===== verification/Py_Time.thy ===== *)
theory Py_Time
  imports Prelude
begin

text \<open>
  The part of Python's \<open>datetime\<close> the pipeline keys its data with: UTC calendar fields of an
  epoch time, \<open>strftime\<close> of minute, date and hour, \<open>datetime.fromisoformat\<close> on the extended
  ISO format, and the three functions of the repository that turn an event or window time into a
  key: \<open>minute_key\<close> of redis-writer (from the ISO string of the window start), and \<open>minute_key\<close>
  of the player and the tracer (from epoch milliseconds).
\<close>

section \<open>Proleptic Gregorian calendar\<close>

definition is_leap :: "int \<Rightarrow> bool" where
  "is_leap y \<longleftrightarrow> y mod 4 = 0 \<and> (y mod 100 \<noteq> 0 \<or> y mod 400 = 0)"

definition days_before_year :: "int \<Rightarrow> int" where
  "days_before_year y = (let z = y - 1 in z * 365 + z div 4 - z div 100 + z div 400)"

text \<open>Days before a month, in a common year and in a leap year.\<close>

fun month_start :: "bool \<Rightarrow> nat \<Rightarrow> nat" where
  "month_start l m =
     (if m \<le> 1 then 0
      else if m = 2 then 31
      else [59, 90, 120, 151, 181, 212, 243, 273, 304, 334] ! (m - 3) + (if l then 1 else 0))"

definition month_len :: "bool \<Rightarrow> nat \<Rightarrow> nat" where
  "month_len l m =
     (if m = 2 then (if l then 29 else 28)
      else if m = 4 \<or> m = 6 \<or> m = 9 \<or> m = 11 then 30 else 31)"

definition ymd2ord :: "int \<Rightarrow> nat \<Rightarrow> nat \<Rightarrow> int" where
  "ymd2ord y m d = days_before_year y + int (month_start (is_leap y) m) + int d"

text \<open>The month and day of the 0-based day \<open>u\<close> of a year: the last month that starts by then.\<close>

definition month_of :: "bool \<Rightarrow> nat \<Rightarrow> nat" where
  "month_of l u =
     (if u < month_start l 2 then 1 else if u < month_start l 3 then 2
      else if u < month_start l 4 then 3 else if u < month_start l 5 then 4
      else if u < month_start l 6 then 5 else if u < month_start l 7 then 6
      else if u < month_start l 8 then 7 else if u < month_start l 9 then 8
      else if u < month_start l 10 then 9 else if u < month_start l 11 then 10
      else if u < month_start l 12 then 11 else 12)"

definition year_parts :: "int \<Rightarrow> int \<times> int" where
  \<comment> \<open>year and 0-based day of the year of the ordinal \<open>n + 1\<close>\<close>
  "year_parts n =
     (let a = n div 146097; r = n mod 146097;
          b = r div 36524; s = r mod 36524;
          c = s div 1461; t = s mod 1461;
          e = t div 365; u = t mod 365;
          y = a * 400 + b * 100 + c * 4 + e + 1
      in if e = 4 \<or> b = 4 then (y - 1, 365) else (y, u))"

definition ord2ymd :: "int \<Rightarrow> int \<times> nat \<times> nat" where
  "ord2ymd n =
     (let (y, u) = year_parts (n - 1);
          m = month_of (is_leap y) (nat u)
      in (y, m, nat u - month_start (is_leap y) m + 1))"

subsection \<open>The calendar is a bijection\<close>

lemma year_parts_split:
  assumes "year_parts n = (y, u)"
  shows "n = days_before_year y + u \<and> 0 \<le> u \<and> u < (if is_leap y then 366 else 365)"
proof -
  define a r where "a = n div 146097" and "r = n mod 146097"
  define b s where "b = r div 36524" and "s = r mod 36524"
  define c t where "c = s div 1461" and "t = s mod 1461"
  define e v where "e = t div 365" and "v = t mod 365"
  have n: "n = 146097 * a + r" and r: "0 \<le> r" "r < 146097"
    by (simp_all add: a_def r_def)
  have rb: "r = 36524 * b + s" and s: "0 \<le> s" "s < 36524"
    by (simp_all add: b_def s_def)
  have sc: "s = 1461 * c + t" and t: "0 \<le> t" "t < 1461"
    by (simp_all add: c_def t_def)
  have te: "t = 365 * e + v" and v: "0 \<le> v" "v < 365"
    by (simp_all add: e_def v_def)
  have b: "0 \<le> b" "b \<le> 4" using r rb s by linarith+
  have c: "0 \<le> c" "c \<le> 24" using s sc t by linarith+
  have e: "0 \<le> e" "e \<le> 4" using t te v by linarith+
  have yu: "(y, u) = (if e = 4 \<or> b = 4 then (400 * a + 100 * b + 4 * c + e, 365)
      else (400 * a + 100 * b + 4 * c + e + 1, v))"
    using assms
    by (simp add: year_parts_def Let_def a_def r_def b_def s_def c_def t_def e_def v_def split: if_splits)
  show ?thesis
  proof (cases "e = 4 \<or> b = 4")
    case False
    then have y: "y = 400 * a + 100 * b + 4 * c + e + 1" and u: "u = v" and "e \<le> 3" and "b \<le> 3"
      using yu b e by auto
    define k where "k = 4 * c + e"
    have k: "0 \<le> k" "k < 100" using c e \<open>e \<le> 3\<close> by (auto simp: k_def)
    have z: "y - 1 = 4 * (100 * a + 25 * b + c) + e" "y - 1 = 100 * (4 * a + b) + k"
      "y - 1 = 400 * a + (100 * b + k)"
      using y by (simp_all add: k_def)
    have d4: "(y - 1) div 4 = 100 * a + 25 * b + c"
      unfolding z(1) using e \<open>e \<le> 3\<close> by simp
    have d100: "(y - 1) div 100 = 4 * a + b"
      unfolding z(2) using k by simp
    have d400: "(y - 1) div 400 = a"
      unfolding z(3) using k b \<open>b \<le> 3\<close> by simp
    have "days_before_year y = 365 * (y - 1) + (100 * a + 25 * b + c) - (4 * a + b) + a"
      by (simp add: days_before_year_def Let_def d4 d100 d400)
    also have "\<dots> = 146097 * a + 36524 * b + 1461 * c + 365 * e"
      by (simp add: y)
    finally have "n = days_before_year y + u"
      by (simp add: n rb sc te u)
    with v u show ?thesis by auto
  next
    case True
    then have y: "y = 400 * a + 100 * b + 4 * c + e" and u: "u = 365" using yu by auto
    consider (q) "b = 4" | (p) "b \<le> 3" "e = 4" using True b by linarith
    then show ?thesis
    proof cases
      case q
      have s0: "s = 0" using rb r s q by linarith
      have c0: "c = 0" using s0 sc t c by linarith
      have t0: "t = 0" using s0 c0 sc by linarith
      have e0: "e = 0" using t0 te v e by linarith
      have y': "y = 400 * (a + 1)" using y q c0 e0 by simp
      have z: "y - 1 = 4 * (100 * a + 99) + 3" "y - 1 = 100 * (4 * a + 3) + 99" "y - 1 = 400 * a + 399"
        using y' by simp_all
      have d: "(y - 1) div 4 = 100 * a + 99" "(y - 1) div 100 = 4 * a + 3" "(y - 1) div 400 = a"
        subgoal unfolding z(1) by simp
        subgoal unfolding z(2) by simp
        subgoal unfolding z(3) by simp
        done
      have "4 dvd y" "400 dvd y" using y' by (simp_all add: dvd_mult2)
      then have "is_leap y" by (simp add: is_leap_def dvd_eq_mod_eq_0)
      moreover have "days_before_year y + 365 = 146097 * a + 36524 * 4"
        by (simp add: days_before_year_def Let_def d) (simp add: y')
      ultimately show ?thesis using n rb q s0 u by simp
    next
      case p
      have v0: "v = 0" using te t v p by linarith
      have c23: "c \<le> 23" using sc s te v0 p by linarith
      define k where "k = 4 * c + 3"
      have k: "0 \<le> k" "k < 99" using c c23 by (auto simp: k_def)
      have z: "y - 1 = 4 * (100 * a + 25 * b + c) + 3" "y - 1 = 100 * (4 * a + b) + k"
        "y - 1 = 400 * a + (100 * b + k)"
        using y p by (simp_all add: k_def)
      have d: "(y - 1) div 4 = 100 * a + 25 * b + c" "(y - 1) div 100 = 4 * a + b" "(y - 1) div 400 = a"
        subgoal unfolding z(1) by simp
        subgoal unfolding z(2) using k by simp
        subgoal unfolding z(3) using k b p by simp
        done
      have "y mod 4 = 0" unfolding y using p by presburger
      moreover have "y mod 100 \<noteq> 0"
      proof -
        have "y = 100 * (4 * a + b) + (k + 1)" using z(2) by simp
        then have "y mod 100 = (k + 1) mod 100" by (simp only: mod_mult_self4)
        then have "y mod 100 = k + 1" using k by simp
        then show ?thesis using k by simp
      qed
      ultimately have "is_leap y" by (simp add: is_leap_def)
      moreover have "days_before_year y + 365 = 146097 * a + 36524 * b + 1461 * c + 1460"
        by (simp add: days_before_year_def Let_def d) (simp add: y p)
      ultimately show ?thesis using n rb sc te p v0 u by simp
    qed
  qed
qed

lemma month_starts:
  "month_start l 1 = 0" "month_start l (Suc 0) = 0" "month_start l 2 = 31"
  "month_start False 3 = 59" "month_start False 4 = 90" "month_start False 5 = 120"
  "month_start False 6 = 151" "month_start False 7 = 181" "month_start False 8 = 212"
  "month_start False 9 = 243" "month_start False 10 = 273" "month_start False 11 = 304"
  "month_start False 12 = 334"
  "month_start True 3 = 60" "month_start True 4 = 91" "month_start True 5 = 121"
  "month_start True 6 = 152" "month_start True 7 = 182" "month_start True 8 = 213"
  "month_start True 9 = 244" "month_start True 10 = 274" "month_start True 11 = 305"
  "month_start True 12 = 335"
  by simp_all

declare month_start.simps [simp del]

lemma month_of_ok:
  assumes "u < (if l then 366 else 365)"
  shows "month_start l (month_of l u) \<le> u" "1 \<le> month_of l u" "month_of l u \<le> 12"
    "u < month_start l (month_of l u) + month_len l (month_of l u)"
  subgoal by (cases l) (simp_all add: month_of_def month_starts)
  subgoal by (simp add: month_of_def)
  subgoal by (simp add: month_of_def)
  subgoal using assms by (cases l) (simp_all add: month_of_def month_starts month_len_def)
  done

lemma ord2ymd_inverse:
  assumes "ord2ymd n = (y, m, d)"
  shows "ymd2ord y m d = n" and "1 \<le> m" "m \<le> 12" "1 \<le> d" "d \<le> month_len (is_leap y) m"
proof -
  obtain u where yu: "year_parts (n - 1) = (y, u)"
    using assms by (cases "year_parts (n - 1)") (auto simp: ord2ymd_def Let_def)
  have u: "n - 1 = days_before_year y + u" "0 \<le> u" "u < (if is_leap y then 366 else 365)"
    using year_parts_split [OF yu] by auto
  have md: "m = month_of (is_leap y) (nat u)" "d = nat u - month_start (is_leap y) m + 1"
    using assms by (auto simp: ord2ymd_def yu Let_def)
  have "nat u < (if is_leap y then 366 else 365)" using u by auto
  note ok = month_of_ok [OF this]
  show "1 \<le> m" "m \<le> 12" "1 \<le> d" using ok by (auto simp: md)
  show "d \<le> month_len (is_leap y) m" unfolding md using ok(1,4) by arith
  have "int d = u - int (month_start (is_leap y) m) + 1"
    using ok(1) u(2) by (simp add: md of_nat_diff)
  then show "ymd2ord y m d = n" using u(1) by (simp add: ymd2ord_def)
qed

lemma month_len_le [simp]: "month_len l m \<le> 31"
  by (simp add: month_len_def)

section \<open>Epoch seconds and their printed fields\<close>

definition utc_date :: "int \<Rightarrow> int \<times> nat \<times> nat" where
  \<comment> \<open>719163 is the ordinal of 1970-01-01\<close>
  "utc_date secs = ord2ymd (secs div 86400 + 719163)"

definition utc_year :: "int \<Rightarrow> int" where
  "utc_year secs = fst (utc_date secs)"

definition datetime_ok :: "int \<Rightarrow> bool" where
  \<comment> \<open>the years a Python \<open>datetime\<close> can hold\<close>
  "datetime_ok secs \<longleftrightarrow> 1 \<le> utc_year secs \<and> utc_year secs \<le> 9999"

definition hh :: "int \<Rightarrow> nat" where "hh secs = nat (secs mod 86400 div 3600)"
definition mm :: "int \<Rightarrow> nat" where "mm secs = nat (secs mod 3600 div 60)"
definition ss :: "int \<Rightarrow> nat" where "ss secs = nat (secs mod 60)"

definition strftime_date :: "int \<Rightarrow> string" where
  \<comment> \<open>\<open>%Y-%m-%d\<close>; \<open>%Y\<close> is not padded below the year 1000\<close>
  "strftime_date secs =
     (let (y, m, d) = utc_date secs in dec_nat (nat y) @ ''-'' @ pad2 m @ ''-'' @ pad2 d)"

definition strftime_hour :: "int \<Rightarrow> string" where
  \<comment> \<open>\<open>%H\<close>\<close>
  "strftime_hour secs = pad2 (hh secs)"

definition strftime_minute :: "int \<Rightarrow> string" where
  \<comment> \<open>\<open>%Y%m%d%H%M\<close>\<close>
  "strftime_minute secs =
     (let (y, m, d) = utc_date secs in dec_nat (nat y) @ pad2 m @ pad2 d @ pad2 (hh secs) @ pad2 (mm secs))"

lemma time_fields_less: "hh s < 24" "mm s < 60" "ss s < 60"
  by (auto simp: hh_def mm_def ss_def nat_less_iff)

lemma time_fields_sum:
  "s mod 86400 = 3600 * int (hh s) + 60 * int (mm s) + int (ss s)"
proof -
  have "s mod 86400 = 3600 * (s mod 86400 div 3600) + s mod 86400 mod 3600"
    and "s mod 3600 = 60 * (s mod 3600 div 60) + s mod 3600 mod 60"
    by (simp_all only: mult_div_mod_eq)
  moreover have "s mod 86400 mod 3600 = s mod 3600" and "s mod 3600 mod 60 = s mod 60"
    by (simp_all add: mod_mod_cancel)
  moreover have "0 \<le> s mod 86400 div 3600" and "0 \<le> s mod 3600 div 60"
    by (simp_all add: pos_imp_zdiv_nonneg_iff)
  ultimately show ?thesis by (simp add: hh_def mm_def ss_def)
qed

lemma utc_date_ord:
  assumes "utc_date s = (y, m, d)"
  shows "ymd2ord y m d = s div 86400 + 719163"
    and "1 \<le> m" "m \<le> 12" "1 \<le> d" "d \<le> month_len (is_leap y) m" "d \<le> 31"
  using ord2ymd_inverse [of "s div 86400 + 719163" y m d] assms month_len_le [of "is_leap y" m]
  unfolding utc_date_def by linarith+

lemma dec_nat_pad4:
  assumes "1000 \<le> n" "n < 10000"
  shows "dec_nat n = pad4 n"
proof -
  have "n mod 100 = 10 * (n div 10 mod 10) + n mod 10"
    using mod_mult2_eq [of n 10 10] by simp
  then have q: "n div 10 mod 10 = n mod 100 div 10" and r: "n mod 100 mod 10 = n mod 10"
    by simp_all
  have lt: "\<not> n < 10" "\<not> n div 10 < 10" "\<not> n div 100 < 10" "n div 1000 < 10"
    using assms by (simp_all add: div_less_iff_less_mult)
  have "dec_nat n = dec_nat (n div 1000) @ [digit (n div 100 mod 10), digit (n div 10 mod 10), digit (n mod 10)]"
    using lt by (simp add: dec_nat.simps [of n] dec_nat.simps [of "n div 10"] dec_nat.simps [of "n div 100"]
        div_mult2_eq [symmetric])
  moreover have "dec_nat (n div 1000) = [digit (n div 1000)]"
    using lt by (simp add: dec_nat.simps [of "n div 1000"])
  ultimately show ?thesis
    using lt r by (simp add: q [symmetric] pad4_def pad2_def div_mult2_eq [symmetric])
qed

lemma strftime_minute_inj:
  assumes "1000 \<le> utc_year s" "utc_year s \<le> 9999" "1000 \<le> utc_year t" "utc_year t \<le> 9999"
    and eq: "strftime_minute s = strftime_minute t"
  shows "s div 60 = t div 60"
proof -
  obtain y m d where s: "utc_date s = (y, m, d)" by (metis prod_cases3)
  obtain y' m' d' where t: "utc_date t = (y', m', d')" by (metis prod_cases3)
  have y: "1000 \<le> y" "y \<le> 9999" "1000 \<le> y'" "y' \<le> 9999"
    using assms(1-4) by (simp_all add: utc_year_def s t)
  note ds = utc_date_ord [OF s] and dt = utc_date_ord [OF t]
  have "pad4 (nat y) @ pad2 m @ pad2 d @ pad2 (hh s) @ pad2 (mm s)
      = pad4 (nat y') @ pad2 m' @ pad2 d' @ pad2 (hh t) @ pad2 (mm t)"
    using eq y by (simp add: strftime_minute_def s t dec_nat_pad4)
  then have "pad4 (nat y) = pad4 (nat y')" "pad2 m = pad2 m'" "pad2 d = pad2 d'"
    "pad2 (hh s) = pad2 (hh t)" "pad2 (mm s) = pad2 (mm t)"
    by (simp_all add: append_eq_append_conv)
  then have same: "y = y'" "m = m'" "d = d'" "hh s = hh t" "mm s = mm t"
    using y ds dt time_fields_less [of s] time_fields_less [of t]
    by (simp_all add: pad4_inj pad2_inj)
  then have "s div 86400 = t div 86400" using ds(1) dt(1) by simp
  then have "s - int (ss s) = t - int (ss t)"
    using time_fields_sum [of s] time_fields_sum [of t] same
      mult_div_mod_eq [of 86400 s] mult_div_mod_eq [of 86400 t] by linarith
  moreover have "int (ss s) = s mod 60" "int (ss t) = t mod 60" by (simp_all add: ss_def)
  ultimately show ?thesis
    by (metis add_diff_cancel_right' mult_div_mod_eq mult_cancel_left zero_neq_numeral)
qed

section \<open>\<open>datetime.fromisoformat\<close>\<close>

text \<open>
  The extended format: date, one separator character, \<open>HH:MM\<close> with optional seconds and
  fraction, and an optional offset \<open>+HH:MM\<close> or \<open>-HH:MM\<close>; a string with no offset is local
  time, which is UTC in the containers.  This covers what Flink's JSON format with
  \<open>ISO-8601\<close> timestamps writes; the compact and week formats Python also takes are rejected
  here.  The result is the instant's epoch seconds (rounded down) and whether a fraction of a
  second was dropped.
\<close>

definition take_digits :: "nat \<Rightarrow> string \<Rightarrow> (nat \<times> string) option" where
  "take_digits n s =
     (if n \<le> length s \<and> list_all is_digit (take n s) then Some (undec (take n s), drop n s) else None)"

definition take_char :: "char \<Rightarrow> string \<Rightarrow> string option" where
  "take_char c s = (case s of [] \<Rightarrow> None | x # r \<Rightarrow> if x = c then Some r else None)"

definition iso_date :: "string \<Rightarrow> (int \<times> string) option" where
  \<comment> \<open>the day's ordinal\<close>
  "iso_date s = do {
     (y, s) \<leftarrow> take_digits 4 s;
     s \<leftarrow> take_char (CHR ''-'') s;
     (m, s) \<leftarrow> take_digits 2 s;
     s \<leftarrow> take_char (CHR ''-'') s;
     (d, s) \<leftarrow> take_digits 2 s;
     if 1 \<le> y \<and> 1 \<le> m \<and> m \<le> 12 \<and> 1 \<le> d \<and> d \<le> month_len (is_leap (int y)) m
     then Some (ymd2ord (int y) m d, s) else None }"

definition iso_seconds :: "string \<Rightarrow> (nat \<times> bool \<times> string) option" where
  \<comment> \<open>the optional \<open>:SS[.ffffff]\<close>\<close>
  "iso_seconds s = (case take_char (CHR '':'') s of
     None \<Rightarrow> Some (0, False, s)
   | Some s \<Rightarrow> do {
       (x, s) \<leftarrow> take_digits 2 s;
       if x \<le> 59 then
         (case take_char (CHR ''.'') s of
            None \<Rightarrow> Some (x, False, s)
          | Some s \<Rightarrow>
              (let f = takeWhile is_digit s in
               if f = [] then None else Some (x, undec (take 6 f) \<noteq> 0, drop (length f) s)))
       else None })"

definition iso_time :: "string \<Rightarrow> (nat \<times> bool \<times> string) option" where
  \<comment> \<open>seconds of the day, a dropped fraction, and the rest\<close>
  "iso_time s = do {
     (h, s) \<leftarrow> take_digits 2 s;
     s \<leftarrow> take_char (CHR '':'') s;
     (m, s) \<leftarrow> take_digits 2 s;
     (x, f, s) \<leftarrow> iso_seconds s;
     if h \<le> 23 \<and> m \<le> 59 then Some (3600 * h + 60 * m + x, f, s) else None }"

definition iso_offset :: "string \<Rightarrow> int option" where
  "iso_offset s = (case s of
     [] \<Rightarrow> Some 0
   | c # s \<Rightarrow> do {
       (h, s) \<leftarrow> take_digits 2 s;
       s \<leftarrow> take_char (CHR '':'') s;
       (m, s) \<leftarrow> take_digits 2 s;
       if s = [] \<and> h \<le> 23 \<and> m \<le> 59 \<and> (c = CHR ''+'' \<or> c = CHR ''-'')
       then Some ((if c = CHR ''-'' then -1 else 1) * int (3600 * h + 60 * m)) else None })"

definition fromisoformat :: "string \<Rightarrow> (int \<times> bool) option" where
  "fromisoformat s = do {
     (n, s) \<leftarrow> iso_date s;
     (t, f, s) \<leftarrow> (case s of [] \<Rightarrow> Some (0, False, []) | _ # s \<Rightarrow> iso_time s);
     off \<leftarrow> iso_offset s;
     Some ((n - 719163) * 86400 + int t - off, f) }"

section \<open>The repository's time keys\<close>

definition replace_Z :: "string \<Rightarrow> string" where
  \<comment> \<open>\<open>iso_ts.replace("Z", "+00:00")\<close>\<close>
  "replace_Z s = concat (map (\<lambda>c. if c = CHR ''Z'' then ''+00:00'' else [c]) s)"

definition writer_minute_key :: "string \<Rightarrow> (string \<times> int) result" where
  "writer_minute_key iso_ts =
     (case fromisoformat (replace_Z iso_ts) of
        None \<Rightarrow> Inl ValueError
      | Some (secs, fr) \<Rightarrow>
          if datetime_ok secs
          then Inr (strftime_minute secs, if secs < 0 \<and> fr then secs + 1 else secs)
          else Inl OtherError)"

definition fromtimestamp_ms :: "int \<Rightarrow> int result" where
  \<comment> \<open>\<open>datetime.fromtimestamp(ts_ms / 1000, timezone.utc)\<close>\<close>
  "fromtimestamp_ms ts_ms =
     (let secs = ts_ms div 1000 in if datetime_ok secs then Inr secs else Inl ValueError)"

definition player_minute_key :: "int \<Rightarrow> string result" where
  "player_minute_key ts_ms = rbind (fromtimestamp_ms ts_ms) (\<lambda>secs. Inr (strftime_minute secs))"

definition tracer_minute_key :: "int \<Rightarrow> string result" where
  "tracer_minute_key ts_ms = rbind (fromtimestamp_ms ts_ms) (\<lambda>secs. Inr (strftime_minute secs))"

text \<open>
  The window start as Flink's JSON format prints it (\<open>TIMESTAMP_LTZ(3)\<close>, ISO-8601, a whole
  minute): the input the keys are compared on.
\<close>

definition iso_render :: "int \<Rightarrow> string" where
  "iso_render secs =
     (let (y, m, d) = utc_date secs in
        pad4 (nat y) @ ''-'' @ pad2 m @ ''-'' @ pad2 d @ ''T'' @
        pad2 (hh secs) @ '':'' @ pad2 (mm secs) @ '':'' @ pad2 (ss secs) @ ''Z'')"

lemma take_digits_pad [simp]:
  "n < 100 \<Longrightarrow> take_digits 2 (pad2 n @ s) = Some (n, s)"
  "n < 10000 \<Longrightarrow> take_digits 4 (pad4 n @ s) = Some (n, s)"
  by (simp_all add: take_digits_def)

lemma take_char_Cons [simp]: "take_char c (x # s) = (if x = c then Some s else None)"
  by (simp add: take_char_def)

lemma is_digit_not_Z: "is_digit c \<Longrightarrow> c \<noteq> CHR ''Z''"
  by (auto simp: is_digit_def)

lemma replace_Z_append: "replace_Z (s @ t) = replace_Z s @ replace_Z t"
  by (simp add: replace_Z_def)

lemma replace_Z_digits: "list_all is_digit s \<Longrightarrow> replace_Z s = s"
  by (induction s) (auto simp: replace_Z_def is_digit_not_Z)

lemma replace_Z_Cons: "replace_Z (c # s) = (if c = CHR ''Z'' then ''+00:00'' else [c]) @ replace_Z s"
  by (simp add: replace_Z_def)

lemma replace_Z_Nil [simp]: "replace_Z [] = []"
  by (simp add: replace_Z_def)

lemmas replace_Z_simps = replace_Z_append replace_Z_Cons replace_Z_digits

lemma iso_offset_utc: "iso_offset ''+00:00'' = Some 0"
  by code_simp

lemma fromisoformat_render:
  assumes "1000 \<le> utc_year s" "utc_year s \<le> 9999"
  shows "fromisoformat (replace_Z (iso_render s)) = Some (s, False)"
proof -
  obtain y m d where s: "utc_date s = (y, m, d)" by (metis prod_cases3)
  note u = utc_date_ord [OF s] and f = time_fields_less [of s]
  have y: "1000 \<le> y" "y \<le> 9999" using assms by (simp_all add: utc_year_def s)
  have r: "replace_Z (iso_render s) =
      pad4 (nat y) @ CHR ''-'' # pad2 m @ CHR ''-'' # pad2 d @ CHR ''T'' #
      pad2 (hh s) @ CHR '':'' # pad2 (mm s) @ CHR '':'' # pad2 (ss s) @ ''+00:00''"
    by (simp add: iso_render_def s replace_Z_simps)
  have date: "iso_date (pad4 (nat y) @ CHR ''-'' # pad2 m @ CHR ''-'' # pad2 d @ z)
      = Some (s div 86400 + 719163, z)" for z
    using y u by (simp add: iso_date_def)
  have time: "iso_time (pad2 (hh s) @ CHR '':'' # pad2 (mm s) @ CHR '':'' # pad2 (ss s) @ ''+00:00'')
      = Some (3600 * hh s + 60 * mm s + ss s, False, ''+00:00'')"
    using f by (simp add: iso_time_def iso_seconds_def)
  have "int (3600 * hh s + 60 * mm s + ss s) = s mod 86400"
    by (simp add: time_fields_sum)
  then show ?thesis
    unfolding fromisoformat_def r by (simp add: date time iso_offset_utc)
qed

lemma writer_minute_key_render:
  assumes "1000 \<le> utc_year s" "utc_year s \<le> 9999"
  shows "writer_minute_key (iso_render s) = Inr (strftime_minute s, s)"
  using assms by (simp add: writer_minute_key_def fromisoformat_render datetime_ok_def)

text \<open>Two instants of one UTC minute have the same key.\<close>

lemma strftime_minute_cong:
  assumes "s div 60 = t div 60"
  shows "strftime_minute s = strftime_minute t"
proof -
  have "s div 86400 = s div 60 div 1440" "t div 86400 = t div 60 div 1440"
    "s div 3600 = s div 60 div 60" "t div 3600 = t div 60 div 60"
    by (simp_all add: zdiv_zmult2_eq [symmetric])
  then have days: "s div 86400 = t div 86400" "s div 3600 = t div 3600" using assms by simp_all
  have dm: "x mod (a * b) div a = x div a mod b" if "0 < a" "0 < b" for x a b :: int
    using that by (simp add: zmod_zmult2_eq)
  have c: "(86400 :: int) = 3600 * 24" "(3600 :: int) = 60 * 60" by simp_all
  have h: "x mod 86400 div 3600 = x div 3600 mod 24" for x :: int
    unfolding c(1) by (rule dm) simp_all
  have m: "x mod 3600 div 60 = x div 60 mod 60" for x :: int
    unfolding c(2) by (rule dm) simp_all
  show ?thesis
    unfolding strftime_minute_def utc_date_def hh_def mm_def h m days assms by (rule refl)
qed

end
