(* ===== verification/Redis_Writer.thy ===== *)
theory Redis_Writer
  imports Py_Time "HOL-Library.Product_Lexorder"
begin

text \<open>
  The serving store's writer (\<open>redis-writer/writer.py\<close>): the three message handlers, the main
  loop's dispatch and counters, and the HTTP queries that read the store back.

  Redis itself is a parameter: \<open>rd_exec\<close> runs a pipeline (the handlers use the default,
  transactional pipeline) and \<open>rd_view\<close> is what a client can read.  \<open>redis_ok\<close> states the documented
  effect of a transaction of correctly typed commands; a transaction that raises may or may not
  have been applied (a timeout after EXEC).  \<open>EXPIRE\<close> with a positive time changes nothing a client can
  read at that moment.
\<close>

section \<open>What the source uses of Redis\<close>

record rview =
  rv_hash :: "string \<Rightarrow> (string \<times> string) list"
  rv_zset :: "string \<Rightarrow> (string \<times> int) list"
  rv_set :: "string \<Rightarrow> string list"
  rv_num :: "string \<Rightarrow> int option"
  rv_list :: "string \<Rightarrow> string list"

definition rview_empty :: rview where
  "rview_empty = \<lparr>rv_hash = (\<lambda>_. []), rv_zset = (\<lambda>_. []), rv_set = (\<lambda>_. []), rv_num = (\<lambda>_. None),
     rv_list = (\<lambda>_. [])\<rparr>"

datatype redis_cmd =
    HSet string "(string \<times> string) list"
  | Expire string int
  | SAdd string string
  | ZAdd string string int
  | ZRemRangeByScore string int int
  | Incr string
  | LPush string string
  | LTrim string int int

definition list_range :: "int \<Rightarrow> int \<Rightarrow> 'a list \<Rightarrow> 'a list" where
  \<comment> \<open>the elements from index \<open>a\<close> to index \<open>b\<close>, both included, negative ones from the end\<close>
  "list_range a b xs =
     (let n = int (length xs); a = max 0 (if a < 0 then n + a else a); b = (if b < 0 then n + b else b)
      in take (nat (b + 1 - a)) (drop (nat a) xs))"

fun redis_apply :: "redis_cmd \<Rightarrow> rview \<Rightarrow> rview" where
  "redis_apply (HSet k m) v = v\<lparr>rv_hash := (rv_hash v)(k := fold (\<lambda>(f, x) h. AList.update f x h) m (rv_hash v k))\<rparr>"
| "redis_apply (Expire k secs) v =
     (if 0 < secs then v
      else v\<lparr>rv_hash := (rv_hash v)(k := []), rv_zset := (rv_zset v)(k := []), rv_set := (rv_set v)(k := []),
             rv_num := (rv_num v)(k := None), rv_list := (rv_list v)(k := [])\<rparr>)"
| "redis_apply (SAdd k m) v = v\<lparr>rv_set := (rv_set v)(k := List.insert m (rv_set v k))\<rparr>"
| "redis_apply (ZAdd k m score) v = v\<lparr>rv_zset := (rv_zset v)(k := AList.update m score (rv_zset v k))\<rparr>"
| "redis_apply (ZRemRangeByScore k lo hi) v =
     v\<lparr>rv_zset := (rv_zset v)(k := filter (\<lambda>(m, s). \<not> (lo \<le> s \<and> s \<le> hi)) (rv_zset v k))\<rparr>"
| "redis_apply (Incr k) v =
     v\<lparr>rv_num := (rv_num v)(k := Some ((case rv_num v k of None \<Rightarrow> 0 | Some n \<Rightarrow> n) + 1))\<rparr>"
| "redis_apply (LPush k x) v = v\<lparr>rv_list := (rv_list v)(k := x # rv_list v k)\<rparr>"
| "redis_apply (LTrim k a b) v = v\<lparr>rv_list := (rv_list v)(k := list_range a b (rv_list v k))\<rparr>"

datatype kind = KHash | KZset | KSet | KNum | KList

fun cmd_key :: "redis_cmd \<Rightarrow> string" where
  "cmd_key (HSet k m) = k"
| "cmd_key (Expire k t) = k"
| "cmd_key (SAdd k m) = k"
| "cmd_key (ZAdd k m s) = k"
| "cmd_key (ZRemRangeByScore k a b) = k"
| "cmd_key (Incr k) = k"
| "cmd_key (LPush k x) = k"
| "cmd_key (LTrim k a b) = k"

fun cmd_kind :: "redis_cmd \<Rightarrow> kind option" where
  "cmd_kind (HSet k m) = Some KHash"
| "cmd_kind (Expire k t) = None"
| "cmd_kind (SAdd k m) = Some KSet"
| "cmd_kind (ZAdd k m s) = Some KZset"
| "cmd_kind (ZRemRangeByScore k a b) = Some KZset"
| "cmd_kind (Incr k) = Some KNum"
| "cmd_kind (LPush k x) = Some KList"
| "cmd_kind (LTrim k a b) = Some KList"

fun holds_kind :: "rview \<Rightarrow> string \<Rightarrow> kind \<Rightarrow> bool" where
  "holds_kind v k KHash = (rv_hash v k \<noteq> [])"
| "holds_kind v k KZset = (rv_zset v k \<noteq> [])"
| "holds_kind v k KSet = (rv_set v k \<noteq> [])"
| "holds_kind v k KNum = (rv_num v k \<noteq> None)"
| "holds_kind v k KList = (rv_list v k \<noteq> [])"

definition cmd_typed :: "redis_cmd \<Rightarrow> rview \<Rightarrow> bool" where
  \<comment> \<open>no WRONGTYPE: the key holds nothing, or a value of the command's kind\<close>
  "cmd_typed c v = (case cmd_kind c of None \<Rightarrow> True
     | Some kd \<Rightarrow> list_all (\<lambda>kd'. holds_kind v (cmd_key c) kd' \<longrightarrow> kd' = kd) [KHash, KZset, KSet, KNum, KList])"

fun cmds_typed :: "redis_cmd list \<Rightarrow> rview \<Rightarrow> bool" where
  "cmds_typed [] v = True"
| "cmds_typed (c # cs) v = (cmd_typed c v \<and> cmds_typed cs (redis_apply c v))"

record 'db redis =
  rd_exec :: "redis_cmd list \<Rightarrow> 'db \<Rightarrow> exn option \<times> 'db"
  rd_view :: "'db \<Rightarrow> rview"

definition redis_ok :: "'db redis \<Rightarrow> bool" where
  "redis_ok r \<longleftrightarrow> (\<forall>cmds db. cmds_typed cmds (rd_view r db) \<longrightarrow>
     (case rd_exec r cmds db of
        (None, db') \<Rightarrow> rd_view r db' = fold redis_apply cmds (rd_view r db)
      | (Some x, db') \<Rightarrow> rd_view r db' = rd_view r db \<or> rd_view r db' = fold redis_apply cmds (rd_view r db)))"

section \<open>The handlers\<close>

record wstats =
  ws_agg :: int
  ws_late :: int
  ws_alert :: int
  ws_err :: int

record wcfg =
  wc_ttl :: int
  wc_repr :: "pyval \<Rightarrow> string"
  wc_dumps :: "pyval \<Rightarrow> string"

definition redis_encode :: "wcfg \<Rightarrow> pyval \<Rightarrow> string result" where
  \<comment> \<open>redis-py takes strings, ints and floats and raises \<open>DataError\<close> on anything else\<close>
  "redis_encode cfg v = (case v of
     PStr s \<Rightarrow> Inr s | PInt i \<Rightarrow> Inr (dec_int i) | PFloat x \<Rightarrow> Inr (wc_repr cfg v) | _ \<Rightarrow> Inl DataError)"

fun encode_fields :: "wcfg \<Rightarrow> (string \<times> pyval) list \<Rightarrow> (string \<times> string) list result" where
  "encode_fields cfg [] = Inr []"
| "encode_fields cfg ((f, v) # m) =
     rbind (redis_encode cfg v) (\<lambda>s. rbind (encode_fields cfg m) (\<lambda>rest. Inr ((f, s) # rest)))"

definition minute_key_of :: "pyval \<Rightarrow> (string \<times> int) result" where
  \<comment> \<open>\<open>minute_key(v)\<close>: a value without \<open>replace\<close> raises\<close>
  "minute_key_of v = (case v of PStr s \<Rightarrow> writer_minute_key s | _ \<Rightarrow> Inl AttributeError)"

definition agg_key :: "wcfg \<Rightarrow> pyval \<Rightarrow> string \<Rightarrow> string" where
  "agg_key cfg cid mk = ''agg:1m:'' @ py_str (wc_repr cfg) cid @ '':'' @ mk"

definition agg_fields :: "dict \<Rightarrow> pyval \<Rightarrow> pyval \<Rightarrow> pyval \<Rightarrow> string \<Rightarrow> (string \<times> pyval) list" where
  "agg_fields d cid ws we upd =
     [(''campaign_id'', cid),
      (''advertiser'', py_or (dget d ''advertiser'') (PStr [])),
      (''campaign_name'', py_or (dget d ''campaign_name'') (PStr [])),
      (''impressions'', py_or (dget d ''impressions'') (PInt 0)),
      (''clicks'', py_or (dget d ''clicks'') (PInt 0)),
      (''completes'', py_or (dget d ''completes'') (PInt 0)),
      (''requests'', py_or (dget d ''requests'') (PInt 0)),
      (''imp_req_ratio'', (if dget d ''imp_req_ratio'' = PNone then PStr [] else dget d ''imp_req_ratio'')),
      (''ssai_dupes'', py_or (dget d ''ssai_dupes'') (PInt 0)),
      (''window_start'', ws), (''window_end'', we), (''updated_at'', PStr upd)]"

definition agg_row :: "wcfg \<Rightarrow> string \<Rightarrow> dict \<Rightarrow> (string \<times> int \<times> string \<times> (string \<times> string) list) result" where
  \<comment> \<open>the key, the window's epoch, the set member and the encoded hash\<close>
  "agg_row cfg upd d =
     rbind (dsub d ''window_start'') (\<lambda>ws.
     rbind (minute_key_of ws) (\<lambda>(mk, epoch).
     rbind (dsub d ''campaign_id'') (\<lambda>cid.
     rbind (dsub d ''window_end'') (\<lambda>we.
     rbind (encode_fields cfg (agg_fields d cid ws we upd)) (\<lambda>fields.
     rbind (redis_encode cfg cid) (\<lambda>member.
       Inr (agg_key cfg cid mk, epoch, member, fields)))))))"

definition agg_commands :: "wcfg \<Rightarrow> int \<Rightarrow> string \<Rightarrow> dict \<Rightarrow> redis_cmd list result" where
  "agg_commands cfg now upd d =
     rbind (agg_row cfg upd d) (\<lambda>(key, epoch, member, fields).
       Inr [HSet key fields, Expire key (wc_ttl cfg),
            SAdd ''agg:campaigns'' member, Expire ''agg:campaigns'' (wc_ttl cfg),
            ZAdd ''agg:index'' key epoch,
            ZRemRangeByScore ''agg:index'' 0 (now - wc_ttl cfg)])"

text \<open>\<open>None\<close>: the handler returns early, without a pipeline and without counting.\<close>

definition late_commands :: "wcfg \<Rightarrow> dict \<Rightarrow> redis_cmd list option result" where
  "late_commands cfg d =
     (let ts = dget d ''event_time'' in
      if \<not> truthy ts then Inr None
      else rbind (minute_key_of ts) (\<lambda>(mk, _).
        (let key = ''late:1m:'' @ mk in
         Inr (Some [Incr key, Expire key (wc_ttl cfg), Incr ''late:total'']))))"

definition alert_commands :: "wcfg \<Rightarrow> pyval \<Rightarrow> redis_cmd list" where
  "alert_commands cfg d =
     [LPush ''alerts:recent'' (wc_dumps cfg d), LTrim ''alerts:recent'' 0 99,
      Expire ''alerts:recent'' (wc_ttl cfg), Incr ''alerts:total'']"

definition handle_agg :: "'db redis \<Rightarrow> wcfg \<Rightarrow> int \<Rightarrow> string \<Rightarrow> pyval \<Rightarrow> wstats \<times> 'db \<Rightarrow> exn option \<times> wstats \<times> 'db" where
  "handle_agg r cfg now upd v s =
     (case v of
        PDict d \<Rightarrow>
          (case agg_commands cfg now upd d of
             Inl x \<Rightarrow> (Some x, s)
           | Inr cmds \<Rightarrow>
               (case rd_exec r cmds (snd s) of
                  (Some x, db) \<Rightarrow> (Some x, fst s, db)
                | (None, db) \<Rightarrow> (None, (fst s)\<lparr>ws_agg := ws_agg (fst s) + 1\<rparr>, db)))
      | _ \<Rightarrow> (Some TypeError, s))"

definition handle_late :: "'db redis \<Rightarrow> wcfg \<Rightarrow> pyval \<Rightarrow> wstats \<times> 'db \<Rightarrow> exn option \<times> wstats \<times> 'db" where
  "handle_late r cfg v s =
     (case v of
        PDict d \<Rightarrow>
          (case late_commands cfg d of
             Inl x \<Rightarrow> (Some x, s)
           | Inr None \<Rightarrow> (None, s)
           | Inr (Some cmds) \<Rightarrow>
               (case rd_exec r cmds (snd s) of
                  (Some x, db) \<Rightarrow> (Some x, fst s, db)
                | (None, db) \<Rightarrow> (None, (fst s)\<lparr>ws_late := ws_late (fst s) + 1\<rparr>, db)))
      | _ \<Rightarrow> (Some AttributeError, s))"

definition handle_alert :: "'db redis \<Rightarrow> wcfg \<Rightarrow> pyval \<Rightarrow> wstats \<times> 'db \<Rightarrow> exn option \<times> wstats \<times> 'db" where
  "handle_alert r cfg v s =
     (case rd_exec r (alert_commands cfg v) (snd s) of
        (Some x, db) \<Rightarrow> (Some x, fst s, db)
      | (None, db) \<Rightarrow> (None, (fst s)\<lparr>ws_alert := ws_alert (fst s) + 1\<rparr>, db))"

section \<open>The main loop\<close>

text \<open>
  What \<open>poll\<close> returned: nothing, an error (and whether it is the end of a partition), or a
  message with its decoded JSON (\<open>None\<close> when decoding raises) and the two clock readings a handler
  may take.
\<close>

datatype polled = PollNone | PollError bool | PollMsg string "pyval option" int string

definition bump_err :: "wstats \<times> 'db \<Rightarrow> wstats \<times> 'db" where
  "bump_err s = ((fst s)\<lparr>ws_err := ws_err (fst s) + 1\<rparr>, snd s)"

definition dispatch :: "'db redis \<Rightarrow> wcfg \<Rightarrow> string \<Rightarrow> int \<Rightarrow> string \<Rightarrow> pyval \<Rightarrow> wstats \<times> 'db \<Rightarrow> exn option \<times> wstats \<times> 'db" where
  "dispatch r cfg topic now upd d s =
     (if topic = ''agg.minute'' then handle_agg r cfg now upd d s
      else if topic = ''late.events'' then handle_late r cfg d s
      else if topic = ''alert.anomaly'' then handle_alert r cfg d s
      else (Some (KeyError topic), s))"

definition writer_step :: "'db redis \<Rightarrow> wcfg \<Rightarrow> polled \<Rightarrow> wstats \<times> 'db \<Rightarrow> wstats \<times> 'db" where
  "writer_step r cfg p s =
     (case p of
        PollNone \<Rightarrow> s
      | PollError eof \<Rightarrow> if eof then s else bump_err s
      | PollMsg topic value now upd \<Rightarrow>
          (case value of
             None \<Rightarrow> bump_err s
           | Some d \<Rightarrow>
               (case dispatch r cfg topic now upd d s of
                  (None, s) \<Rightarrow> s
                | (Some x, s) \<Rightarrow> bump_err s)))"

definition writer_run :: "'db redis \<Rightarrow> wcfg \<Rightarrow> polled list \<Rightarrow> wstats \<times> 'db \<Rightarrow> wstats \<times> 'db" where
  "writer_run r cfg ps s = fold (writer_step r cfg) ps s"

definition wstats_init :: wstats where
  "wstats_init = \<lparr>ws_agg = 0, ws_late = 0, ws_alert = 0, ws_err = 0\<rparr>"

section \<open>The HTTP queries\<close>

definition SUM_FIELDS :: "string list" where
  "SUM_FIELDS = [''impressions'', ''clicks'', ''completes'', ''requests'', ''ssai_dupes'']"

record tally =
  sm_count :: "string \<Rightarrow> int"
  sm_minutes :: int
  sm_advertiser :: string
  sm_name :: string

definition num_field :: "(string \<times> string) list \<Rightarrow> string \<Rightarrow> int result" where
  \<comment> \<open>\<open>int(float(h.get(f) or 0))\<close>\<close>
  "num_field h f = (case map_of h f of
     None \<Rightarrow> Inr 0
   | Some s \<Rightarrow> if s = [] then Inr 0
       else (case parse_float s of None \<Rightarrow> Inl ValueError | Some x \<Rightarrow> Inr (py_int x)))"

definition zrangebyscore :: "(string \<times> int) list \<Rightarrow> int \<Rightarrow> int \<Rightarrow> (string \<times> int) list" where
  \<comment> \<open>the members with a score in the closed range, by score and then by name\<close>
  "zrangebyscore z lo hi = sort_key (\<lambda>(m, s). (s, m)) (filter (\<lambda>(m, s). lo \<le> s \<and> s \<le> hi) z)"

fun add_fields :: "string list \<Rightarrow> (string \<times> string) list \<Rightarrow> tally \<Rightarrow> tally result" where
  "add_fields [] h acc = Inr acc"
| "add_fields (f # fs) h acc =
     rbind (num_field h f) (\<lambda>n. add_fields fs h (acc\<lparr>sm_count := (sm_count acc)(f := sm_count acc f + n)\<rparr>))"

definition hash_cid :: "(string \<times> string) list \<Rightarrow> string option" where
  \<comment> \<open>the campaign a hash counts for; \<open>None\<close> for an expired hash or one without a campaign\<close>
  "hash_cid h = (case map_of h ''campaign_id'' of None \<Rightarrow> None | Some c \<Rightarrow> if c = [] then None else Some c)"

definition sum_hash :: "(string \<times> string) list \<Rightarrow> (string \<times> tally) list \<Rightarrow> (string \<times> tally) list result" where
  "sum_hash h out =
     (case hash_cid h of
        None \<Rightarrow> Inr out
      | Some cid \<Rightarrow>
          (let acc = (case map_of out cid of
                 Some a \<Rightarrow> a
               | None \<Rightarrow> \<lparr>sm_count = (\<lambda>_. 0), sm_minutes = 0,
                    sm_advertiser = (case map_of h ''advertiser'' of None \<Rightarrow> [] | Some x \<Rightarrow> x),
                    sm_name = (case map_of h ''campaign_name'' of None \<Rightarrow> [] | Some x \<Rightarrow> x)\<rparr>)
           in rbind (add_fields SUM_FIELDS h acc)
                (\<lambda>acc. Inr (AList.update cid (acc\<lparr>sm_minutes := sm_minutes acc + 1\<rparr>) out))))"

fun sum_hashes :: "(string \<times> string) list list \<Rightarrow> (string \<times> tally) list \<Rightarrow> (string \<times> tally) list result" where
  "sum_hashes [] out = Inr out"
| "sum_hashes (h # hs) out = rbind (sum_hash h out) (sum_hashes hs)"

definition sum_range :: "rview \<Rightarrow> int \<Rightarrow> int \<Rightarrow> (string \<times> tally) list result" where
  "sum_range v start_epoch end_epoch =
     sum_hashes (map (\<lambda>(k, s). rv_hash v k) (zrangebyscore (rv_zset v ''agg:index'') start_epoch end_epoch)) []"

definition num_or_0 :: "int option \<Rightarrow> int" where
  "num_or_0 n = (case n of None \<Rightarrow> 0 | Some i \<Rightarrow> i)"

record summary =
  sy_dt :: string
  sy_campaigns :: "(string \<times> tally) list"
  sy_late_total :: int
  sy_alerts_total :: int

definition query_first :: "(string \<times> string list) list \<Rightarrow> string \<Rightarrow> string option" where
  \<comment> \<open>\<open>q[k][0]\<close>; \<open>parse_qs\<close> keeps no empty list\<close>
  "query_first q k = (case map_of q k of Some (x # _) \<Rightarrow> Some x | _ \<Rightarrow> None)"

definition strptime_date :: "string \<Rightarrow> int option" where
  \<comment> \<open>\<open>datetime.strptime(s, "%Y-%m-%d")\<close> in UTC, as epoch seconds\<close>
  "strptime_date s = do {
     (y, s) \<leftarrow> take_digits 4 s;
     s \<leftarrow> take_char (CHR ''-'') s;
     ms \<leftarrow> Some (takeWhile is_digit s);
     s \<leftarrow> take_char (CHR ''-'') (dropWhile is_digit s);
     ds \<leftarrow> Some (case s of c # r \<Rightarrow> if c = CHR '' '' \<and> length r = 1 then r else s | [] \<Rightarrow> s);
     if length ms \<in> {1, 2} \<and> length ds \<in> {1, 2} \<and> list_all is_digit ds \<and> 1 \<le> y \<and>
        1 \<le> undec ms \<and> undec ms \<le> 12 \<and> 1 \<le> undec ds \<and> undec ds \<le> month_len (is_leap (int y)) (undec ms)
     then Some ((ymd2ord (int y) (undec ms) (undec ds) - 719163) * 86400) else None }"

definition summary_dt :: "int \<Rightarrow> (string \<times> string list) list \<Rightarrow> string" where
  "summary_dt now q = (case query_first q ''dt'' of None \<Rightarrow> strftime_date now | Some d \<Rightarrow> d)"

definition summary_range :: "int \<Rightarrow> (string \<times> string list) list \<Rightarrow> (int \<times> int) result" where
  \<comment> \<open>the closed score range of \<open>/agg/summary\<close> at epoch second \<open>now\<close>\<close>
  "summary_range now q =
     (case (query_first q ''from'', query_first q ''to'') of
        (Some f, Some t) \<Rightarrow>
          (case parse_int f of None \<Rightarrow> Inl ValueError
           | Some f \<Rightarrow> (case parse_int t of None \<Rightarrow> Inl ValueError
              | Some t \<Rightarrow> Inr (f div 60 * 60, t div 60 * 60 - 1)))
      | _ \<Rightarrow> (case strptime_date (summary_dt now q) of None \<Rightarrow> Inl ValueError | Some start \<Rightarrow> Inr (start, start + 86400 - 1)))"

definition agg_summary :: "rview \<Rightarrow> int \<Rightarrow> (string \<times> string list) list \<Rightarrow> summary result" where
  "agg_summary v now q =
     rbind (summary_range now q) (\<lambda>(start, stop).
     rbind (sum_range v start stop) (\<lambda>cs.
       Inr \<lparr>sy_dt = summary_dt now q, sy_campaigns = cs, sy_late_total = num_or_0 (rv_num v ''late:total''),
            sy_alerts_total = num_or_0 (rv_num v ''alerts:total'')\<rparr>))"

record series_row =
  sr_minute :: int
  sr_cid :: "string option"
  sr_count :: "string \<Rightarrow> int"

fun series_rows :: "rview \<Rightarrow> (string \<times> int) list \<Rightarrow> series_row list result" where
  "series_rows v [] = Inr []"
| "series_rows v ((k, score) # ks) =
     (let h = rv_hash v k in
      if h = [] then series_rows v ks
      else
        rbind (add_fields SUM_FIELDS h \<lparr>sm_count = (\<lambda>_. 0), sm_minutes = 0, sm_advertiser = [], sm_name = []\<rparr>) (\<lambda>acc.
        rbind (series_rows v ks) (\<lambda>rows.
          Inr (\<lparr>sr_minute = score, sr_cid = map_of h ''campaign_id'', sr_count = sm_count acc\<rparr> # rows))))"

definition series_late :: "rview \<Rightarrow> int \<Rightarrow> int \<Rightarrow> (int \<times> int) list" where
  "series_late v now mins =
     concat (map (\<lambda>i. let m = now - i * 60 in
         case rv_num v (''late:1m:'' @ strftime_minute m) of None \<Rightarrow> [] | Some n \<Rightarrow> [(m, n)])
       [0..mins])"

definition agg_series :: "rview \<Rightarrow> int \<Rightarrow> int \<Rightarrow> (series_row list \<times> (int \<times> int) list) result" where
  \<comment> \<open>\<open>/agg/series\<close> at epoch second \<open>t\<close>\<close>
  "agg_series v t mins =
     (let now = t div 60 * 60; start = now - mins * 60
      in if 0 \<le> mins \<and> \<not> datetime_ok start then Inl ValueError
      else rbind (series_rows v (zrangebyscore (rv_zset v ''agg:index'') start (now + 60)))
           (\<lambda>rows. Inr (rows, series_late v now mins)))"

definition alerts_query :: "rview \<Rightarrow> int \<Rightarrow> string list" where
  \<comment> \<open>\<open>/alerts?limit=n\<close>, before decoding\<close>
  "alerts_query v n = list_range 0 (n - 1) (rv_list v ''alerts:recent'')"

text \<open>
  \<open>do_GET\<close>: any exception becomes a 500.  \<open>loads\<close> is \<open>json.loads\<close> (\<open>None\<close> when it raises).  The uptime of the
  health reply is not modelled.
\<close>

datatype api_reply = HealthReply wstats | SummaryReply summary
  | SeriesReply "series_row list" "(int \<times> int) list" | AlertsReply "pyval list" | NotFound string | ServerError

definition int_query :: "(string \<times> string list) list \<Rightarrow> string \<Rightarrow> int \<Rightarrow> int option" where
  \<comment> \<open>\<open>int((q.get(k) or [default])[0])\<close>\<close>
  "int_query q k n = (case query_first q k of None \<Rightarrow> Some n | Some s \<Rightarrow> parse_int s)"

definition api_get :: "(string \<Rightarrow> pyval option) \<Rightarrow> wstats \<Rightarrow> rview \<Rightarrow> int \<Rightarrow> string \<Rightarrow> (string \<times> string list) list \<Rightarrow> api_reply" where
  "api_get loads st v now path q =
     (if path = ''/'' \<or> path = ''/health'' then HealthReply st
      else if path = ''/agg/summary'' then
        (case agg_summary v now q of Inl _ \<Rightarrow> ServerError | Inr s \<Rightarrow> SummaryReply s)
      else if path = ''/agg/series'' then
        (case int_query q ''minutes'' 30 of None \<Rightarrow> ServerError
         | Some mins \<Rightarrow>
             (case agg_series v now mins of Inl _ \<Rightarrow> ServerError | Inr (rows, late) \<Rightarrow> SeriesReply rows late))
      else if path = ''/alerts'' then
        (case int_query q ''limit'' 20 of None \<Rightarrow> ServerError
         | Some n \<Rightarrow>
             (let raw = alerts_query v n in
              if list_all (\<lambda>x. loads x \<noteq> None) raw then AlertsReply (map (\<lambda>x. the (loads x)) raw) else ServerError))
      else NotFound path)"

section \<open>Every key has one kind\<close>

definition key_kind :: "string \<Rightarrow> kind option" where
  "key_kind k =
     (if take 7 k = ''agg:1m:'' then Some KHash
      else if k = ''agg:index'' then Some KZset
      else if k = ''agg:campaigns'' then Some KSet
      else if take 5 k = ''late:'' \<or> k = ''alerts:total'' then Some KNum
      else if k = ''alerts:recent'' then Some KList else None)"

definition owned :: "rview \<Rightarrow> bool" where
  \<comment> \<open>what the store holds is of the kind its key says\<close>
  "owned v \<longleftrightarrow> (\<forall>k kd. holds_kind v k kd \<longrightarrow> key_kind k = Some kd)"

definition cmd_owned :: "redis_cmd \<Rightarrow> bool" where
  "cmd_owned c \<longleftrightarrow> (cmd_kind c = None \<or> cmd_kind c = key_kind (cmd_key c))"

lemma owned_empty: "owned rview_empty"
proof -
  have "\<not> holds_kind rview_empty k kd" for k kd by (cases kd) (simp_all add: rview_empty_def)
  then show ?thesis by (simp add: owned_def)
qed

lemma owned_typed: "owned v \<Longrightarrow> cmd_owned c \<Longrightarrow> cmd_typed c v"
  by (auto simp: owned_def cmd_owned_def cmd_typed_def split: option.splits simp del: holds_kind.simps)

lemma redis_apply_holds:
  "holds_kind (redis_apply c v) k kd \<Longrightarrow> holds_kind v k kd \<or> (k = cmd_key c \<and> cmd_kind c = Some kd)"
  by (cases c; cases kd) (auto split: if_splits)

lemma owned_apply: "owned v \<Longrightarrow> cmd_owned c \<Longrightarrow> owned (redis_apply c v)"
  using redis_apply_holds by (fastforce simp: owned_def cmd_owned_def)

lemma owned_cmds:
  "owned v \<Longrightarrow> list_all cmd_owned cs \<Longrightarrow> cmds_typed cs v \<and> owned (fold redis_apply cs v)"
  by (induction cs arbitrary: v) (simp_all add: owned_typed owned_apply)

section \<open>What a polled item does\<close>

definition planned :: "wcfg \<Rightarrow> polled \<Rightarrow> redis_cmd list option" where
  \<comment> \<open>the transaction a polled item runs\<close>
  "planned cfg p = (case p of
     PollMsg topic (Some d) now upd \<Rightarrow>
       (if topic = ''agg.minute'' then
          (case d of PDict m \<Rightarrow> (case agg_commands cfg now upd m of Inr c \<Rightarrow> Some c | Inl _ \<Rightarrow> None) | _ \<Rightarrow> None)
        else if topic = ''late.events'' then
          (case d of PDict m \<Rightarrow> (case late_commands cfg m of Inr c \<Rightarrow> c | Inl _ \<Rightarrow> None) | _ \<Rightarrow> None)
        else if topic = ''alert.anomaly'' then Some (alert_commands cfg d) else None)
   | _ \<Rightarrow> None)"

definition silent :: "polled \<Rightarrow> bool" where
  \<comment> \<open>nothing polled, the end of a partition, and a late event without a time\<close>
  "silent p \<longleftrightarrow> p = PollNone \<or> p = PollError True \<or>
     (\<exists>d now upd. p = PollMsg ''late.events'' (Some (PDict d)) now upd \<and> \<not> truthy (dget d ''event_time''))"

definition counted :: "wstats \<Rightarrow> int" where
  "counted st = ws_agg st + ws_late st + ws_alert st + ws_err st"

lemmas handler_defs = dispatch_def handle_agg_def handle_late_def handle_alert_def

lemma late_commands_silent:
  "late_commands cfg d = Inr None \<longleftrightarrow> \<not> truthy (dget d ''event_time'')"
  by (auto simp: late_commands_def Let_def rbind_eq_Inr_iff)

lemma dispatch_db:
  "snd (snd (dispatch r cfg topic now upd d s)) =
     (case planned cfg (PollMsg topic (Some d) now upd) of None \<Rightarrow> snd s | Some c \<Rightarrow> snd (rd_exec r c (snd s)))"
  by (auto simp: handler_defs planned_def split: pyval.splits sum.splits option.splits prod.splits)

lemma writer_step_db:
  "snd (writer_step r cfg p s) = (case planned cfg p of None \<Rightarrow> snd s | Some c \<Rightarrow> snd (rd_exec r c (snd s)))"
proof (cases p)
  case (PollMsg topic body now upd)
  then show ?thesis
    using dispatch_db [of r cfg topic now upd "the body" s]
    by (auto simp: writer_step_def bump_err_def planned_def [of cfg "PollMsg topic None now upd"]
        split: option.splits prod.splits)
qed (auto simp: writer_step_def bump_err_def planned_def)

lemma dispatch_counts:
  "dispatch r cfg topic now upd d s = (x, s') \<Longrightarrow>
     counted (fst s') = counted (fst s) + (if x = None \<and> \<not> silent (PollMsg topic (Some d) now upd) then 1 else 0) \<and>
     ws_err (fst s') = ws_err (fst s)"
  by (auto simp: handler_defs counted_def silent_def late_commands_silent [of cfg, symmetric]
      split: if_splits pyval.splits sum.splits option.splits prod.splits)

lemma dispatch_raised_not_silent:
  "dispatch r cfg topic now upd d s = (Some x, s') \<Longrightarrow> \<not> silent (PollMsg topic (Some d) now upd)"
  by (auto simp: handler_defs silent_def late_commands_silent [of cfg, symmetric]
      split: if_splits pyval.splits sum.splits option.splits prod.splits)

lemma dispatch_raised:
  assumes "\<And>cs db. fst (rd_exec r cs db) = None" "dispatch r cfg topic now upd d s = (Some x, s')"
  shows "s' = s"
proof -
  have "rd_exec r cs db \<noteq> (Some y, db')" for cs db y db' using assms(1) [of cs db] by auto
  with assms(2) show ?thesis
    by (auto simp: handler_defs split: if_splits pyval.splits sum.splits option.splits prod.splits)
qed

lemma writer_step_counts:
  "counted (fst (writer_step r cfg p s)) = counted (fst s) + (if silent p then 0 else 1)"
proof (cases p)
  case (PollMsg topic body now upd)
  show ?thesis
  proof (cases body)
    case None
    then show ?thesis by (simp add: writer_step_def PollMsg bump_err_def counted_def silent_def)
  next
    case (Some d)
    obtain x s' where d: "dispatch r cfg topic now upd d s = (x, s')" by (metis surj_pair)
    show ?thesis
      using dispatch_counts [OF d] dispatch_raised_not_silent [of r cfg topic now upd d s "the x" s'] d
      by (cases x) (auto simp: writer_step_def PollMsg Some bump_err_def counted_def split: if_splits)
  qed
qed (auto simp: writer_step_def bump_err_def counted_def silent_def)

lemma planned_owned: "planned cfg p = Some cs \<Longrightarrow> list_all cmd_owned cs"
  by (auto simp: planned_def agg_commands_def agg_row_def agg_key_def late_commands_def alert_commands_def
      cmd_owned_def key_kind_def Let_def rbind_eq_Inr_iff
      split: polled.splits option.splits if_splits pyval.splits sum.splits)

lemma writer_step_owned:
  assumes "redis_ok r" "owned (rd_view r (snd s))"
  shows "owned (rd_view r (snd (writer_step r cfg p s)))"
proof (cases "planned cfg p")
  case None
  then show ?thesis using assms(2) by (simp add: writer_step_db)
next
  case (Some cs)
  note o = owned_cmds [OF assms(2) planned_owned [OF Some]]
  with assms(1) have "case rd_exec r cs (snd s) of
      (None, db') \<Rightarrow> rd_view r db' = fold redis_apply cs (rd_view r (snd s))
    | (Some x, db') \<Rightarrow> rd_view r db' = rd_view r (snd s) \<or> rd_view r db' = fold redis_apply cs (rd_view r (snd s))"
    by (simp only: redis_ok_def)
  then show ?thesis
    using o assms(2) by (auto simp: writer_step_db Some split: option.splits prod.splits)
qed

lemma writer_step_view:
  assumes "redis_ok r" "\<And>cs db. fst (rd_exec r cs db) = None" "owned (rd_view r (snd s))"
  shows "rd_view r (snd (writer_step r cfg p s)) =
    (case planned cfg p of None \<Rightarrow> rd_view r (snd s) | Some cs \<Rightarrow> fold redis_apply cs (rd_view r (snd s)))"
proof (cases "planned cfg p")
  case (Some cs)
  obtain db' where e: "rd_exec r cs (snd s) = (None, db')" using assms(2) [of cs "snd s"] by (metis prod.collapse)
  from owned_cmds [OF assms(3) planned_owned [OF Some]] assms(1) e
  show ?thesis by (fastforce simp: redis_ok_def writer_step_db Some)
qed (simp add: writer_step_db)

section \<open>Runs against the abstract store\<close>

text \<open>
  The abstract store: for each hash the last row written to it, the alerts newest first, and how
  many late events and alerts there were.
\<close>

datatype effect = EAgg string "(string \<times> string) list" | ELate string | EAlert string | ENone

definition effect_of :: "wcfg \<Rightarrow> polled \<Rightarrow> effect" where
  "effect_of cfg p = (case p of
     PollMsg topic (Some d) now upd \<Rightarrow>
       (if topic = ''agg.minute'' then
          (case d of PDict m \<Rightarrow> (case agg_row cfg upd m of Inr (k, _, _, f) \<Rightarrow> EAgg k f | Inl _ \<Rightarrow> ENone) | _ \<Rightarrow> ENone)
        else if topic = ''late.events'' then
          (case d of PDict m \<Rightarrow>
             (if truthy (dget m ''event_time'') then
                (case minute_key_of (dget m ''event_time'') of Inr (mk, _) \<Rightarrow> ELate mk | Inl _ \<Rightarrow> ENone)
              else ENone)
           | _ \<Rightarrow> ENone)
        else if topic = ''alert.anomaly'' then EAlert (wc_dumps cfg d) else ENone)
   | _ \<Rightarrow> ENone)"

definition agg_rows :: "effect list \<Rightarrow> (string \<times> (string \<times> string) list) list" where
  "agg_rows es = concat (map (\<lambda>x. case x of EAgg k f \<Rightarrow> [(k, f)] | _ \<Rightarrow> []) es)"

definition late_keys :: "effect list \<Rightarrow> string list" where
  "late_keys es = concat (map (\<lambda>x. case x of ELate mk \<Rightarrow> [mk] | _ \<Rightarrow> []) es)"

definition alert_texts :: "effect list \<Rightarrow> string list" where
  "alert_texts es = concat (map (\<lambda>x. case x of EAlert t \<Rightarrow> [t] | _ \<Rightarrow> []) es)"

lemmas effect_lists = agg_rows_def late_keys_def alert_texts_def

definition row_names :: "string list" where
  "row_names = [''campaign_id'', ''advertiser'', ''campaign_name'', ''impressions'', ''clicks'', ''completes'',
     ''requests'', ''imp_req_ratio'', ''ssai_dupes'', ''window_start'', ''window_end'', ''updated_at'']"

lemma encode_fields_names: "encode_fields cfg m = Inr f \<Longrightarrow> map fst f = map fst m"
  by (induction m arbitrary: f) (auto simp: rbind_eq_Inr_iff)

lemma agg_row_names: "agg_row cfg upd d = Inr (k, ep, mem, f) \<Longrightarrow> map fst f = row_names"
  by (auto simp: agg_row_def rbind_eq_Inr_iff agg_fields_def row_names_def dest!: encode_fields_names)

lemma agg_row_key: "agg_row cfg upd d = Inr (k, ep, mem, f) \<Longrightarrow> take 7 k = ''agg:1m:''"
  by (auto simp: agg_row_def agg_key_def rbind_eq_Inr_iff)

lemma fold_update_fresh:
  "distinct (map fst m) \<Longrightarrow> fst ` set h \<inter> fst ` set m = {} \<Longrightarrow>
     fold (\<lambda>(f, x) h. AList.update f x h) m h = h @ m"
proof (induction m arbitrary: h)
  case (Cons p m)
  obtain a b where p: "p = (a, b)" by (cases p)
  have "a \<notin> fst ` set h" using Cons.prems(2) by (auto simp: p)
  then have "AList.update a b h = h @ [(a, b)]" by (induction h) auto
  then show ?case using Cons.IH [of "h @ [(a, b)]"] Cons.prems by (simp add: p)
qed simp

lemma fold_update_same:
  "distinct (map fst m) \<Longrightarrow> map fst h = map fst m \<Longrightarrow> fst ` set z \<inter> fst ` set m = {} \<Longrightarrow>
     fold (\<lambda>(f, x) h. AList.update f x h) m (z @ h) = z @ m"
proof (induction m arbitrary: h z)
  case (Cons p m)
  obtain a b where p: "p = (a, b)" by (cases p)
  obtain y h' where h: "h = (a, y) # h'" "map fst h' = map fst m" using Cons.prems(2) by (auto simp: p map_eq_Cons_conv)
  have "a \<notin> fst ` set z" using Cons.prems(3) by (auto simp: p)
  then have "AList.update a b (z @ h) = (z @ [(a, b)]) @ h'" by (induction z) (auto simp: h)
  then show ?case using Cons.IH [of h' "z @ [(a, b)]"] Cons.prems h(2) by (simp add: p)
qed simp

lemma write_row: "map fst m = row_names \<Longrightarrow> h = [] \<or> map fst h = row_names \<Longrightarrow>
    fold (\<lambda>(f, x) h. AList.update f x h) m h = m"
  using fold_update_fresh [of m h] fold_update_same [of m h "[]"] by (auto simp: row_names_def)

definition store_matches :: "effect list \<Rightarrow> rview \<Rightarrow> bool" where
  "store_matches es v \<longleftrightarrow>
     (\<forall>k. take 7 k = ''agg:1m:'' \<longrightarrow> rv_hash v k = (case map_of (rev (agg_rows es)) k of None \<Rightarrow> [] | Some f \<Rightarrow> f)) \<and>
     rv_list v ''alerts:recent'' = take 100 (rev (alert_texts es)) \<and>
     num_or_0 (rv_num v ''alerts:total'') = int (length (alert_texts es)) \<and>
     (\<forall>mk. mk \<noteq> ''total'' \<longrightarrow>
        num_or_0 (rv_num v (''late:1m:'' @ mk)) = int (length (filter (\<lambda>m. m = mk) (late_keys es)))) \<and>
     num_or_0 (rv_num v ''late:total'') = int (length (late_keys es))"

lemma effect_of_agg: "effect_of cfg p = EAgg k f \<Longrightarrow> take 7 k = ''agg:1m:'' \<and> map fst f = row_names"
  using agg_row_key agg_row_names
  by (fastforce simp: effect_of_def split: polled.splits option.splits if_splits pyval.splits sum.splits)

lemma agg_rows_names: "(k, f) \<in> set (agg_rows (map (effect_of cfg) ps)) \<Longrightarrow> map fst f = row_names"
  by (auto simp: agg_rows_def dest: effect_of_agg [OF sym] split: effect.splits)

fun plan_ok :: "wcfg \<Rightarrow> effect \<Rightarrow> redis_cmd list option \<Rightarrow> bool" where
  "plan_ok cfg (EAgg k f) plan \<longleftrightarrow>
     (\<exists>mem ep lo. plan = Some [HSet k f, Expire k (wc_ttl cfg), SAdd ''agg:campaigns'' mem,
         Expire ''agg:campaigns'' (wc_ttl cfg), ZAdd ''agg:index'' k ep, ZRemRangeByScore ''agg:index'' 0 lo])"
| "plan_ok cfg (ELate mk) plan \<longleftrightarrow>
     plan = Some [Incr (''late:1m:'' @ mk), Expire (''late:1m:'' @ mk) (wc_ttl cfg), Incr ''late:total'']"
| "plan_ok cfg (EAlert t) plan \<longleftrightarrow>
     plan = Some [LPush ''alerts:recent'' t, LTrim ''alerts:recent'' 0 99,
         Expire ''alerts:recent'' (wc_ttl cfg), Incr ''alerts:total'']"
| "plan_ok cfg ENone plan \<longleftrightarrow> plan = None"

lemma effect_of_planned: "plan_ok cfg (effect_of cfg p) (planned cfg p)"
proof (cases p)
  case (PollMsg topic body now upd)
  show ?thesis
  proof (cases body)
    case (Some d)
    have agg: ?thesis if "topic = ''agg.minute''"
    proof (cases d)
      case (PDict m)
      then show ?thesis
        by (cases "agg_row cfg upd m") (auto simp: PollMsg Some that effect_of_def planned_def agg_commands_def)
    qed (simp_all add: PollMsg Some that effect_of_def planned_def)
    have late: ?thesis if "topic = ''late.events''"
    proof (cases d)
      case (PDict m)
      then show ?thesis
        by (cases "minute_key_of (dget m ''event_time'')")
          (auto simp: PollMsg Some that effect_of_def planned_def late_commands_def Let_def)
    qed (simp_all add: PollMsg Some that effect_of_def planned_def)
    show ?thesis
      using agg late by (simp add: PollMsg Some effect_of_def planned_def alert_commands_def)
  qed (simp add: PollMsg effect_of_def planned_def)
qed (simp_all add: effect_of_def planned_def)

lemma agg_rows_snoc: "agg_rows (es @ [x]) = agg_rows es @ (case x of EAgg k f \<Rightarrow> [(k, f)] | _ \<Rightarrow> [])"
  and late_keys_snoc: "late_keys (es @ [x]) = late_keys es @ (case x of ELate mk \<Rightarrow> [mk] | _ \<Rightarrow> [])"
  and alert_texts_snoc: "alert_texts (es @ [x]) = alert_texts es @ (case x of EAlert t \<Rightarrow> [t] | _ \<Rightarrow> [])"
  by (simp_all add: effect_lists)

lemmas effect_snoc = agg_rows_snoc late_keys_snoc alert_texts_snoc

lemma list_range_99: "list_range 0 99 xs = take 100 xs"
  by (simp add: list_range_def Let_def)

lemma agg_key_not: "take 7 k = ''agg:1m:'' \<Longrightarrow> k \<noteq> ''agg:campaigns'' \<and> k \<noteq> ''alerts:recent'' \<and> k \<noteq> ''alerts:total'' \<and>
    k \<noteq> ''late:total'' \<and> k \<noteq> ''late:1m:'' @ mk"
  by auto

lemma store_matches_apply:
  assumes ttl: "0 < wc_ttl cfg" and m: "store_matches es v"
    and rows: "\<And>k f. (k, f) \<in> set (agg_rows es) \<Longrightarrow> map fst f = row_names"
    and x: "\<And>k f. x = EAgg k f \<Longrightarrow> take 7 k = ''agg:1m:'' \<and> map fst f = row_names"
    and plan: "plan_ok cfg x plan"
  shows "store_matches (es @ [x]) (case plan of None \<Rightarrow> v | Some cs \<Rightarrow> fold redis_apply cs v)"
proof (cases x)
  case (EAgg k f)
  obtain mem ep lo where p: "plan = Some [HSet k f, Expire k (wc_ttl cfg), SAdd ''agg:campaigns'' mem,
      Expire ''agg:campaigns'' (wc_ttl cfg), ZAdd ''agg:index'' k ep, ZRemRangeByScore ''agg:index'' 0 lo]"
    using plan by (auto simp: EAgg)
  note k = x [OF EAgg]
  have "rv_hash v k = [] \<or> map fst (rv_hash v k) = row_names"
    using m k rows by (auto simp: store_matches_def dest!: map_of_SomeD split: option.splits)
  from write_row [OF conjunct2 [OF k] this]
  have "fold redis_apply (the plan) v = v\<lparr>rv_hash := (rv_hash v)(k := f),
      rv_set := (rv_set v)(''agg:campaigns'' := List.insert mem (rv_set v ''agg:campaigns'')),
      rv_zset := (rv_zset v)(''agg:index'' := filter (\<lambda>(m, s). \<not> (0 \<le> s \<and> s \<le> lo)) (AList.update k ep (rv_zset v ''agg:index'')))\<rparr>"
    using ttl by (simp add: p)
  then show ?thesis
    using m by (simp add: p EAgg store_matches_def effect_snoc)
next
  case (ELate mk)
  then show ?thesis
    using m ttl plan by (auto simp: store_matches_def effect_snoc num_or_0_def split: option.splits)
next
  case (EAlert t)
  have "take 100 (t # take 100 ts) = take 100 (t # ts)" for ts :: "string list"
    by (simp add: take_Cons')
  with EAlert show ?thesis
    using m ttl plan by (auto simp: store_matches_def effect_snoc num_or_0_def list_range_99 split: option.splits)
next
  case ENone
  then show ?thesis using m plan by (simp add: store_matches_def effect_snoc)
qed

lemma writer_run_matches:
  assumes r: "redis_ok r" "\<And>cs db. fst (rd_exec r cs db) = None" and ttl: "0 < wc_ttl cfg"
    and empty: "rd_view r (snd s) = rview_empty"
  shows "owned (rd_view r (snd (writer_run r cfg ps s))) \<and>
    store_matches (map (effect_of cfg) ps) (rd_view r (snd (writer_run r cfg ps s)))"
proof (induction ps rule: rev_induct)
  case Nil
  then show ?case
    by (simp add: writer_run_def empty owned_empty store_matches_def effect_lists)
      (simp add: rview_empty_def num_or_0_def)
next
  case (snoc p ps)
  let ?s = "writer_run r cfg ps s"
  have run: "writer_run r cfg (ps @ [p]) s = writer_step r cfg p ?s" by (simp add: writer_run_def)
  from snoc.IH have o: "owned (rd_view r (snd ?s))" and m: "store_matches (map (effect_of cfg) ps) (rd_view r (snd ?s))"
    by simp_all
  have "store_matches (map (effect_of cfg) ps @ [effect_of cfg p])
      (case planned cfg p of None \<Rightarrow> rd_view r (snd ?s) | Some cs \<Rightarrow> fold redis_apply cs (rd_view r (snd ?s)))"
    by (rule store_matches_apply [OF ttl m agg_rows_names effect_of_agg effect_of_planned])
  then show ?case
    unfolding run using writer_step_owned [OF r(1) o] writer_step_view [OF r o] by simp
qed

definition view_redis :: "rview redis" where
  \<comment> \<open>a server that is its own view: the documented commands and nothing else\<close>
  "view_redis = \<lparr>rd_exec = (\<lambda>cs v. (None, fold redis_apply cs v)), rd_view = (\<lambda>v. v)\<rparr>"

lemma view_redis_ok: "redis_ok view_redis" "fst (rd_exec view_redis cs db) = None"
  by (simp_all add: redis_ok_def view_redis_def)

section \<open>Sums\<close>

definition tally_of :: "(string \<times> tally) list \<Rightarrow> string \<Rightarrow> string \<Rightarrow> int" where
  "tally_of out cid f = (case map_of out cid of None \<Rightarrow> 0 | Some a \<Rightarrow> sm_count a f)"

definition field_value :: "(string \<times> string) list \<Rightarrow> string \<Rightarrow> int" where
  "field_value h f = (case num_field h f of Inr n \<Rightarrow> n | Inl _ \<Rightarrow> 0)"

lemma add_fields_counts:
  "distinct fs \<Longrightarrow> add_fields fs h acc = Inr acc' \<Longrightarrow>
     sm_count acc' = (\<lambda>f. sm_count acc f + (if f \<in> set fs then field_value h f else 0)) \<and>
     sm_minutes acc' = sm_minutes acc \<and> (\<forall>f \<in> set fs. \<exists>n. num_field h f = Inr n)"
proof (induction fs arbitrary: acc)
  case (Cons f fs)
  then obtain n where n: "num_field h f = Inr n"
    "add_fields fs h (acc\<lparr>sm_count := (sm_count acc)(f := sm_count acc f + n)\<rparr>) = Inr acc'"
    by (auto simp: rbind_eq_Inr_iff)
  from Cons.IH [OF _ n(2)] Cons.prems(1) show ?case
    by (auto simp: n(1) field_value_def fun_eq_iff)
qed simp

lemma sum_hash_counts:
  assumes "sum_hash h out = Inr out'" "f \<in> set SUM_FIELDS"
  shows "tally_of out' cid f = tally_of out cid f + (if hash_cid h = Some cid then field_value h f else 0)"
proof (cases "hash_cid h")
  case None
  then show ?thesis using assms by (simp add: sum_hash_def)
next
  case (Some c)
  have d: "distinct SUM_FIELDS" by (simp add: SUM_FIELDS_def)
  show ?thesis
    using assms(1) by (auto simp: sum_hash_def Some Let_def rbind_eq_Inr_iff tally_of_def assms(2) update_conv'
        dest!: add_fields_counts [OF d] split: option.splits)
qed

lemma sum_hashes_counts:
  "sum_hashes hs out = Inr out' \<Longrightarrow> f \<in> set SUM_FIELDS \<Longrightarrow>
     tally_of out' cid f = tally_of out cid f + (\<Sum>h\<leftarrow>filter (\<lambda>h. hash_cid h = Some cid) hs. field_value h f)"
  by (induction hs arbitrary: out) (auto simp: rbind_eq_Inr_iff sum_hash_counts)

lemma sum_hash_total:
  "(\<forall>f \<in> set SUM_FIELDS. \<exists>n. num_field h f = Inr n) \<Longrightarrow> \<exists>out'. sum_hash h out = Inr out'"
  by (auto simp: sum_hash_def SUM_FIELDS_def Let_def split: option.splits)

lemma zrange_split:
  assumes "a \<le> b" "b \<le> c"
  shows "mset (zrangebyscore z a (c - 1)) = mset (zrangebyscore z a (b - 1)) + mset (zrangebyscore z b (c - 1))"
  using assms by (induction z) (auto simp: zrangebyscore_def)

lemma sum_hashes_parses:
  "(\<exists>out'. sum_hashes hs out = Inr out') \<longleftrightarrow>
     (\<forall>h \<in> set hs. hash_cid h \<noteq> None \<longrightarrow> (\<forall>f \<in> set SUM_FIELDS. \<exists>n. num_field h f = Inr n))"
proof (induction hs arbitrary: out)
  case (Cons h hs)
  have d: "distinct SUM_FIELDS" by (simp add: SUM_FIELDS_def)
  have "(\<exists>out'. sum_hash h out = Inr out') \<longleftrightarrow>
      (hash_cid h \<noteq> None \<longrightarrow> (\<forall>f \<in> set SUM_FIELDS. \<exists>n. num_field h f = Inr n))"
    using sum_hash_total [of h out]
    by (auto simp: sum_hash_def [of h out] Let_def rbind_eq_Inr_iff dest: add_fields_counts [OF d] split: option.splits)
  with Cons.IH show ?case by (simp add: rbind_eq_Inr_iff) blast
qed simp

definition range_hashes :: "rview \<Rightarrow> int \<Rightarrow> int \<Rightarrow> (string \<times> string) list list" where
  "range_hashes v lo hi = map (\<lambda>(k, s). rv_hash v k) (zrangebyscore (rv_zset v ''agg:index'') lo hi)"

lemma sum_range_parses:
  "(\<exists>out. sum_range v lo hi = Inr out) \<longleftrightarrow>
     (\<forall>h \<in> set (range_hashes v lo hi). hash_cid h \<noteq> None \<longrightarrow> (\<forall>f \<in> set SUM_FIELDS. \<exists>n. num_field h f = Inr n))"
  unfolding sum_range_def range_hashes_def by (rule sum_hashes_parses)

lemma sum_range_counts:
  "sum_range v lo hi = Inr out \<Longrightarrow> f \<in> set SUM_FIELDS \<Longrightarrow>
     tally_of out cid f = (\<Sum>h\<leftarrow>filter (\<lambda>h. hash_cid h = Some cid) (range_hashes v lo hi). field_value h f)"
  using sum_hashes_counts [of _ "[]" out f cid] by (simp add: sum_range_def range_hashes_def tally_of_def)

lemma range_hashes_split:
  assumes "a \<le> b" "b \<le> c"
  shows "mset (range_hashes v a (c - 1)) = mset (range_hashes v a (b - 1)) + mset (range_hashes v b (c - 1))"
  using zrange_split [OF assms] by (simp add: range_hashes_def)

lemma sum_list_mset_eq: "mset xs = mset ys \<Longrightarrow> sum_list (map f (filter P xs)) = sum_list (map f (filter P ys))"
  for f :: "'a \<Rightarrow> int"
  by (metis mset_filter mset_map sum_mset_sum_list)

lemma series_rows_counts:
  "series_rows v ks = Inr rows \<Longrightarrow> cid \<noteq> [] \<Longrightarrow> f \<in> set SUM_FIELDS \<Longrightarrow>
     (\<Sum>r\<leftarrow>filter (\<lambda>r. sr_cid r = Some cid) rows. sr_count r f)
       = (\<Sum>h\<leftarrow>filter (\<lambda>h. hash_cid h = Some cid) (map (\<lambda>(k, s). rv_hash v k) ks). field_value h f)"
proof (induction ks arbitrary: rows)
  case (Cons p ks)
  obtain k score where p: "p = (k, score)" by (cases p)
  have d: "distinct SUM_FIELDS" by (simp add: SUM_FIELDS_def)
  show ?case
  proof (cases "rv_hash v k = []")
    case True
    then show ?thesis using Cons by (simp add: p hash_cid_def)
  next
    case False
    then obtain acc rows' where r: "add_fields SUM_FIELDS (rv_hash v k)
          \<lparr>sm_count = (\<lambda>_. 0), sm_minutes = 0, sm_advertiser = [], sm_name = []\<rparr> = Inr acc"
        "series_rows v ks = Inr rows'"
        "rows = \<lparr>sr_minute = score, sr_cid = map_of (rv_hash v k) ''campaign_id'', sr_count = sm_count acc\<rparr> # rows'"
      using Cons.prems(1) by (auto simp: p Let_def rbind_eq_Inr_iff)
    have "map_of (rv_hash v k) ''campaign_id'' = Some cid \<longleftrightarrow> hash_cid (rv_hash v k) = Some cid"
      using Cons.prems(2) by (auto simp: hash_cid_def split: option.splits)
    with Cons.IH [OF r(2)] Cons.prems add_fields_counts [OF d r(1)] r(3) show ?thesis by (simp add: p)
  qed
qed simp

lemma series_rows_minutes: "series_rows v ks = Inr rows \<Longrightarrow> set (map sr_minute rows) \<subseteq> snd ` set ks"
  by (induction v ks arbitrary: rows rule: series_rows.induct)
    (auto simp: Let_def rbind_eq_Inr_iff split: if_splits, blast+)

lemma redis_encode_read:
  assumes "v = PInt n \<or> v = PNone \<and> n = 0" "redis_encode cfg (py_or v (PInt 0)) = Inr s"
  shows "s \<noteq> [] \<and> parse_float s = Some (of_int n)"
proof -
  have "py_or v (PInt 0) = PInt n" using assms(1) by (auto simp: py_or_def)
  then have "s = dec_int n" using assms(2) by (simp add: redis_encode_def)
  then show ?thesis by simp
qed

lemma encode_fields_value:
  "encode_fields cfg m = Inr h \<Longrightarrow> map_of m f = Some v \<Longrightarrow>
     \<exists>s. redis_encode cfg v = Inr s \<and> map_of h f = Some s"
  by (induction m arbitrary: h) (auto simp: rbind_eq_Inr_iff split: if_splits)

lemma agg_row_value:
  assumes "agg_row cfg upd d = Inr (k, ep, mem, h)"
    and "fld \<in> set SUM_FIELDS" "dget d fld = PInt n \<or> dget d fld = PNone \<and> n = 0"
  shows "num_field h fld = Inr n"
proof -
  obtain cid ws we where e: "encode_fields cfg (agg_fields d cid ws we upd) = Inr h"
    using assms(1) by (auto simp: agg_row_def rbind_eq_Inr_iff)
  have "map_of (agg_fields d cid ws we upd) fld = Some (py_or (dget d fld) (PInt 0))"
    using assms(2) by (auto simp: agg_fields_def SUM_FIELDS_def)
  from encode_fields_value [OF e this] redis_encode_read [OF assms(3)] show ?thesis
    by (auto simp: num_field_def)
qed

lemma agg_row_cid:
  assumes "agg_row cfg upd d = Inr (k, ep, mem, h)" "dget d ''campaign_id'' = PStr cid" "cid \<noteq> []"
  shows "hash_cid h = Some cid"
proof -
  obtain ws we where e: "encode_fields cfg (agg_fields d (PStr cid) ws we upd) = Inr h"
    using assms(1, 2) by (auto simp: agg_row_def rbind_eq_Inr_iff dsub_def dget_def split: option.splits)
  have "map_of (agg_fields d (PStr cid) ws we upd) ''campaign_id'' = Some (PStr cid)"
    by (simp add: agg_fields_def)
  from encode_fields_value [OF e this] assms(3) show ?thesis
    by (auto simp: hash_cid_def redis_encode_def)
qed

lemma sum_hash_fresh:
  assumes "hash_cid h = Some cid" "\<And>f. f \<in> set SUM_FIELDS \<Longrightarrow> num_field h f = Inr (n f)"
  shows "\<exists>a. sum_hash h [] = Inr [(cid, a)] \<and> sm_minutes a = 1 \<and> (\<forall>f \<in> set SUM_FIELDS. sm_count a f = n f)"
proof -
  have d: "distinct SUM_FIELDS" by (simp add: SUM_FIELDS_def)
  let ?acc = "\<lparr>sm_count = (\<lambda>_. 0), sm_minutes = 0,
      sm_advertiser = (case map_of h ''advertiser'' of None \<Rightarrow> [] | Some x \<Rightarrow> x),
      sm_name = (case map_of h ''campaign_name'' of None \<Rightarrow> [] | Some x \<Rightarrow> x)\<rparr>"
  obtain acc where acc: "add_fields SUM_FIELDS h ?acc = Inr acc"
    using assms(2) by (auto simp: SUM_FIELDS_def)
  have "sum_hash h [] = Inr [(cid, acc\<lparr>sm_minutes := 1\<rparr>)]"
    using acc add_fields_counts [OF d acc] by (simp add: sum_hash_def assms(1) Let_def)
  moreover have "\<forall>f \<in> set SUM_FIELDS. sm_count acc f = n f"
    using add_fields_counts [OF d acc] by (simp add: field_value_def assms(2))
  ultimately show ?thesis by (intro exI [of _ "acc\<lparr>sm_minutes := 1\<rparr>"]) simp
qed

section \<open>Properties\<close>

definition demo_wcfg :: wcfg where
  "demo_wcfg = \<lparr>wc_ttl = 172800, wc_repr = (\<lambda>_. []), wc_dumps = py_str (\<lambda>_. [])\<rparr>"

definition demo_agg :: "string \<Rightarrow> int \<Rightarrow> dict" where
  "demo_agg ws n = [(''campaign_id'', PStr ''c1''), (''window_start'', PStr ws), (''window_end'', PStr ws),
     (''impressions'', PInt n)]"

definition demo_polls :: "polled list" where
  "demo_polls = [PollMsg ''alert.anomaly'' (Some (PStr ''a'')) 0 [], PollMsg ''late.events'' (Some (PDict [])) 0 [],
     PollMsg ''alert.anomaly'' (Some (PStr ''b'')) 0 []]"



text \<open>Redis never answers WRONGTYPE. Whatever was polled before, and whatever transactions
  failed, the next transaction the writer runs touches only keys that are empty or of its
  command's type.\<close>

theorem redis_never_mistyped:
  assumes "redis_ok r" "rd_view r (snd s) = rview_empty" "planned cfg p = Some cs"
  shows "cmds_typed cs (rd_view r (snd (writer_run r cfg ps s)))"
proof -
  have "owned (rd_view r (snd (writer_run r cfg ps s)))"
    by (induction ps rule: rev_induct)
      (simp_all add: writer_run_def assms(2) owned_empty writer_step_owned [OF assms(1)])
  then show ?thesis using owned_cmds planned_owned [OF assms(3)] by blast
qed

theorem redis_never_mistyped_witness:
  "cmds_typed (alert_commands demo_wcfg PNone)
     (rd_view view_redis (snd (writer_run view_redis demo_wcfg demo_polls (wstats_init, rview_empty))))"
proof -
  have "planned demo_wcfg (PollMsg ''alert.anomaly'' (Some PNone) 0 []) = Some (alert_commands demo_wcfg PNone)"
    by (simp add: planned_def)
  from redis_never_mistyped [OF view_redis_ok(1) _ this] show ?thesis by (simp add: view_redis_def)
qed

text \<open>The writer's counters account for every polled item. Each one adds one to exactly one of
  \<open>agg\<close>, \<open>late\<close>, \<open>alert\<close> and \<open>err\<close>, except an empty poll, the end of a partition and a late event
  without an event time, which add nothing; this holds for any Redis.\<close>

theorem writer_counts_every_item:
  "counted (fst (writer_run r cfg ps s)) = counted (fst s) + int (length (filter (\<lambda>p. \<not> silent p) ps))"
  by (induction ps arbitrary: s) (simp_all add: writer_run_def writer_step_counts)

text \<open>C22: a message that fails writes nothing. When transactions themselves do not fail, an item that
  raises the error counter (undecodable JSON, a missing key, a bad time, a value Redis cannot
  store, an unknown topic) leaves the store as it was.\<close>

theorem failed_message_writes_nothing:
  assumes "\<And>cs db. fst (rd_exec r cs db) = None" "ws_err (fst (writer_step r cfg p s)) \<noteq> ws_err (fst s)"
  shows "snd (writer_step r cfg p s) = snd s"
proof (cases p)
  case (PollMsg topic body now upd)
  show ?thesis
  proof (cases body)
    case (Some d)
    obtain x s' where d: "dispatch r cfg topic now upd d s = (x, s')" by (metis surj_pair)
    have "x \<noteq> None"
      using assms(2) dispatch_counts [OF d] by (cases x) (simp_all add: writer_step_def PollMsg Some d)
    then obtain y where "x = Some y" by blast
    with dispatch_raised [OF assms(1)] d have "s' = s" by blast
    with \<open>x = Some y\<close> d show ?thesis by (simp add: writer_step_def PollMsg Some bump_err_def)
  qed (simp add: writer_step_def PollMsg bump_err_def)
qed (auto simp: writer_step_def bump_err_def)

theorem failed_message_writes_nothing_witness:
  "snd (writer_step view_redis demo_wcfg (PollMsg ''agg.minute'' (Some (PDict [])) 0 []) (wstats_init, rview_empty)) = rview_empty"
proof -
  have "ws_err (fst (writer_step view_redis demo_wcfg (PollMsg ''agg.minute'' (Some (PDict [])) 0 []) (wstats_init, rview_empty)))
      \<noteq> ws_err (fst (wstats_init, rview_empty))"
    by (simp add: writer_step_def dispatch_def handle_agg_def agg_commands_def agg_row_def dsub_def bump_err_def)
  from failed_message_writes_nothing [OF view_redis_ok(2) this] show ?thesis by simp
qed

text \<open>C23: an aggregate read back. When the handler stores a message whose campaign id is a nonempty
  string and whose five counts are integers within 2^53 or absent, summing just that hash gives one
  campaign with exactly those counts (absent ones 0) over one minute.\<close>

theorem stored_aggregate_reads_back:
  assumes "agg_row cfg upd d = Inr (k, ep, mem, h)" "dget d ''campaign_id'' = PStr cid" "cid \<noteq> []"
    and "\<forall>f \<in> set SUM_FIELDS. dget d f = PInt (n f) \<and> \<bar>n f\<bar> \<le> 2 ^ 53 \<or> dget d f = PNone \<and> n f = 0"
  shows "\<exists>a. sum_hash h [] = Inr [(cid, a)] \<and> sm_minutes a = 1 \<and> (\<forall>f \<in> set SUM_FIELDS. sm_count a f = n f)"
  by (rule sum_hash_fresh [OF agg_row_cid [OF assms(1-3)]], rule agg_row_value [OF assms(1)]) (use assms(4) in auto)

theorem stored_aggregate_reads_back_witness:
  "\<exists>k ep mem h a. agg_row demo_wcfg [] (demo_agg ''2026-09-12T10:22:00Z'' 7) = Inr (k, ep, mem, h) \<and>
     sum_hash h [] = Inr [(''c1'', a)] \<and> sm_count a ''impressions'' = 7"
proof -
  let ?d = "demo_agg ''2026-09-12T10:22:00Z'' 7"
  have "\<not> isl (agg_row demo_wcfg [] ?d)" by code_simp
  from not_isl_Inr [OF this] obtain row where row: "agg_row demo_wcfg [] ?d = Inr row" ..
  obtain k ep mem h where "row = (k, ep, mem, h)" by (metis surj_pair)
  with row have r: "agg_row demo_wcfg [] ?d = Inr (k, ep, mem, h)" by (simp only:)
  have n: "\<forall>f \<in> set SUM_FIELDS. dget ?d f = PInt (((\<lambda>_. 0)(''impressions'' := 7)) f) \<and>
      \<bar>((\<lambda>_. 0)(''impressions'' := 7)) f\<bar> \<le> (2 :: int) ^ 53 \<or> dget ?d f = PNone \<and> ((\<lambda>_. 0)(''impressions'' := 7)) f = (0 :: int)"
    by (simp add: SUM_FIELDS_def demo_agg_def dget_def)
  have c: "dget ?d ''campaign_id'' = PStr ''c1''" "''c1'' \<noteq> []" by (simp_all add: demo_agg_def dget_def)
  have "''impressions'' \<in> set SUM_FIELDS" by (simp add: SUM_FIELDS_def)
  with stored_aggregate_reads_back [OF r c n] obtain a where
    a: "sum_hash h [] = Inr [(''c1'', a)]" "sm_count a ''impressions'' = 7" by auto
  show ?thesis by (intro exI conjI) (rule r a)+
qed

text \<open>The summary's ranges are half open and add up. When the range from \<open>f\<close> to \<open>t\<close> (rounded down
  to minutes, as \<open>/agg/summary\<close> does) can be summed, so can the ranges up to and from any point in
  between, and each campaign's counts are the sums of the two parts: no minute is counted twice or
  left out.\<close>

theorem summary_ranges_add_up:
  assumes "sum_range v (f div 60 * 60) (t div 60 * 60 - 1) = Inr out" "f \<le> m" "m \<le> t"
  shows "\<exists>out1 out2. sum_range v (f div 60 * 60) (m div 60 * 60 - 1) = Inr out1 \<and>
    sum_range v (m div 60 * 60) (t div 60 * 60 - 1) = Inr out2 \<and>
    (\<forall>cid. \<forall>fld \<in> set SUM_FIELDS. tally_of out cid fld = tally_of out1 cid fld + tally_of out2 cid fld)"
proof -
  let ?lo = "f div 60 * 60" and ?mid = "m div 60 * 60" and ?hi = "t div 60 * 60"
  have "?lo \<le> ?mid" "?mid \<le> ?hi" using assms(2, 3) by (simp_all add: zdiv_mono1)
  note split = range_hashes_split [OF this, of v]
  let ?ok = "\<lambda>h. hash_cid h \<noteq> None \<longrightarrow> (\<forall>f \<in> set SUM_FIELDS. \<exists>n. num_field h f = Inr n)"
  have "\<forall>h \<in> set (range_hashes v ?lo (?hi - 1)). ?ok h"
    using assms(1) sum_range_parses [of v ?lo "?hi - 1"] by simp
  moreover have "set (range_hashes v ?lo (?hi - 1)) = set (range_hashes v ?lo (?mid - 1)) \<union> set (range_hashes v ?mid (?hi - 1))"
    using arg_cong [OF split, of set_mset] by simp
  ultimately have "\<forall>h \<in> set (range_hashes v ?lo (?mid - 1)). ?ok h" "\<forall>h \<in> set (range_hashes v ?mid (?hi - 1)). ?ok h"
    by simp_all
  then obtain out1 out2 where o: "sum_range v ?lo (?mid - 1) = Inr out1" "sum_range v ?mid (?hi - 1) = Inr out2"
    unfolding sum_range_parses [symmetric] by blast
  have "tally_of out cid fld = tally_of out1 cid fld + tally_of out2 cid fld" if "fld \<in> set SUM_FIELDS" for cid fld
  proof -
    note s = sum_list_mset_eq [of "range_hashes v ?lo (?hi - 1)" "range_hashes v ?lo (?mid - 1) @ range_hashes v ?mid (?hi - 1)"]
    show ?thesis
      using s split sum_range_counts [OF assms(1) that] sum_range_counts [OF o(1) that] sum_range_counts [OF o(2) that]
      by simp
  qed
  with o show ?thesis by blast
qed

theorem summary_ranges_add_up_witness:
  "\<exists>out1 out2. sum_range rview_empty (0 div 60 * 60) (90 div 60 * 60 - 1) = Inr out1 \<and>
     sum_range rview_empty (90 div 60 * 60) (200 div 60 * 60 - 1) = Inr out2"
proof -
  have "sum_range rview_empty (0 div 60 * 60) (200 div 60 * 60 - 1) = Inr []"
    by (simp add: sum_range_def rview_empty_def zrangebyscore_def)
  from summary_ranges_add_up [OF this, of 90] show ?thesis by auto
qed

text \<open>The dashboard's series and its summary agree. Every row of \<open>/agg/series\<close> lies in the window
  of the last \<open>mins\<close> minutes (up to one minute ahead), and for each campaign the rows' counts sum to
  what \<open>_sum_range\<close> gives for the same window.\<close>

theorem series_agrees_with_summary:
  assumes "agg_series v t mins = Inr (rows, late)"
    and "sum_range v (t div 60 * 60 - mins * 60) (t div 60 * 60 + 60) = Inr out" "cid \<noteq> []"
  shows "(\<forall>r \<in> set rows. t div 60 * 60 - mins * 60 \<le> sr_minute r \<and> sr_minute r \<le> t div 60 * 60 + 60) \<and>
    (\<forall>fld \<in> set SUM_FIELDS. (\<Sum>r\<leftarrow>filter (\<lambda>r. sr_cid r = Some cid) rows. sr_count r fld) = tally_of out cid fld)"
proof -
  let ?ks = "zrangebyscore (rv_zset v ''agg:index'') (t div 60 * 60 - mins * 60) (t div 60 * 60 + 60)"
  have rows: "series_rows v ?ks = Inr rows"
    using assms(1) by (auto simp: agg_series_def Let_def rbind_eq_Inr_iff split: if_splits)
  have "snd ` set ?ks \<subseteq> {t div 60 * 60 - mins * 60 .. t div 60 * 60 + 60}"
    by (auto simp: zrangebyscore_def)
  then have "\<forall>r \<in> set rows. t div 60 * 60 - mins * 60 \<le> sr_minute r \<and> sr_minute r \<le> t div 60 * 60 + 60"
    using series_rows_minutes [OF rows] by fastforce
  moreover have "(\<Sum>r\<leftarrow>filter (\<lambda>r. sr_cid r = Some cid) rows. sr_count r fld) = tally_of out cid fld"
    if "fld \<in> set SUM_FIELDS" for fld
    using series_rows_counts [OF rows assms(3) that] sum_range_counts [OF assms(2) that]
    by (simp add: range_hashes_def)
  ultimately show ?thesis by blast
qed

definition demo_view :: rview where
  "demo_view = rview_empty\<lparr>
     rv_hash := (\<lambda>_. [])(''agg:1m:c1:197001010001'' := [(''campaign_id'', ''c1''), (''impressions'', ''4'')]),
     rv_zset := (\<lambda>_. [])(''agg:index'' := [(''agg:1m:c1:197001010001'', 60)]),
     rv_list := (\<lambda>_. [])(''alerts:recent'' := [''b'', ''a''])\<rparr>"

theorem series_agrees_with_summary_witness:
  "\<exists>rows late out. agg_series demo_view 60 0 = Inr (rows, late) \<and> tally_of out ''c1'' ''impressions'' = 4 \<and>
     (\<Sum>r\<leftarrow>filter (\<lambda>r. sr_cid r = Some ''c1'') rows. sr_count r ''impressions'') = 4"
proof -
  have four: "num_field [(''campaign_id'', ''c1''), (''impressions'', ''4'')] ''impressions'' = Inr 4"
    by code_simp
  have zero: "num_field [(''campaign_id'', ''c1''), (''impressions'', ''4'')] f = Inr 0"
    if "f \<in> {''clicks'', ''completes'', ''requests'', ''ssai_dupes''}" for f
    using that by (auto simp: num_field_def)
  have ok: "datetime_ok 60" by code_simp
  have z: "zrangebyscore (rv_zset demo_view ''agg:index'') 60 120 = [(''agg:1m:c1:197001010001'', 60)]"
    by (simp add: zrangebyscore_def demo_view_def)
  have h: "rv_hash demo_view ''agg:1m:c1:197001010001'' = [(''campaign_id'', ''c1''), (''impressions'', ''4'')]"
    by (simp add: demo_view_def)
  obtain rows late where s: "agg_series demo_view 60 0 = Inr (rows, late)"
    by (simp add: agg_series_def ok z h SUM_FIELDS_def four zero)
  obtain out where r: "sum_range demo_view 60 120 = Inr out" "tally_of out ''c1'' ''impressions'' = 4"
    by (simp add: sum_range_def z h sum_hash_def hash_cid_def SUM_FIELDS_def four zero tally_of_def)
  from series_agrees_with_summary [OF s, of out "''c1''"] r s show ?thesis
    by (auto simp: SUM_FIELDS_def)
qed

text \<open>The limit of the alerts query. A positive limit returns that many of the newest alerts (all
  when there are fewer); a limit of 0 returns every alert of the list, not none.\<close>

theorem alerts_limit:
  "(0 < n \<longrightarrow> alerts_query v n = take (nat n) (rv_list v ''alerts:recent'')) \<and>
   alerts_query v 0 = rv_list v ''alerts:recent''"
  by (simp add: alerts_query_def list_range_def Let_def)

theorem alerts_limit_witness: "alerts_query demo_view 1 = [''b'']"
  using alerts_limit [of 1 demo_view] by (simp add: demo_view_def)

end
