(* ===== verification/Settlement.thy ===== *)
theory Settlement
  imports Prelude "HOL-Library.Product_Lexorder"
begin

text \<open>
  The batch settlement (\<open>spark/batch_settlement.py\<close>): deduplication by event id, selection among
  SSAI twins by source priority, the daily settlement rows and the minute rows.

  A \<open>row\<close> is a row of the Parquet archive; \<open>None\<close> is SQL's NULL, conditions are three-valued and a
  filter keeps only what is true.  Times are milliseconds, the session's time zone is UTC.  Spark's
  operators (filter, \<open>row_number = 1\<close> over a window, grouped count, left and full outer join) are a
  parameter; \<open>spark_ok\<close> states their documented meaning up to the order of rows, with the choice
  among tied rows left open.  Amounts are exact rationals where Spark computes in doubles.
\<close>

section \<open>Rows and conditions\<close>

record row =
  r_event_id :: "string option"
  r_type :: "string option"
  r_cid :: "string option"
  r_time :: "int option"
  r_topic :: "string option"
  r_source :: "string option"
  r_arid :: "string option"
  r_quartile :: "string option"
  r_fill :: "bool option"
  r_late :: "bool option"

definition NON_CAMPAIGN :: "string list" where
  "NON_CAMPAIGN = [''none'', ''nofill'', ''pending'']"

definition eq3 :: "'a option \<Rightarrow> 'a \<Rightarrow> bool option" where
  \<comment> \<open>\<open>col == v\<close>\<close>
  "eq3 x a = map_option (\<lambda>y. y = a) x"

definition and3 :: "bool option \<Rightarrow> bool option \<Rightarrow> bool option" where
  "and3 p q = (if p = Some False \<or> q = Some False then Some False
     else if p = None \<or> q = None then None else Some True)"

definition holds3 :: "bool option \<Rightarrow> bool" where
  "holds3 p \<longleftrightarrow> p = Some True"

lemma holds3_simps [simp]:
  "holds3 (eq3 x a) \<longleftrightarrow> x = Some a" "holds3 (and3 p q) \<longleftrightarrow> holds3 p \<and> holds3 q"
  by (auto simp: holds3_def eq3_def and3_def)

definition not_non_campaign :: "row \<Rightarrow> bool option" where
  \<comment> \<open>\<open>~col("campaign_id").isin(NON_CAMPAIGN)\<close>\<close>
  "not_non_campaign r = map_option (\<lambda>c. c \<notin> set NON_CAMPAIGN) (r_cid r)"

definition is_impression :: "row \<Rightarrow> bool" where
  "is_impression r = holds3 (eq3 (r_type r) ''impression'')"

definition is_click :: "row \<Rightarrow> bool" where
  "is_click r = holds3 (eq3 (r_type r) ''click'')"

definition is_completion :: "row \<Rightarrow> bool" where
  "is_completion r = holds3 (and3 (eq3 (r_type r) ''quartile'') (eq3 (r_quartile r) ''complete''))"

definition is_filled_response :: "row \<Rightarrow> bool" where
  "is_filled_response r = holds3 (and3 (eq3 (r_type r) ''ad_response'') (eq3 (r_fill r) True))"

section \<open>Spark\<close>

type_synonym key = "int option \<times> string option"
type_synonym table = "nat \<times> (key \<times> int option list) list"
  \<comment> \<open>the number of value columns, and rows of a key and that many values\<close>

definition null_key :: "key \<Rightarrow> bool" where
  "null_key k \<longleftrightarrow> fst k = None \<or> snd k = None"

record spark =
  sp_filter :: "(row \<Rightarrow> bool) \<Rightarrow> row list \<Rightarrow> row list"
  sp_first :: "(row \<Rightarrow> string option) \<Rightarrow> (row \<Rightarrow> row \<Rightarrow> bool) \<Rightarrow> row list \<Rightarrow> row list"
  sp_count :: "(row \<Rightarrow> key) \<Rightarrow> row list \<Rightarrow> table"
  sp_left :: "table \<Rightarrow> table \<Rightarrow> table"
  sp_full :: "table \<Rightarrow> table \<Rightarrow> table"

definition matches :: "key \<Rightarrow> table \<Rightarrow> (key \<times> int option list) list" where
  \<comment> \<open>the rows of a table a join on equal keys pairs with \<open>k\<close>; a NULL equals nothing\<close>
  "matches k t = filter (\<lambda>(k', ds). \<not> null_key k \<and> k' = k) (snd t)"

definition left_rows :: "table \<Rightarrow> table \<Rightarrow> (key \<times> int option list) list" where
  "left_rows l r = concat (map (\<lambda>(k, cs).
     if matches k r = [] then [(k, cs @ replicate (fst r) None)]
     else map (\<lambda>(k', ds). (k, cs @ ds)) (matches k r)) (snd l))"

definition right_only :: "table \<Rightarrow> table \<Rightarrow> (key \<times> int option list) list" where
  "right_only l r = map (\<lambda>(k, ds). (k, replicate (fst l) None @ ds)) (filter (\<lambda>(k, ds). matches k l = []) (snd r))"

definition preorder :: "(row \<Rightarrow> row \<Rightarrow> bool) \<Rightarrow> bool" where
  "preorder le \<longleftrightarrow> (\<forall>x y. le x y \<or> le y x) \<and> (\<forall>x y z. le x y \<longrightarrow> le y z \<longrightarrow> le x z)"

definition is_first :: "(row \<Rightarrow> string option) \<Rightarrow> (row \<Rightarrow> row \<Rightarrow> bool) \<Rightarrow> row list \<Rightarrow> row list \<Rightarrow> bool" where
  \<comment> \<open>one row of each group, one that no row of the group comes before\<close>
  "is_first g le xs ys \<longleftrightarrow> mset ys \<subseteq># mset xs \<and> distinct (map g ys) \<and> g ` set ys = g ` set xs \<and>
     (\<forall>y \<in> set ys. \<forall>x \<in> set xs. g x = g y \<longrightarrow> le y x)"

definition is_count :: "(row \<Rightarrow> key) \<Rightarrow> row list \<Rightarrow> table \<Rightarrow> bool" where
  "is_count g xs t \<longleftrightarrow> fst t = 1 \<and> distinct (map fst (snd t)) \<and>
     (\<forall>k cs. (k, cs) \<in> set (snd t) \<longleftrightarrow> k \<in> g ` set xs \<and> cs = [Some (int (length (filter (\<lambda>x. g x = k) xs)))])"

definition filter_ok :: "spark \<Rightarrow> bool" where
  "filter_ok sp \<longleftrightarrow> (\<forall>p xs. mset (sp_filter sp p xs) = mset (filter p xs))"

definition first_ok :: "spark \<Rightarrow> bool" where
  "first_ok sp \<longleftrightarrow> (\<forall>g le xs. preorder le \<longrightarrow> is_first g le xs (sp_first sp g le xs))"

definition count_ok :: "spark \<Rightarrow> bool" where
  "count_ok sp \<longleftrightarrow> (\<forall>g xs. is_count g xs (sp_count sp g xs))"

definition join_ok :: "spark \<Rightarrow> bool" where
  "join_ok sp \<longleftrightarrow> (\<forall>l r. fst (sp_left sp l r) = fst l + fst r \<and> fst (sp_full sp l r) = fst l + fst r \<and>
     mset (snd (sp_left sp l r)) = mset (left_rows l r) \<and>
     mset (snd (sp_full sp l r)) = mset (left_rows l r @ right_only l r))"

definition spark_ok :: "spark \<Rightarrow> bool" where
  "spark_ok sp \<longleftrightarrow> filter_ok sp \<and> first_ok sp \<and> count_ok sp \<and> join_ok sp"

lemma spark_filter: "spark_ok sp \<Longrightarrow> mset (sp_filter sp p xs) = mset (filter p xs)"
  by (simp add: spark_ok_def filter_ok_def)

lemma spark_first: "spark_ok sp \<Longrightarrow> preorder le \<Longrightarrow> is_first g le xs (sp_first sp g le xs)"
  by (simp add: spark_ok_def first_ok_def)

lemma spark_count: "spark_ok sp \<Longrightarrow> is_count g xs (sp_count sp g xs)"
  by (simp add: spark_ok_def count_ok_def)

lemma spark_joins:
  assumes "spark_ok sp"
  shows "fst (sp_left sp l r) = fst l + fst r" "mset (snd (sp_left sp l r)) = mset (left_rows l r)"
    "fst (sp_full sp l r) = fst l + fst r" "mset (snd (sp_full sp l r)) = mset (left_rows l r @ right_only l r)"
  using assms unfolding spark_ok_def join_ok_def by blast+

lemma preorder_key: "preorder (\<lambda>x y. f x \<le> f y)" for f :: "row \<Rightarrow> 'k::linorder"
  by (auto simp: preorder_def)

text \<open>A Spark on lists, the earliest of tied rows first.\<close>

fun first_rows :: "(row \<Rightarrow> string option) \<Rightarrow> (row \<Rightarrow> row \<Rightarrow> bool) \<Rightarrow> row list \<Rightarrow> row list" where
  "first_rows g le [] = []"
| "first_rows g le (x # xs) =
     (let ys = first_rows g le xs in
      case find (\<lambda>y. g y = g x) ys of
        None \<Rightarrow> x # ys
      | Some y \<Rightarrow> if le x y then x # remove1 y ys else ys)"

definition list_spark :: spark where
  "list_spark = \<lparr>sp_filter = filter, sp_first = first_rows,
     sp_count = (\<lambda>g xs. (1, map (\<lambda>k. (k, [Some (int (length (filter (\<lambda>x. g x = k) xs)))])) (remdups (map g xs)))),
     sp_left = (\<lambda>l r. (fst l + fst r, left_rows l r)),
     sp_full = (\<lambda>l r. (fst l + fst r, left_rows l r @ right_only l r))\<rparr>"

lemma first_rows_ok: "preorder le \<Longrightarrow> is_first g le xs (first_rows g le xs)"
proof (induction xs)
  case Nil
  then show ?case by (simp add: is_first_def)
next
  case (Cons x xs)
  let ?ys = "first_rows g le xs"
  have refl: "le y y" for y using Cons.prems by (auto simp: preorder_def)
  have ys: "mset ?ys \<subseteq># mset xs" "distinct (map g ?ys)" "g ` set ?ys = g ` set xs"
    "\<And>y z. y \<in> set ?ys \<Longrightarrow> z \<in> set xs \<Longrightarrow> g z = g y \<Longrightarrow> le y z"
    using Cons by (auto simp: is_first_def)
  have sub: "set ?ys \<subseteq> set xs" using ys(1) by (metis set_mset_mono set_mset_mset)
  show ?case
  proof (cases "find (\<lambda>y. g y = g x) ?ys")
    case None
    then have new: "g x \<notin> g ` set ?ys" by (auto simp: find_None_iff)
    then have "first_rows g le (x # xs) = x # ?ys" by (simp add: None)
    moreover have "g z \<noteq> g x" if "z \<in> set xs" for z using new that ys(3) by (metis imageI)
    ultimately show ?thesis
      using new ys refl by (auto simp: is_first_def)
  next
    case (Some y)
    then have y: "y \<in> set ?ys" "g y = g x" by (auto simp: find_Some_iff)
    show ?thesis
    proof (cases "le x y")
      case True
      have tr: "le x z" if "le y z" for z using True that Cons.prems by (auto simp: preorder_def)
      have other: "g z \<noteq> g x" if "z \<in> set (remove1 y ?ys)" for z
        using that ys(2) y by (auto simp: distinct_map inj_on_def dest: notin_set_remove1)
      have "mset (x # remove1 y ?ys) \<subseteq># mset (x # xs)"
        using ys(1) by (simp add: subset_mset.order_trans [OF diff_subset_eq_self])
      moreover have "distinct (map g (x # remove1 y ?ys))"
      proof -
        have "g x \<notin> g ` set (remove1 y ?ys)" using other by (metis imageE)
        moreover have "inj_on g (set (remove1 y ?ys))"
          using ys(2) set_remove1_subset inj_on_subset by (metis distinct_map)
        ultimately show ?thesis using ys(2) by (simp add: distinct_map)
      qed
      moreover have "g ` set (x # remove1 y ?ys) = g ` set (x # xs)"
      proof -
        have "set (remove1 y ?ys) = set ?ys - {y}" using ys(2) by (simp add: distinct_map)
        moreover have "g ` set ?ys = insert (g y) (g ` (set ?ys - {y}))" using y(1) by blast
        ultimately show ?thesis using ys(3) y(2) by auto
      qed
      moreover have "\<forall>u \<in> set (x # remove1 y ?ys). \<forall>z \<in> set (x # xs). g z = g u \<longrightarrow> le u z"
      proof (intro ballI impI)
        fix u z
        assume u: "u \<in> set (x # remove1 y ?ys)" and z: "z \<in> set (x # xs)" and eq: "g z = g u"
        show "le u z"
        proof (cases "u = x")
          case True
          then show ?thesis using z eq refl tr ys(4) [OF y(1), of z] y(2) by auto
        next
          case False
          then have ur: "u \<in> set (remove1 y ?ys)" using u by simp
          with other eq have "z \<noteq> x" by metis
          moreover have "u \<in> set ?ys" using ur set_remove1_subset by (rule rev_subsetD)
          ultimately show ?thesis using z ys(4) eq by auto
        qed
      qed
      ultimately show ?thesis using Some True by (simp add: is_first_def)
    next
      case False
      have "le y x" using False Cons.prems by (auto simp: preorder_def)
      moreover have "u = y" if "u \<in> set ?ys" "g x = g u" for u
        using that y ys(2) by (metis distinct_map inj_onD)
      ultimately have "\<forall>u \<in> set ?ys. \<forall>z \<in> set (x # xs). g z = g u \<longrightarrow> le u z"
        using ys(4) by (metis set_ConsD)
      moreover have "mset ?ys \<subseteq># mset (x # xs)"
        using subset_mset.order_trans [OF ys(1)] by (simp add: subset_mset.le_iff_add)
      moreover have "g ` set ?ys = g ` set (x # xs)"
      proof -
        have "g x \<in> g ` set xs" using y ys(3) by (metis imageI)
        then show ?thesis using ys(3) by (simp add: insert_absorb)
      qed
      ultimately have "is_first g le (x # xs) ?ys" using ys(2) by (simp only: is_first_def simp_thms)
      then show ?thesis using Some False by simp
    qed
  qed
qed

lemma list_spark_ok: "spark_ok list_spark"
  by (auto simp: spark_ok_def filter_ok_def first_ok_def count_ok_def join_ok_def list_spark_def first_rows_ok
      is_count_def distinct_map inj_on_def comp_def)

section \<open>The job\<close>

definition strip :: "string \<Rightarrow> string" where
  "strip s = (let ws = (\<lambda>c. (of_char c :: nat) \<in> {9, 10, 11, 12, 13, 28, 29, 30, 31, 32})
     in rev (dropWhile ws (rev (dropWhile ws s))))"

definition evt_key :: "row \<Rightarrow> (nat \<times> int) \<times> (nat \<times> string)" where
  \<comment> \<open>\<open>event_time\<close> ascending with NULL last, then \<open>source_topic\<close> ascending (NULL first)\<close>
  "evt_key r = (case r_time r of None \<Rightarrow> (1, 0) | Some t \<Rightarrow> (0, t),
                case r_topic r of None \<Rightarrow> (0, []) | Some s \<Rightarrow> (1, s))"

definition ssai_prio :: "string list \<Rightarrow> string option \<Rightarrow> nat" where
  \<comment> \<open>the chain of \<open>when ... otherwise\<close> the loop over the reversed list builds\<close>
  "ssai_prio ps src = foldl (\<lambda>prio (i, s). if holds3 (eq3 src (strip s)) then length ps - 1 - i else prio)
     (length ps + 1) (enumerate 0 (rev ps))"

definition ssai_group :: "row \<Rightarrow> string option" where
  \<comment> \<open>\<open>coalesce(ad_request_id, event_id)\<close>\<close>
  "ssai_group r = (if r_arid r \<noteq> None then r_arid r else r_event_id r)"

definition ssai_key :: "string list \<Rightarrow> row \<Rightarrow> nat \<times> (nat \<times> int) \<times> (nat \<times> string)" where
  "ssai_key ps r = (ssai_prio ps (r_source r),
     (case r_time r of None \<Rightarrow> (1, 0) | Some t \<Rightarrow> (0, t)),
     (case r_event_id r of None \<Rightarrow> (0, []) | Some s \<Rightarrow> (1, s)))"

definition raw_rows :: "spark \<Rightarrow> row list \<Rightarrow> row list" where
  "raw_rows sp parquet = sp_filter sp (\<lambda>r. r_event_id r \<noteq> None) parquet"

definition dedup :: "spark \<Rightarrow> row list \<Rightarrow> row list" where
  "dedup sp raw = sp_first sp r_event_id (\<lambda>x y. evt_key x \<le> evt_key y) raw"

definition imp_all :: "spark \<Rightarrow> row list \<Rightarrow> row list" where
  "imp_all sp ded = sp_filter sp (\<lambda>r. holds3 (not_non_campaign r)) (sp_filter sp is_impression ded)"

definition imp_kept :: "spark \<Rightarrow> string list \<Rightarrow> row list \<Rightarrow> row list" where
  "imp_kept sp ps imps = sp_first sp ssai_group (\<lambda>x y. ssai_key ps x \<le> ssai_key ps y) imps"

definition base_rows :: "spark \<Rightarrow> row list \<Rightarrow> row list" where
  "base_rows sp ded = sp_filter sp (\<lambda>r. r_cid r \<noteq> None) (sp_filter sp (\<lambda>r. holds3 (not_non_campaign r)) ded)"

definition day_key :: "row \<Rightarrow> key" where
  \<comment> \<open>\<open>to_date(event_time)\<close>, \<open>campaign_id\<close>\<close>
  "day_key r = (map_option (\<lambda>t. t div 86400000) (r_time r), r_cid r)"

definition minute_key :: "row \<Rightarrow> key" where
  \<comment> \<open>\<open>date_trunc("minute", event_time)\<close>, in minutes\<close>
  "minute_key r = (map_option (\<lambda>t. t div 60000) (r_time r), r_cid r)"

definition fill0 :: "int option list \<Rightarrow> int list" where
  "fill0 cs = map (\<lambda>c. case c of None \<Rightarrow> 0 | Some n \<Rightarrow> n) cs"

definition daily_table :: "spark \<Rightarrow> string list \<Rightarrow> row list \<Rightarrow> table" where
  \<comment> \<open>\<open>agg\<close>: raw_impressions, impressions, clicks, completes, requests, imp_rows_raw, late_impressions\<close>
  "daily_table sp ps raw =
     (let ded = dedup sp raw; imps = imp_all sp ded; imp = imp_kept sp ps imps; base = base_rows sp ded;
          clicks = sp_count sp day_key (sp_filter sp is_click base);
          completes = sp_count sp day_key (sp_filter sp is_completion base);
          requests = sp_count sp day_key (sp_filter sp is_filled_response base);
          imp_agg = sp_count sp day_key imp;
          raw_imp_agg = sp_count sp day_key imps;
          imp_raw_rows = sp_count sp day_key
            (sp_filter sp (\<lambda>r. r_cid r \<noteq> None) (sp_filter sp (\<lambda>r. holds3 (not_non_campaign r)) (sp_filter sp is_impression raw)));
          late_imp = sp_count sp day_key (sp_filter sp (\<lambda>r. holds3 (eq3 (r_late r) True)) imp)
      in sp_left sp (sp_left sp (sp_left sp (sp_left sp (sp_left sp (sp_left sp raw_imp_agg imp_agg) clicks)
           completes) requests) imp_raw_rows) late_imp)"

record settled =
  sd_dt :: "int option"
  sd_cid :: "string option"
  sd_requests :: int
  sd_impressions :: int
  sd_clicks :: int
  sd_completes :: int
  sd_raw :: int
  sd_dupes :: int
  sd_late :: int
  sd_cpm :: rat
  sd_amount :: rat

definition round2 :: "rat \<Rightarrow> rat" where
  \<comment> \<open>\<open>round(x, 2)\<close>: half away from zero\<close>
  "round2 x = (if 0 \<le> x then of_int \<lfloor>x * 100 + 1 / 2\<rfloor> / 100 else - (of_int \<lfloor>- x * 100 + 1 / 2\<rfloor> / 100))"

definition settle_row :: "(string \<rightharpoonup> rat) \<Rightarrow> key \<times> int option list \<Rightarrow> settled" where
  \<comment> \<open>the join with \<open>campaign_rates\<close> (one row per campaign) and the computed columns\<close>
  "settle_row rates kc =
     (let k = fst kc; v = fill0 (snd kc);
          cpm = (case Option.bind (snd k) rates of None \<Rightarrow> 0 | Some x \<Rightarrow> x)
      in \<lparr>sd_dt = fst k, sd_cid = snd k, sd_requests = v ! 4, sd_impressions = v ! 1, sd_clicks = v ! 2,
          sd_completes = v ! 3, sd_raw = v ! 0, sd_dupes = v ! 5 - v ! 0, sd_late = v ! 6,
          sd_cpm = cpm, sd_amount = round2 (of_int (v ! 1) / 1000 * cpm)\<rparr>)"

definition minute_table :: "spark \<Rightarrow> string list \<Rightarrow> row list \<Rightarrow> table" where
  \<comment> \<open>\<open>minute_df\<close>: impressions, raw_impressions, clicks, completes, requests\<close>
  "minute_table sp ps raw =
     (let ded = dedup sp raw; imps = imp_all sp ded; imp = imp_kept sp ps imps; base = base_rows sp ded
      in sp_full sp (sp_full sp (sp_full sp (sp_full sp
           (sp_count sp minute_key imp) (sp_count sp minute_key imps))
           (sp_count sp minute_key (sp_filter sp is_click base)))
           (sp_count sp minute_key (sp_filter sp is_completion base)))
           (sp_count sp minute_key (sp_filter sp is_filled_response base)))"

definition settlement_job ::
    "spark \<Rightarrow> string list \<Rightarrow> (string \<rightharpoonup> rat) \<Rightarrow> row list \<Rightarrow> (settled list \<times> (key \<times> int list) list) option" where
  \<comment> \<open>\<open>main\<close>: \<open>None\<close> when it stops without writing because there is no row\<close>
  "settlement_job sp ps rates parquet =
     (let raw = raw_rows sp parquet in
      if raw = [] then None
      else Some (map (settle_row rates) (snd (daily_table sp ps raw)),
                 map (\<lambda>(k, cs). (k, fill0 cs)) (snd (minute_table sp ps raw))))"

section \<open>Tables as functions\<close>

text \<open>
  A table holds at most one row for each key without NULL; joins combine the functions.
\<close>

definition cells :: "table \<Rightarrow> key \<Rightarrow> int option list multiset" where
  "cells t k = image_mset snd (filter_mset (\<lambda>p. fst p = k) (mset (snd t)))"

definition tab :: "table \<Rightarrow> nat \<Rightarrow> (key \<Rightarrow> int option list option) \<Rightarrow> bool" where
  "tab t n f \<longleftrightarrow> fst t = n \<and> (\<forall>k. \<not> null_key k \<longrightarrow> cells t k = (case f k of None \<Rightarrow> {#} | Some cs \<Rightarrow> {#cs#}))"

definition count_at :: "(row \<Rightarrow> key) \<Rightarrow> row list \<Rightarrow> key \<Rightarrow> int" where
  "count_at g xs k = int (length (filter (\<lambda>x. g x = k) xs))"

definition counted :: "(row \<Rightarrow> key) \<Rightarrow> row list \<Rightarrow> key \<Rightarrow> int option list option" where
  "counted g xs k = (if count_at g xs k = 0 then None else Some [Some (count_at g xs k)])"

lemma tab_cells: "tab t n f \<Longrightarrow> \<not> null_key k \<Longrightarrow>
    cells t k = (case f k of None \<Rightarrow> {#} | Some cs \<Rightarrow> {#cs#})"
  unfolding tab_def by blast

lemma tabI: "fst t = n \<Longrightarrow> (\<And>k. \<not> null_key k \<Longrightarrow> cells t k = (case f k of None \<Rightarrow> {#} | Some cs \<Rightarrow> {#cs#})) \<Longrightarrow> tab t n f"
  unfolding tab_def by blast

lemma matches_cells: "\<not> null_key k \<Longrightarrow> mset (map snd (matches k t)) = cells t k"
  by (simp add: matches_def cells_def case_prod_beta)

lemma count_at_mset: "mset xs = mset ys \<Longrightarrow> count_at g xs k = count_at g ys k"
  by (simp add: count_at_def) (metis mset_filter size_mset)

lemma filter_key_le_1: "distinct (map fst xs) \<Longrightarrow> length (filter (\<lambda>p. fst p = k) xs) \<le> 1"
proof (induction xs)
  case (Cons p xs)
  show ?case
  proof (cases "fst p = k")
    case True
    then have "filter (\<lambda>p. fst p = k) xs = []"
    proof -
      have "k \<notin> fst ` set xs" using Cons.prems True by simp
      then have "\<forall>q \<in> set xs. fst q \<noteq> k" by (metis imageI)
      then show ?thesis by (rule filter_False)
    qed
    then show ?thesis by simp
  qed (use Cons in simp)
qed simp

lemma tab_count:
  assumes "is_count g xs t"
  shows "tab t 1 (counted g xs)"
proof -
  have "cells t k = (case counted g xs k of None \<Rightarrow> {#} | Some cs \<Rightarrow> {#cs#})" for k
  proof -
    let ?f = "filter (\<lambda>p. fst p = k) (snd t)"
    have d: "distinct (map fst (snd t))" and m: "\<And>cs. (k, cs) \<in> set (snd t) \<longleftrightarrow>
        k \<in> g ` set xs \<and> cs = [Some (int (length (filter (\<lambda>x. g x = k) xs)))]"
      using assms unfolding is_count_def by blast+
    have "length ?f \<le> 1" using d by (rule filter_key_le_1)
    have c: "count_at g xs k = 0 \<longleftrightarrow> k \<notin> g ` set xs"
      by (auto simp: count_at_def filter_empty_conv)
    show ?thesis
    proof (cases "k \<in> g ` set xs")
      case True
      then have "(k, [Some (count_at g xs k)]) \<in> set ?f" using m by (simp add: count_at_def)
      with \<open>length ?f \<le> 1\<close> have "?f = [(k, [Some (count_at g xs k)])]"
        by (cases ?f) auto
      then have "mset ?f = {#(k, [Some (count_at g xs k)])#}" by simp
      then show ?thesis using True c by (simp add: cells_def counted_def)
    next
      case False
      then have "?f = []" using m by (auto simp: filter_empty_conv)
      then have "mset ?f = {#}" by simp
      then show ?thesis using False c by (simp add: cells_def counted_def)
    qed
  qed
  then show ?thesis using assms by (simp add: tab_def is_count_def)
qed

lemma filter_left_rows:
  "filter (\<lambda>p. fst p = k) (left_rows l r) = concat (map (\<lambda>(k, cs).
     if matches k r = [] then [(k, cs @ replicate (fst r) None)] else map (\<lambda>(k', ds). (k, cs @ ds)) (matches k r))
     (filter (\<lambda>p. fst p = k) (snd l)))"
proof -
  have "filter (\<lambda>p. fst p = k) (concat (map (\<lambda>(k, cs).
     if matches k r = [] then [(k, cs @ replicate (fst r) None)] else map (\<lambda>(k', ds). (k, cs @ ds)) (matches k r)) rows))
   = concat (map (\<lambda>(k, cs).
     if matches k r = [] then [(k, cs @ replicate (fst r) None)] else map (\<lambda>(k', ds). (k, cs @ ds)) (matches k r))
     (filter (\<lambda>p. fst p = k) rows))" for rows
    by (induction rows) (auto simp: filter_empty_conv filter_id_conv)
  then show ?thesis by (simp only: left_rows_def)
qed

lemma matches_tab:
  assumes "tab r m g" "\<not> null_key k"
  shows "map snd (matches k r) = (case g k of None \<Rightarrow> [] | Some ds \<Rightarrow> [ds])"
    and "matches k r = [] \<longleftrightarrow> g k = None"
proof -
  have "mset (map snd (matches k r)) = (case g k of None \<Rightarrow> {#} | Some ds \<Rightarrow> {#ds#})"
    using tab_cells [OF assms] matches_cells [OF assms(2), of r] by simp
  then show a: "map snd (matches k r) = (case g k of None \<Rightarrow> [] | Some ds \<Rightarrow> [ds])"
    by (cases "g k") (simp_all only: option.case mset_single_iff mset_zero_iff)
  show "matches k r = [] \<longleftrightarrow> g k = None" using arg_cong [OF a, of length] by (cases "g k") auto
qed

lemma cells_left_rows:
  assumes "tab l n f" "tab r m g" "\<not> null_key k"
  shows "image_mset snd (filter_mset (\<lambda>p. fst p = k) (mset (left_rows l r))) =
    (case f k of None \<Rightarrow> {#} | Some cs \<Rightarrow> {#cs @ (case g k of None \<Rightarrow> replicate m None | Some ds \<Rightarrow> ds)#})"
proof -
  let ?F = "filter (\<lambda>p. fst p = k) (snd l)"
  have c: "mset (map snd ?F) = (case f k of None \<Rightarrow> {#} | Some cs \<Rightarrow> {#cs#})"
    using tab_cells [OF assms(1, 3)] by (simp add: cells_def)
  have F: "?F = (case f k of None \<Rightarrow> [] | Some cs \<Rightarrow> [(k, cs)])"
  proof (cases "f k")
    case None
    then have "map snd ?F = []" using c by (simp only: option.case mset_zero_iff)
    then show ?thesis using None by (simp only: option.case map_is_Nil_conv)
  next
    case (Some cs)
    then have "map snd ?F = [cs]" using c by (simp only: option.case mset_single_iff)
    then obtain p where p: "?F = [p]" "snd p = cs" by (auto simp: map_eq_Cons_conv)
    have "p \<in> set ?F" by (simp add: p(1))
    then have "p = (k, cs)" using p(2) by (auto simp: prod_eq_iff)
    then show ?thesis using p Some by simp
  qed
  have fr: "fst r = m" using assms(2) by (simp add: tab_def)
  have "mset (filter (\<lambda>p. fst p = k) (left_rows l r)) =
    (case f k of None \<Rightarrow> {#} | Some cs \<Rightarrow> {#(k, cs @ (case g k of None \<Rightarrow> replicate m None | Some ds \<Rightarrow> ds))#})"
  proof (cases "g k")
    case None
    then show ?thesis
      using matches_tab [OF assms(2, 3)] by (simp add: filter_left_rows F fr split: option.splits)
  next
    case (Some ds)
    then have "map snd (matches k r) = [ds]" using matches_tab [OF assms(2, 3)] by simp
    then obtain k' where "matches k r = [(k', ds)]" by (auto simp: map_eq_Cons_conv)
    then show ?thesis using Some by (simp add: filter_left_rows F split: option.splits)
  qed
  then show ?thesis by (simp split: option.splits)
qed

definition join_left :: "nat \<Rightarrow> (key \<Rightarrow> int option list option) \<Rightarrow> (key \<Rightarrow> int option list option) \<Rightarrow> key \<Rightarrow> int option list option" where
  "join_left m f g k = (case f k of None \<Rightarrow> None
     | Some cs \<Rightarrow> Some (cs @ (case g k of None \<Rightarrow> replicate m None | Some ds \<Rightarrow> ds)))"

definition join_full :: "nat \<Rightarrow> nat \<Rightarrow> (key \<Rightarrow> int option list option) \<Rightarrow> (key \<Rightarrow> int option list option) \<Rightarrow> key \<Rightarrow> int option list option" where
  "join_full n m f g k = (case f k of
      None \<Rightarrow> (case g k of None \<Rightarrow> None | Some ds \<Rightarrow> Some (replicate n None @ ds))
    | Some cs \<Rightarrow> join_left m f g k)"

lemma tab_left:
  assumes "spark_ok sp" "tab l n f" "tab r m g"
  shows "tab (sp_left sp l r) (n + m) (join_left m f g)"
proof (rule tabI)
  show "fst (sp_left sp l r) = n + m"
    using assms(2, 3) by (simp add: spark_joins(1) [OF assms(1)] tab_def)
next
  fix k
  assume "\<not> null_key k"
  from cells_left_rows [OF assms(2, 3) this]
  show "cells (sp_left sp l r) k = (case join_left m f g k of None \<Rightarrow> {#} | Some cs \<Rightarrow> {#cs#})"
    by (simp add: cells_def spark_joins(2) [OF assms(1)] join_left_def split: option.splits)
qed

lemma cells_right_only:
  assumes "tab l n f" "tab r m g" "\<not> null_key k"
  shows "image_mset snd (filter_mset (\<lambda>p. fst p = k) (mset (right_only l r))) =
    (case f k of None \<Rightarrow> (case g k of None \<Rightarrow> {#} | Some ds \<Rightarrow> {#replicate n None @ ds#}) | Some cs \<Rightarrow> {#})"
proof -
  have fl: "fst l = n" using assms(1) by (simp add: tab_def)
  have "filter (\<lambda>p. fst p = k) (map (\<lambda>(k, ds). (k, replicate n None @ ds)) (filter (\<lambda>(k, ds). matches k l = []) rows))
      = (if matches k l = [] then map (\<lambda>(k, ds). (k, replicate n None @ ds)) (filter (\<lambda>p. fst p = k) rows) else [])" for rows
    by (induction rows) auto
  then have e: "filter (\<lambda>p. fst p = k) (right_only l r) =
      (if f k = None then map (\<lambda>(k, ds). (k, replicate n None @ ds)) (filter (\<lambda>p. fst p = k) (snd r)) else [])"
    by (simp only: right_only_def fl matches_tab(2) [OF assms(1, 3)])
  have "image_mset snd (image_mset (\<lambda>(k, ds). (k, replicate n None @ ds)) X) = image_mset (\<lambda>ds. replicate n None @ ds) (image_mset snd X)"
    for X :: "(key \<times> int option list) multiset"
    by (simp add: multiset.map_comp comp_def case_prod_beta)
  then have "image_mset snd (mset (filter (\<lambda>p. fst p = k) (right_only l r))) =
      (if f k = None then image_mset (\<lambda>ds. replicate n None @ ds) (cells r k) else {#})"
    unfolding e by (simp add: cells_def)
  then show ?thesis using tab_cells [OF assms(2, 3)] by (simp split: option.splits)
qed

lemma tab_full:
  assumes "spark_ok sp" "tab l n f" "tab r m g"
  shows "tab (sp_full sp l r) (n + m) (join_full n m f g)"
proof (rule tabI)
  show "fst (sp_full sp l r) = n + m"
    using assms(2, 3) by (simp add: spark_joins(3) [OF assms(1)] tab_def)
next
  fix k
  assume "\<not> null_key k"
  from cells_left_rows [OF assms(2, 3) this] cells_right_only [OF assms(2, 3) this]
  show "cells (sp_full sp l r) k = (case join_full n m f g k of None \<Rightarrow> {#} | Some cs \<Rightarrow> {#cs#})"
    by (simp add: cells_def spark_joins(4) [OF assms(1)] join_left_def join_full_def split: option.splits)
qed

section \<open>Counting through the job\<close>

definition count_of :: "(row \<Rightarrow> bool) \<Rightarrow> (row \<Rightarrow> key) \<Rightarrow> key \<Rightarrow> row list \<Rightarrow> int" where
  \<comment> \<open>how many rows satisfy a condition under a key\<close>
  "count_of P g k xs = int (length (filter (\<lambda>r. P r \<and> g r = k) xs))"

lemma count_of_size: "count_of P g k xs = int (size (filter_mset (\<lambda>r. P r \<and> g r = k) (mset xs)))"
  by (simp only: count_of_def mset_filter [symmetric] size_mset)

lemma count_of_mset: "mset xs = mset ys \<Longrightarrow> count_of P g k xs = count_of P g k ys"
  by (simp only: count_of_size)

lemma count_of_sub: "mset xs \<subseteq># mset ys \<Longrightarrow> count_of P g k xs \<le> count_of P g k ys"
  by (simp only: count_of_size of_nat_le_iff size_mset_mono multiset_filter_mono)

lemma count_of_filter: "spark_ok sp \<Longrightarrow> count_of P g k (sp_filter sp Q xs) = count_of (\<lambda>r. Q r \<and> P r) g k xs"
  using count_of_mset [OF spark_filter, of sp P g k Q xs] by (simp only: count_of_def filter_filter conj_assoc)

lemma count_of_cong: "(\<And>r. g r = k \<Longrightarrow> P r = Q r) \<Longrightarrow> count_of P g k xs = count_of Q g k xs"
proof -
  assume eq: "\<And>r. g r = k \<Longrightarrow> P r = Q r"
  have "filter (\<lambda>r. P r \<and> g r = k) xs = filter (\<lambda>r. Q r \<and> g r = k) xs"
    by (rule filter_cong) (use eq in auto)
  then show ?thesis by (simp only: count_of_def)
qed

lemma count_at_of: "count_at g xs k = count_of (\<lambda>_. True) g k xs"
  by (simp add: count_at_def count_of_def)

definition column :: "(row \<Rightarrow> bool) \<Rightarrow> (row \<Rightarrow> key) \<Rightarrow> row list \<Rightarrow> key \<Rightarrow> int option list option" where
  "column P g xs k = (if count_of P g k xs = 0 then None else Some [Some (count_of P g k xs)])"

lemma tab_filtered_count:
  assumes "spark_ok sp"
  shows "tab (sp_count sp g (sp_filter sp P xs)) 1 (column P g xs)"
proof -
  have "counted g (sp_filter sp P xs) = column P g xs"
    by (simp add: fun_eq_iff counted_def column_def count_at_of count_of_filter [OF assms])
  then show ?thesis using tab_count [OF spark_count [OF assms], of g "sp_filter sp P xs"] by simp
qed

lemma tab_plain_count:
  assumes "spark_ok sp"
  shows "tab (sp_count sp g xs) 1 (column (\<lambda>_. True) g xs)"
proof -
  have "counted g xs = column (\<lambda>_. True) g xs"
    by (simp add: fun_eq_iff counted_def column_def count_at_of)
  then show ?thesis using tab_count [OF spark_count [OF assms], of g xs] by simp
qed

lemma fill0_column [simp]:
  "fill0 (case column P g xs k of None \<Rightarrow> replicate (Suc 0) None | Some ds \<Rightarrow> ds) = [count_of P g k xs]"
  by (simp add: column_def fill0_def)

lemma fill0_Some: "fill0 (Some n # cs) = n # fill0 cs"
  by (simp add: fill0_def)

lemma fill0_append [simp]: "fill0 (xs @ ys) = fill0 xs @ fill0 ys"
  by (simp add: fill0_def)

lemma not_non_some: "r_cid r = Some c \<Longrightarrow> holds3 (not_non_campaign r) \<longleftrightarrow> c \<notin> set NON_CAMPAIGN"
  by (simp add: not_non_campaign_def holds3_def)

definition keyed :: "(row \<Rightarrow> key) \<Rightarrow> bool" where
  "keyed g \<longleftrightarrow> (\<forall>r. snd (g r) = r_cid r)"

lemma keyed_keys: "keyed day_key" "keyed minute_key"
  by (simp_all add: keyed_def day_key_def minute_key_def)

lemma count_imp_all:
  assumes "spark_ok sp" "keyed g" "c \<notin> set NON_CAMPAIGN"
  shows "count_of P g (x, Some c) (imp_all sp xs) = count_of (\<lambda>r. is_impression r \<and> P r) g (x, Some c) xs"
proof -
  have "holds3 (not_non_campaign r)" if "g r = (x, Some c)" for r
    using not_non_some [of r c] assms(2, 3) that by (metis keyed_def snd_conv)
  then show ?thesis
    unfolding imp_all_def by (simp add: count_of_filter [OF assms(1)]) (rule count_of_cong, blast)
qed

lemma count_base:
  assumes "spark_ok sp" "keyed g" "c \<notin> set NON_CAMPAIGN"
  shows "count_of P g (x, Some c) (base_rows sp xs) = count_of P g (x, Some c) xs"
proof -
  have "holds3 (not_non_campaign r) \<and> r_cid r \<noteq> None" if "g r = (x, Some c)" for r
    using not_non_some [of r c] assms(2, 3) that by (metis keyed_def option.distinct(1) snd_conv)
  then show ?thesis
    unfolding base_rows_def by (simp add: count_of_filter [OF assms(1)]) (rule count_of_cong, blast)
qed

lemma imp_all_non_campaign:
  assumes "spark_ok sp" "keyed g" "c \<in> set NON_CAMPAIGN"
  shows "count_of P g (x, Some c) (imp_all sp xs) = 0"
proof -
  have "\<not> holds3 (not_non_campaign r)" if "g r = (x, Some c)" for r
    using not_non_some [of r c] assms(2, 3) that by (metis keyed_def snd_conv)
  then have "count_of (\<lambda>r. is_impression r \<and> holds3 (not_non_campaign r) \<and> P r) g (x, Some c) xs = 0"
    by (auto simp: count_of_def filter_empty_conv)
  then show ?thesis
    unfolding imp_all_def by (simp add: count_of_filter [OF assms(1)])
qed

section \<open>The rows of a key\<close>

lemma join_left_fill0:
  "join_left (Suc 0) f (column P g xs) k = (case f k of None \<Rightarrow> None
     | Some cs \<Rightarrow> Some (cs @ (case column P g xs k of None \<Rightarrow> replicate (Suc 0) None | Some ds \<Rightarrow> ds)))"
  by (simp add: join_left_def)

lemma daily_table_cells:
  fixes d :: int and raw :: "row list" and ps :: "string list"
  assumes sp: "spark_ok sp" and c: "c \<notin> set NON_CAMPAIGN"
  defines "k \<equiv> (Some d, Some c)" and "ded \<equiv> dedup sp raw"
  defines "imp \<equiv> imp_kept sp ps (imp_all sp ded)"
  shows "image_mset fill0 (cells (daily_table sp ps raw) k) =
    (if count_of is_impression day_key k ded = 0 then {#}
     else {#[count_of is_impression day_key k ded, count_of (\<lambda>_. True) day_key k imp,
       count_of is_click day_key k ded, count_of is_completion day_key k ded,
       count_of is_filled_response day_key k ded, count_of is_impression day_key k raw,
       count_of (\<lambda>r. holds3 (eq3 (r_late r) True)) day_key k imp]#})"
proof -
  have k: "\<not> null_key k" by (simp add: k_def null_key_def)
  let ?c = "\<lambda>P xs. column P day_key xs"
  let ?base = "base_rows sp ded"
  let ?f = "join_left 1 (join_left 1 (join_left 1 (join_left 1 (join_left 1 (join_left 1
      (?c (\<lambda>_. True) (imp_all sp ded)) (?c (\<lambda>_. True) imp)) (?c is_click ?base)) (?c is_completion ?base))
      (?c is_filled_response ?base))
      (?c (\<lambda>r. r_cid r \<noteq> None) (sp_filter sp (\<lambda>r. holds3 (not_non_campaign r)) (sp_filter sp is_impression raw))))
      (?c (\<lambda>r. holds3 (eq3 (r_late r) True)) imp)"
  have "tab (daily_table sp ps raw) (1 + 1 + 1 + 1 + 1 + 1 + 1) ?f"
    unfolding daily_table_def Let_def ded_def imp_def
    by (intro tab_left [OF sp] tab_filtered_count [OF sp] tab_plain_count [OF sp])
  from tab_cells [OF this k]
  have cells: "cells (daily_table sp ps raw) k = (case ?f k of None \<Rightarrow> {#} | Some cs \<Rightarrow> {#cs#})" .
  have raw: "count_of (\<lambda>_. True) day_key k (imp_all sp ded) = count_of is_impression day_key k ded"
    using count_imp_all [OF sp keyed_keys(1) c, of "\<lambda>_. True"] by (simp add: k_def)
  have base: "count_of P day_key k ?base = count_of P day_key k ded" for P
    unfolding k_def by (rule count_base [OF sp keyed_keys(1) c])
  have rows: "count_of (\<lambda>r. r_cid r \<noteq> None) day_key k
      (sp_filter sp (\<lambda>r. holds3 (not_non_campaign r)) (sp_filter sp is_impression raw)) = count_of is_impression day_key k raw"
    unfolding k_def
    using count_imp_all [OF sp keyed_keys(1) c, of "\<lambda>r. r_cid r \<noteq> None" "Some d" raw]
      count_of_cong [of day_key "(Some d, Some c)" "\<lambda>r. is_impression r \<and> r_cid r \<noteq> None" is_impression raw]
    by (auto simp: imp_all_def day_key_def)
  have first: "?c (\<lambda>_. True) (imp_all sp ded) k =
      (if count_of is_impression day_key k ded = 0 then None else Some [Some (count_of is_impression day_key k ded)])"
    by (simp add: column_def raw)
  show ?thesis
    unfolding cells One_nat_def join_left_fill0 first
    by (cases "count_of is_impression day_key k ded = 0")
      (simp_all only: if_True if_False option.case image_mset_empty image_mset_single fill0_append fill0_Some
        fill0_column base rows append.simps simp_thms)
qed

lemma daily_rows:
  fixes d :: int and raw :: "row list" and ps :: "string list" and rates :: "string \<rightharpoonup> rat"
  assumes sp: "spark_ok sp" and c: "c \<notin> set NON_CAMPAIGN"
  defines "k \<equiv> (Some d, Some c)" and "ded \<equiv> dedup sp raw"
  defines "imp \<equiv> imp_kept sp ps (imp_all sp ded)"
  defines "cpm \<equiv> (case rates c of None \<Rightarrow> 0 | Some x \<Rightarrow> x)"
  shows "filter (\<lambda>r. sd_dt r = Some d \<and> sd_cid r = Some c) (map (settle_row rates) (snd (daily_table sp ps raw))) =
    (if count_of is_impression day_key k ded = 0 then []
     else [\<lparr>sd_dt = Some d, sd_cid = Some c, sd_requests = count_of is_filled_response day_key k ded,
       sd_impressions = count_of (\<lambda>_. True) day_key k imp, sd_clicks = count_of is_click day_key k ded,
       sd_completes = count_of is_completion day_key k ded, sd_raw = count_of is_impression day_key k ded,
       sd_dupes = count_of is_impression day_key k raw - count_of is_impression day_key k ded,
       sd_late = count_of (\<lambda>r. holds3 (eq3 (r_late r) True)) day_key k imp, sd_cpm = cpm,
       sd_amount = round2 (of_int (count_of (\<lambda>_. True) day_key k imp) / 1000 * cpm)\<rparr>])"
    (is "?lhs = (if ?z then [] else [?row])")
proof -
  let ?mk = "\<lambda>v. \<lparr>sd_dt = Some d, sd_cid = Some c, sd_requests = v ! 4, sd_impressions = v ! 1, sd_clicks = v ! 2,
          sd_completes = v ! 3, sd_raw = v ! 0, sd_dupes = v ! 5 - v ! 0, sd_late = v ! 6,
          sd_cpm = cpm, sd_amount = round2 (of_int (v ! 1) / 1000 * cpm)\<rparr>"
  have row: "settle_row rates p = ?mk (fill0 (snd p))" if "fst p = k" for p
    using that by (simp add: settle_row_def Let_def k_def cpm_def)
  have key: "sd_dt (settle_row rates p) = Some d \<and> sd_cid (settle_row rates p) = Some c \<longleftrightarrow> fst p = k" for p
    by (simp add: settle_row_def Let_def k_def prod_eq_iff)
  have "mset ?lhs = image_mset (settle_row rates) (filter_mset (\<lambda>p. fst p = k) (mset (snd (daily_table sp ps raw))))"
    by (simp add: filter_map comp_def key)
  also have "\<dots> = image_mset ?mk (image_mset fill0 (cells (daily_table sp ps raw) k))"
    unfolding cells_def multiset.map_comp comp_def by (rule image_mset_cong) (simp add: row)
  also have "\<dots> = (if ?z then {#} else {#?row#})"
    unfolding k_def ded_def imp_def daily_table_cells [OF sp c] by simp
  finally show ?thesis by (simp only: mset_zero_iff mset_single_iff split: if_splits) auto
qed

definition has_vals :: "(key \<Rightarrow> int option list option) \<Rightarrow> nat \<Rightarrow> key \<Rightarrow> int list \<Rightarrow> bool" where
  "has_vals f n k v \<longleftrightarrow> (case f k of None \<Rightarrow> v = replicate n 0 | Some cs \<Rightarrow> fill0 cs = v \<and> v \<noteq> replicate n 0 \<and> length v = n)"

lemma has_vals_column: "has_vals (column P g xs) 1 k [count_of P g k xs]"
  by (simp add: has_vals_def column_def fill0_def)

lemma has_vals_full:
  assumes "has_vals f n k v"
  shows "has_vals (join_full n 1 f (column P g xs)) (n + 1) k (v @ [count_of P g k xs])"
proof -
  let ?n = "count_of P g k xs"
  have z: "replicate (n + 1) (0 :: int) = replicate n 0 @ [0]" by (simp add: replicate_append_same)
  show ?thesis
  proof (cases "f k")
    case None
    then have v: "v = replicate n 0" using assms by (simp add: has_vals_def)
    have "fill0 (replicate n None) = replicate n 0" by (simp add: fill0_def)
    then show ?thesis
      unfolding has_vals_def z by (simp add: None v join_full_def column_def fill0_append) (simp add: fill0_def)
  next
    case (Some cs)
    then have v: "fill0 cs = v" "v \<noteq> replicate n 0" "length v = n" using assms by (simp_all add: has_vals_def)
    have "fill0 (case column P g xs k of None \<Rightarrow> replicate 1 None | Some ds \<Rightarrow> ds) = [?n]"
      unfolding One_nat_def by (rule fill0_column)
    then show ?thesis
      unfolding has_vals_def z using v by (simp add: Some join_full_def join_left_def fill0_append)
  qed
qed

lemma minute_table_cells:
  fixes m :: int and raw :: "row list" and ps :: "string list"
  assumes sp: "spark_ok sp" and c: "c \<notin> set NON_CAMPAIGN"
  defines "k \<equiv> (Some m, Some c)" and "ded \<equiv> dedup sp raw"
  defines "imp \<equiv> imp_kept sp ps (imp_all sp ded)"
  defines "v \<equiv> [count_of (\<lambda>_. True) minute_key k imp, count_of is_impression minute_key k ded,
       count_of is_click minute_key k ded, count_of is_completion minute_key k ded,
       count_of is_filled_response minute_key k ded]"
  shows "image_mset fill0 (cells (minute_table sp ps raw) k) = (if v = replicate 5 0 then {#} else {#v#})"
proof -
  have k: "\<not> null_key k" by (simp add: k_def null_key_def)
  let ?c = "\<lambda>P xs. column P minute_key xs"
  let ?base = "base_rows sp ded"
  let ?f = "join_full (1 + 1 + 1 + 1) 1 (join_full (1 + 1 + 1) 1 (join_full (1 + 1) 1 (join_full 1 1 (?c (\<lambda>_. True) imp)
      (?c (\<lambda>_. True) (imp_all sp ded))) (?c is_click ?base)) (?c is_completion ?base)) (?c is_filled_response ?base)"
  have "tab (minute_table sp ps raw) (1 + 1 + 1 + 1 + 1) ?f"
    unfolding minute_table_def Let_def ded_def imp_def
    by (intro tab_full [OF sp] tab_filtered_count [OF sp] tab_plain_count [OF sp])
  from tab_cells [OF this k]
  have cells: "cells (minute_table sp ps raw) k = (case ?f k of None \<Rightarrow> {#} | Some cs \<Rightarrow> {#cs#})" .
  have raw: "count_of (\<lambda>_. True) minute_key k (imp_all sp ded) = count_of is_impression minute_key k ded"
    using count_imp_all [OF sp keyed_keys(2) c, of "\<lambda>_. True"] by (simp add: k_def)
  have base: "count_of P minute_key k ?base = count_of P minute_key k ded" for P
    unfolding k_def by (rule count_base [OF sp keyed_keys(2) c])
  have "has_vals ?f (1 + 1 + 1 + 1 + 1) k ((((
      [count_of (\<lambda>_. True) minute_key k imp] @ [count_of (\<lambda>_. True) minute_key k (imp_all sp ded)])
      @ [count_of is_click minute_key k ?base]) @ [count_of is_completion minute_key k ?base])
      @ [count_of is_filled_response minute_key k ?base])"
    by (intro has_vals_full has_vals_column)
  then have "has_vals ?f 5 k v"
    by (simp only: raw base v_def append.simps one_add_one numeral_plus_one arith_simps)
  then show ?thesis unfolding cells has_vals_def by (simp split: option.splits)
qed

section \<open>Choosing one row of a group\<close>

text \<open>
  Deduplication and the SSAI choice are the same operation with another grouping and order.
\<close>

locale row_selection =
  fixes sel :: "spark \<Rightarrow> row list \<Rightarrow> row list"
    and grp :: "row \<Rightarrow> string option"
    and ord :: "row \<Rightarrow> 'k::linorder"
  assumes selects: "spark_ok sp \<Longrightarrow> is_first grp (\<lambda>x y. ord x \<le> ord y) xs (sel sp xs)"
begin

lemma one_per_group: "spark_ok sp \<Longrightarrow> distinct (map grp (sel sp xs)) \<and> grp ` set (sel sp xs) = grp ` set xs"
  using selects by (simp add: is_first_def)

lemma sub: "spark_ok sp \<Longrightarrow> mset (sel sp xs) \<subseteq># mset xs"
  using selects by (simp add: is_first_def)

lemma best: "spark_ok sp \<Longrightarrow> x \<in> set (sel sp xs) \<Longrightarrow> y \<in> set xs \<Longrightarrow> grp y = grp x \<Longrightarrow> ord x \<le> ord y"
  using selects by (simp add: is_first_def)

lemma mem: "spark_ok sp \<Longrightarrow> x \<in> set (sel sp xs) \<Longrightarrow> x \<in> set xs"
  using sub [of sp xs] by (metis mset_subset_eqD set_mset_mset)

lemma distinct_rows: "spark_ok sp \<Longrightarrow> distinct (sel sp xs)"
  using one_per_group [of sp xs] by (simp add: distinct_map)

lemma determined_sub:
  assumes "spark_ok sp" "spark_ok sp'" "set xs = set ys"
    and "\<And>x y. x \<in> set xs \<Longrightarrow> y \<in> set xs \<Longrightarrow> grp x = grp y \<Longrightarrow> ord x = ord y \<Longrightarrow> x = y"
  shows "set (sel sp xs) \<subseteq> set (sel sp' ys)"
proof
  fix x
  assume x: "x \<in> set (sel sp xs)"
  then have "grp x \<in> grp ` set (sel sp' ys)"
    using one_per_group [OF assms(1), of xs] one_per_group [OF assms(2), of ys] assms(3) by (metis imageI)
  then obtain y where y: "y \<in> set (sel sp' ys)" "grp y = grp x" by force
  have "ord x = ord y"
    using best [OF assms(1) x, of y] best [OF assms(2) y(1), of x] mem [OF assms(1) x] mem [OF assms(2) y(1)] y(2) assms(3)
    by (simp add: antisym)
  then have "x = y"
    using assms(4) [of x y] mem [OF assms(1) x] mem [OF assms(2) y(1)] y(2) assms(3) by simp
  then show "x \<in> set (sel sp' ys)" using y(1) by simp
qed

lemma determined:
  assumes "spark_ok sp" "spark_ok sp'" "set xs = set ys"
    and "\<And>x y. x \<in> set xs \<Longrightarrow> y \<in> set xs \<Longrightarrow> grp x = grp y \<Longrightarrow> ord x = ord y \<Longrightarrow> x = y"
  shows "mset (sel sp xs) = mset (sel sp' ys)"
proof -
  have "set (sel sp xs) = set (sel sp' ys)"
    using determined_sub [OF assms] determined_sub [OF assms(2, 1) assms(3) [symmetric]] assms(3, 4) by blast
  then show ?thesis using distinct_rows assms(1, 2) by (simp add: set_eq_iff_mset_eq_distinct)
qed

end

interpretation evt: row_selection dedup r_event_id evt_key
  by unfold_locales (simp only: dedup_def spark_first preorder_key)

interpretation ssai: row_selection "\<lambda>sp xs. imp_kept sp ps xs" ssai_group "ssai_key ps" for ps
  by unfold_locales (simp only: imp_kept_def spark_first preorder_key)

section \<open>Sums over the minutes of a day\<close>

lemma sum_by_key:
  assumes "finite K"
  shows "(\<Sum>x\<leftarrow>filter (\<lambda>x. f x \<in> K) xs. h x) = (\<Sum>k\<in>K. \<Sum>x\<leftarrow>filter (\<lambda>x. f x = k) xs. h x :: int)"
proof (induction xs)
  case (Cons x xs)
  have "(\<Sum>k\<in>K. \<Sum>y\<leftarrow>filter (\<lambda>y. f y = k) (x # xs). h y)
      = (\<Sum>k\<in>K. (if f x = k then h x else 0) + (\<Sum>y\<leftarrow>filter (\<lambda>y. f y = k) xs. h y))"
    by (rule sum.cong) auto
  also have "\<dots> = (\<Sum>k\<in>K. if f x = k then h x else 0) + (\<Sum>k\<in>K. \<Sum>y\<leftarrow>filter (\<lambda>y. f y = k) xs. h y)"
    by (rule sum.distrib)
  also have "(\<Sum>k\<in>K. if f x = k then h x else 0) = (if f x \<in> K then h x else 0)"
    using assms by (simp add: sum.delta')
  finally show ?case using Cons.IH by simp
qed simp

definition day_minutes :: "int \<Rightarrow> int set" where
  "day_minutes d = {1440 * d ..< 1440 * d + 1440}"

lemma minute_day: "t div 60000 \<in> day_minutes d \<longleftrightarrow> t div 86400000 = d"
proof -
  have "t div 86400000 = t div 60000 div 1440" using zdiv_zmult2_eq [of 1440 t 60000] by simp
  moreover have "m \<in> day_minutes d \<longleftrightarrow> m div 1440 = d" for m :: int
    unfolding day_minutes_def by (simp add: Icc_eq_Icc) linarith
  ultimately show ?thesis by simp
qed

lemma count_of_sum: "count_of P g k xs = (\<Sum>r\<leftarrow>filter (\<lambda>r. g r = k) xs. if P r then 1 else 0)"
  by (induction xs) (simp_all add: count_of_def)

lemma count_day_minutes:
  "count_of P day_key (Some d, Some c) xs = (\<Sum>m\<in>day_minutes d. count_of P minute_key (Some m, Some c) xs)"
proof -
  let ?K = "(\<lambda>m. (Some m, Some c)) ` day_minutes d"
  have fin: "finite ?K" by (simp add: day_minutes_def)
  have "day_key r = (Some d, Some c) \<longleftrightarrow> minute_key r \<in> ?K" for r
    using minute_day [of "the (r_time r)" d] by (cases "r_time r") (auto simp: day_key_def minute_key_def)
  then have "count_of P day_key (Some d, Some c) xs = (\<Sum>k\<in>?K. count_of P minute_key k xs)"
    using sum_by_key [OF fin, where f = minute_key and h = "\<lambda>r. if P r then 1 else 0" and xs = xs] by (simp add: count_of_sum)
  also have "\<dots> = (\<Sum>m\<in>day_minutes d. count_of P minute_key (Some m, Some c) xs)"
    by (rule sum.reindex_cong [of "\<lambda>m. (Some m, Some c)"]) (auto simp: inj_on_def)
  finally show ?thesis .
qed

definition day_total :: "(key \<times> int list) list \<Rightarrow> int \<Rightarrow> string \<Rightarrow> nat \<Rightarrow> int" where
  \<comment> \<open>the sum of a column over a campaign's minute rows of a day\<close>
  "day_total rows d c j = (\<Sum>p\<leftarrow>filter (\<lambda>p. fst p \<in> (\<lambda>m. (Some m, Some c)) ` day_minutes d) rows. snd p ! j)"

lemma minutes_total_sum:
  assumes sp: "spark_ok sp" and c: "c \<notin> set NON_CAMPAIGN" and j: "j < 5" and fin: "finite M"
  shows "(\<Sum>p\<leftarrow>filter (\<lambda>p. fst p \<in> (\<lambda>m. (Some m, Some c)) ` M)
      (map (\<lambda>(k, cs). (k, fill0 cs)) (snd (minute_table sp ps raw))). snd p ! j) =
    (\<Sum>m\<in>M.
      [count_of (\<lambda>_. True) minute_key (Some m, Some c) (imp_kept sp ps (imp_all sp (dedup sp raw))),
       count_of is_impression minute_key (Some m, Some c) (dedup sp raw),
       count_of is_click minute_key (Some m, Some c) (dedup sp raw),
       count_of is_completion minute_key (Some m, Some c) (dedup sp raw),
       count_of is_filled_response minute_key (Some m, Some c) (dedup sp raw)] ! j)"
proof -
  let ?K = "(\<lambda>m. (Some m, Some c)) ` M"
  let ?rows = "map (\<lambda>(k, cs). (k, fill0 cs)) (snd (minute_table sp ps raw))"
  have cell: "(\<Sum>p\<leftarrow>filter (\<lambda>p. fst p = k) ?rows. snd p ! j)
      = sum_mset (image_mset (\<lambda>v. v ! j) (image_mset fill0 (cells (minute_table sp ps raw) k)))" for k
  proof -
    have "mset (map (\<lambda>p. snd p ! j) (filter (\<lambda>p. fst p = k) ?rows))
        = image_mset (\<lambda>v. v ! j) (image_mset fill0 (cells (minute_table sp ps raw) k))"
      by (simp add: cells_def filter_map multiset.map_comp comp_def case_prod_beta)
    then show ?thesis by (metis sum_mset_sum_list)
  qed
  have zero: "replicate 5 (0 :: int) ! j = 0" using j by simp
  have "(\<Sum>p\<leftarrow>filter (\<lambda>p. fst p \<in> ?K) ?rows. snd p ! j) = (\<Sum>k\<in>?K. \<Sum>p\<leftarrow>filter (\<lambda>p. fst p = k) ?rows. snd p ! j)"
    by (rule sum_by_key) (use fin in simp)
  also have "\<dots> = (\<Sum>m\<in>M. \<Sum>p\<leftarrow>filter (\<lambda>p. fst p = (Some m, Some c)) ?rows. snd p ! j)"
    by (rule sum.reindex_cong [of "\<lambda>m. (Some m, Some c)"]) (auto simp: inj_on_def)
  finally show ?thesis
    unfolding cell minute_table_cells [OF sp c]
    by (simp only: if_distrib [of "image_mset _"] if_distrib [of sum_mset] image_mset_empty image_mset_single sum_mset.empty
        sum_mset.singleton) (rule sum.cong [OF refl], metis zero)
qed

lemma day_total_sum:
  assumes "spark_ok sp" "c \<notin> set NON_CAMPAIGN" "j < 5"
  shows "day_total (map (\<lambda>(k, cs). (k, fill0 cs)) (snd (minute_table sp ps raw))) d c j =
    (\<Sum>m\<in>day_minutes d.
      [count_of (\<lambda>_. True) minute_key (Some m, Some c) (imp_kept sp ps (imp_all sp (dedup sp raw))),
       count_of is_impression minute_key (Some m, Some c) (dedup sp raw),
       count_of is_click minute_key (Some m, Some c) (dedup sp raw),
       count_of is_completion minute_key (Some m, Some c) (dedup sp raw),
       count_of is_filled_response minute_key (Some m, Some c) (dedup sp raw)] ! j)"
  unfolding day_total_def by (rule minutes_total_sum [OF assms]) (simp add: day_minutes_def)

section \<open>The priority of a source\<close>

lemma ssai_prio_fold:
  "length xs \<le> n \<Longrightarrow>
   foldl (\<lambda>prio (i, s). if holds3 (eq3 src (strip s)) then n - 1 - i else prio) p (enumerate 0 (rev xs))
    = (if \<exists>x \<in> set xs. src = Some (strip x)
       then n - length xs + length (takeWhile (\<lambda>x. src \<noteq> Some (strip x)) xs) else p)"
proof (induction xs)
  case (Cons x xs)
  then show ?case by (auto simp: enumerate_append_eq)
qed simp

lemma ssai_prio_listed:
  assumes "i < length ps" "src = Some (strip (ps ! i))" "\<forall>j < i. src \<noteq> Some (strip (ps ! j))"
  shows "ssai_prio ps src = i"
proof -
  have "takeWhile (\<lambda>x. src \<noteq> Some (strip x)) ps = take i ps"
    by (rule takeWhile_eq_take_P_nth) (use assms in auto)
  moreover have "\<exists>x \<in> set ps. src = Some (strip x)" using assms(1, 2) nth_mem by blast
  ultimately show ?thesis
    using ssai_prio_fold [OF order_refl, of src ps] assms(1) by (simp add: ssai_prio_def)
qed

lemma ssai_prio_unlisted: "\<forall>i < length ps. src \<noteq> Some (strip (ps ! i)) \<Longrightarrow> ssai_prio ps src = length ps + 1"
  using ssai_prio_fold [OF order_refl, of src ps] by (auto simp: ssai_prio_def in_set_conv_nth)

lemma ssai_key_id: "ssai_key ps x = ssai_key ps y \<Longrightarrow> r_event_id x = r_event_id y"
  by (auto simp: ssai_key_def split: option.splits)

lemma job_returns: "raw_rows sp parquet \<noteq> [] \<Longrightarrow> \<exists>days minutes. settlement_job sp ps rates parquet = Some (days, minutes)"
  by (simp add: settlement_job_def Let_def)

lemma cells_nonempty:
  "image_mset fill0 (cells t k) \<noteq> {#} \<longleftrightarrow> (\<exists>v. (k, v) \<in> set (map (\<lambda>(k, cs). (k, fill0 cs)) (snd t)))"
proof -
  have "image_mset fill0 (cells t k) \<noteq> {#} \<longleftrightarrow> filter (\<lambda>p. fst p = k) (snd t) \<noteq> []"
    by (simp add: cells_def flip: mset_filter)
  then show ?thesis by (force simp: filter_empty_conv)
qed

section \<open>Properties\<close>

definition demo_row :: "string \<Rightarrow> string \<Rightarrow> string \<Rightarrow> int \<Rightarrow> row" where
  "demo_row eid type src t = \<lparr>r_event_id = Some eid, r_type = Some type, r_cid = Some ''c1'', r_time = Some t,
     r_topic = Some ''ad.impression'', r_source = Some src, r_arid = Some ''req-1'', r_quartile = None,
     r_fill = None, r_late = None\<rparr>"

definition demo_parquet :: "row list" where
  \<comment> \<open>an impression sent twice, and its SSAI twin\<close>
  "demo_parquet = [demo_row ''e1'' ''impression'' ''client'' 60000, demo_row ''e1'' ''impression'' ''client'' 60000,
     demo_row ''e2'' ''impression'' ''server'' 61000]"

lemma demo_raw: "raw_rows list_spark demo_parquet = demo_parquet"
  by (simp add: raw_rows_def list_spark_def demo_parquet_def demo_row_def)

lemma demo_job: "\<exists>days minutes. settlement_job list_spark ps rates demo_parquet = Some (days, minutes)"
proof -
  have "raw_rows list_spark demo_parquet \<noteq> []" unfolding demo_raw by (simp add: demo_parquet_def)
  then show ?thesis by (rule job_returns)
qed



text \<open>C11: one impression per ad request, from the best path. Among the deduplicated impressions exactly
  one is kept for each ad request id (or event id when that is missing), and none of its group has a
  source of smaller priority, where a source's priority is its first position in the configured list
  and one past the end plus one when it is not listed.\<close>

theorem ssai_keeps_best_source:
  assumes "spark_ok sp"
  shows "distinct (map ssai_group (imp_kept sp ps imps)) \<and>
    ssai_group ` set (imp_kept sp ps imps) = ssai_group ` set imps \<and> mset (imp_kept sp ps imps) \<subseteq># mset imps \<and>
    (\<forall>x \<in> set (imp_kept sp ps imps). \<forall>y \<in> set imps. ssai_group y = ssai_group x \<longrightarrow>
       ssai_prio ps (r_source x) \<le> ssai_prio ps (r_source y)) \<and>
    (\<forall>i < length ps. (\<forall>j < i. strip (ps ! j) \<noteq> strip (ps ! i)) \<longrightarrow> ssai_prio ps (Some (strip (ps ! i))) = i) \<and>
    (\<forall>src. (\<forall>i < length ps. src \<noteq> Some (strip (ps ! i))) \<longrightarrow> ssai_prio ps src = length ps + 1)"
proof -
  have best: "ssai_prio ps (r_source x) \<le> ssai_prio ps (r_source y)" if "ssai_key ps x \<le> ssai_key ps y" for x y
    using that by (auto simp: ssai_key_def less_eq_prod_def)
  have listed: "ssai_prio ps (Some (strip (ps ! i))) = i" if "i < length ps" "\<forall>j < i. strip (ps ! j) \<noteq> strip (ps ! i)" for i
    by (rule ssai_prio_listed [OF that(1) refl]) (metis option.inject that(2))
  show ?thesis
    using ssai.one_per_group [OF assms, of ps imps] ssai.sub [OF assms, of ps imps]
      ssai.best [OF assms, of _ ps imps, THEN best] listed ssai_prio_unlisted [of ps] by blast
qed

theorem ssai_keeps_best_source_witness:
  "list_all (\<lambda>x. ssai_prio [''server'', ''client''] (r_source x) \<le> ssai_prio [''server'', ''client''] (Some ''server''))
     (imp_kept list_spark [''server'', ''client''] demo_parquet)"
proof -
  have g: "\<forall>x \<in> set demo_parquet. ssai_group x = Some ''req-1''"
    by (simp add: demo_parquet_def demo_row_def ssai_group_def)
  have y: "demo_row ''e2'' ''impression'' ''server'' 61000 \<in> set demo_parquet" by (simp add: demo_parquet_def)
  let ?ps = "[''server'', ''client'']"
  note kept = ssai_keeps_best_source [OF list_spark_ok, of ?ps demo_parquet]
  then have best: "\<forall>x \<in> set (imp_kept list_spark ?ps demo_parquet). \<forall>y \<in> set demo_parquet.
      ssai_group y = ssai_group x \<longrightarrow> ssai_prio ?ps (r_source x) \<le> ssai_prio ?ps (r_source y)"
    by (elim conjE) assumption
  have src: "r_source (demo_row ''e2'' ''impression'' ''server'' 61000) = Some ''server''" by (simp add: demo_row_def)
  show ?thesis
    unfolding list_all_iff
  proof
    fix x
    assume x: "x \<in> set (imp_kept list_spark ?ps demo_parquet)"
    then have "x \<in> set demo_parquet" by (rule ssai.mem [OF list_spark_ok])
    with g y have "ssai_group (demo_row ''e2'' ''impression'' ''server'' 61000) = ssai_group x" by simp
    with bspec [OF bspec [OF best x] y] show "ssai_prio ?ps (r_source x) \<le> ssai_prio ?ps (Some ''server'')"
      by (simp only: src)
  qed
qed

text \<open>C10: the settlement row of a campaign's day. A campaign that is settled has one row for a day
  exactly when a deduplicated impression falls on it; the row's columns are the numbers of
  deduplicated clicks, completions and filled responses, of impressions before and after the SSAI
  choice, the removed duplicates are the impression rows beyond the deduplicated ones, and the amount
  is the kept impressions times CPM by 1000, rounded to cents half up.\<close>

theorem daily_row_counts:
  assumes "spark_ok sp" "c \<notin> set NON_CAMPAIGN" "settlement_job sp ps rates parquet = Some (days, minutes)"
  shows "let raw = raw_rows sp parquet; ded = dedup sp raw; imp = imp_kept sp ps (imp_all sp ded);
      k = (Some d, Some c); n = (\<lambda>P. count_of P day_key k ded); kept = count_of (\<lambda>_. True) day_key k imp;
      cpm = (case rates c of None \<Rightarrow> 0 | Some x \<Rightarrow> x)
    in filter (\<lambda>r. sd_dt r = Some d \<and> sd_cid r = Some c) days =
      (if n is_impression = 0 then []
       else [\<lparr>sd_dt = Some d, sd_cid = Some c, sd_requests = n is_filled_response, sd_impressions = kept,
         sd_clicks = n is_click, sd_completes = n is_completion, sd_raw = n is_impression,
         sd_dupes = count_of is_impression day_key k raw - n is_impression,
         sd_late = count_of (\<lambda>r. holds3 (eq3 (r_late r) True)) day_key k imp, sd_cpm = cpm,
         sd_amount = round2 (of_int kept / 1000 * cpm)\<rparr>])"
  using assms(3) daily_rows [OF assms(1, 2)]
  by (simp only: settlement_job_def Let_def option.inject prod.inject split: if_splits) auto

theorem daily_row_counts_witness:
  "\<exists>days minutes. settlement_job list_spark [''server'', ''client''] (\<lambda>_. Some 5000) demo_parquet = Some (days, minutes) \<and>
     length (filter (\<lambda>r. sd_dt r = Some 0 \<and> sd_cid r = Some ''c1'') days) \<le> 1"
proof -
  obtain days minutes where j: "settlement_job list_spark [''server'', ''client''] (\<lambda>_. Some 5000) demo_parquet = Some (days, minutes)"
    by (simp add: settlement_job_def raw_rows_def list_spark_def demo_parquet_def demo_row_def Let_def)
  have "''c1'' \<notin> set NON_CAMPAIGN" by (simp add: NON_CAMPAIGN_def)
  from daily_row_counts [OF list_spark_ok this j, of 0] j show ?thesis by (auto simp: Let_def split: if_splits)
qed

text \<open>The columns of a settlement row bound each other: no more late impressions than impressions, no
  more impressions than impressions before the SSAI choice, and never a negative number of removed
  duplicates.\<close>

theorem daily_row_bounds:
  assumes "spark_ok sp" "c \<notin> set NON_CAMPAIGN" "settlement_job sp ps rates parquet = Some (days, minutes)"
    and "r \<in> set days" "sd_dt r = Some d" "sd_cid r = Some c"
  shows "0 \<le> sd_late r \<and> sd_late r \<le> sd_impressions r \<and> sd_impressions r \<le> sd_raw r \<and> 0 \<le> sd_dupes r"
proof -
  let ?raw = "raw_rows sp parquet" and ?k = "(Some d, Some c)"
  let ?ded = "dedup sp ?raw"
  let ?imp = "imp_kept sp ps (imp_all sp ?ded)"
  have "r \<in> set (filter (\<lambda>r. sd_dt r = Some d \<and> sd_cid r = Some c) (map (settle_row rates) (snd (daily_table sp ps ?raw))))"
    using assms(3-6) by (auto simp: settlement_job_def Let_def split: if_splits)
  then have r: "sd_late r = count_of (\<lambda>r. holds3 (eq3 (r_late r) True)) day_key ?k ?imp"
      "sd_impressions r = count_of (\<lambda>_. True) day_key ?k ?imp" "sd_raw r = count_of is_impression day_key ?k ?ded"
      "sd_dupes r = count_of is_impression day_key ?k ?raw - count_of is_impression day_key ?k ?ded"
    unfolding daily_rows [OF assms(1, 2)] by (simp_all split: if_splits)
  have "sd_late r \<le> sd_impressions r"
    unfolding r count_of_def by (simp only: of_nat_le_iff) (rule count_filter_mono, blast)
  moreover have "sd_impressions r \<le> sd_raw r"
    unfolding r using count_of_sub [OF ssai.sub [OF assms(1)], of "\<lambda>_. True" day_key ?k ps "imp_all sp ?ded"]
      count_imp_all [OF assms(1) keyed_keys(1) assms(2), of "\<lambda>_. True" "Some d" ?ded] by simp
  moreover have "0 \<le> sd_dupes r"
    unfolding r using count_of_sub [OF evt.sub [OF assms(1)], of is_impression day_key ?k ?raw] by simp
  ultimately show ?thesis by (simp add: r(1) count_of_def)
qed

theorem daily_row_bounds_witness:
  "\<exists>r :: settled. sd_dt r = Some 0 \<and> sd_impressions r \<le> sd_raw r \<and> sd_raw r = 2"
proof -
  let ?ps = "[''server'', ''client'']"
  note raw = demo_raw
  obtain days minutes where j: "settlement_job list_spark ?ps (\<lambda>_. Some 5000) demo_parquet = Some (days, minutes)"
    using demo_job by blast
  have c: "''c1'' \<notin> set NON_CAMPAIGN" by (simp add: NON_CAMPAIGN_def)
  have "count_of is_impression day_key (Some 0, Some ''c1'') (dedup list_spark demo_parquet) = 2"
    by (simp add: dedup_def list_spark_def demo_parquet_def demo_row_def evt_key_def count_of_def is_impression_def day_key_def)
  then obtain r where r: "filter (\<lambda>r. sd_dt r = Some 0 \<and> sd_cid r = Some ''c1'') days = [r]" "sd_raw r = 2"
    using j daily_rows [OF list_spark_ok c, of 0 "\<lambda>_. Some 5000" ?ps demo_parquet]
    by (auto simp: settlement_job_def raw Let_def split: if_splits)
  then have "r \<in> set days" "sd_dt r = Some 0" "sd_cid r = Some ''c1''" by (auto simp: filter_eq_Cons_iff)
  from daily_row_bounds [OF list_spark_ok c j this] this(2) r(2) show ?thesis
    by (intro exI [of _ r] conjI) simp_all
qed

text \<open>C14: the minute rows sum to the day's row. For a settled campaign, adding a column over its minute
  rows of a day gives that day's row's impressions, impressions before the SSAI choice, clicks,
  completions and requests.\<close>

theorem minutes_sum_to_day:
  assumes "spark_ok sp" "c \<notin> set NON_CAMPAIGN" "settlement_job sp ps rates parquet = Some (days, minutes)"
    and "r \<in> set days" "sd_dt r = Some d" "sd_cid r = Some c"
  shows "map (day_total minutes d c) [0, 1, 2, 3, 4]
    = [sd_impressions r, sd_raw r, sd_clicks r, sd_completes r, sd_requests r]"
proof -
  let ?raw = "raw_rows sp parquet"
  have m: "minutes = map (\<lambda>(k, cs). (k, fill0 cs)) (snd (minute_table sp ps ?raw))"
    and dy: "days = map (settle_row rates) (snd (daily_table sp ps ?raw))"
    using assms(3) by (auto simp: settlement_job_def Let_def split: if_splits)
  have "r \<in> set (filter (\<lambda>r. sd_dt r = Some d \<and> sd_cid r = Some c) (map (settle_row rates) (snd (daily_table sp ps ?raw))))"
    using assms(4-6) dy by simp
  then show ?thesis
    unfolding daily_rows [OF assms(1, 2)]
    by (auto simp: m day_total_sum [OF assms(1, 2)] count_day_minutes split: if_splits)
qed

theorem minutes_sum_to_day_witness:
  "\<exists>r days minutes. settlement_job list_spark [''server'', ''client''] (\<lambda>_. Some 5000) demo_parquet = Some (days, minutes) \<and>
     r \<in> set days \<and> sd_dt r = Some 0 \<and> day_total minutes 0 ''c1'' 1 = sd_raw r"
proof -
  let ?ps = "[''server'', ''client'']"
  note raw = demo_raw
  obtain days minutes where j: "settlement_job list_spark ?ps (\<lambda>_. Some 5000) demo_parquet = Some (days, minutes)"
    using demo_job by blast
  have c: "''c1'' \<notin> set NON_CAMPAIGN" by (simp add: NON_CAMPAIGN_def)
  have "count_of is_impression day_key (Some 0, Some ''c1'') (dedup list_spark demo_parquet) = 2"
    by (simp add: dedup_def list_spark_def demo_parquet_def demo_row_def evt_key_def count_of_def is_impression_def day_key_def)
  then obtain r where "filter (\<lambda>r. sd_dt r = Some 0 \<and> sd_cid r = Some ''c1'') days = [r]"
    using j daily_rows [OF list_spark_ok c, of 0 "\<lambda>_. Some 5000" ?ps demo_parquet]
    by (auto simp: settlement_job_def raw Let_def split: if_splits)
  then have "r \<in> set days" "sd_dt r = Some 0" "sd_cid r = Some ''c1''" by (auto simp: filter_eq_Cons_iff)
  with minutes_sum_to_day [OF list_spark_ok c j this] j show ?thesis
    by (intro exI [of _ r] exI [of _ days] exI [of _ minutes]) simp
qed

text \<open>C13: settlement is idempotent under redelivery. Let an archive be another one with rows delivered
  again, in any order, where rows of one event id are equal. Then whatever rows two Spark runs pick
  among ties, every settled campaign's row for a day is the same, apart from the number of removed
  duplicates.\<close>

theorem settlement_idempotent:
  assumes "spark_ok sp" "spark_ok sp'" "set parquet' = set parquet"
    and "\<forall>x \<in> set parquet. \<forall>y \<in> set parquet. r_event_id x = r_event_id y \<longrightarrow> x = y"
    and "settlement_job sp ps rates parquet = Some (days, minutes)"
    and "settlement_job sp' ps rates parquet' = Some (days', minutes')" "c \<notin> set NON_CAMPAIGN"
  shows "map (sd_dupes_update (\<lambda>_. 0)) (filter (\<lambda>r. sd_dt r = Some d \<and> sd_cid r = Some c) days')
    = map (sd_dupes_update (\<lambda>_. 0)) (filter (\<lambda>r. sd_dt r = Some d \<and> sd_cid r = Some c) days)"
proof -
  let ?raw = "raw_rows sp parquet" and ?raw' = "raw_rows sp' parquet'"
  have sets: "set (sp_filter s p xs) = set (filter p xs)" if "spark_ok s" for s p xs
    using arg_cong [OF spark_filter [OF that, of p xs], of set_mset] by simp
  have raw: "set ?raw = set ?raw'" "set ?raw \<subseteq> set parquet"
    using assms(3) by (auto simp: raw_rows_def sets [OF assms(1)] sets [OF assms(2)])
  have ded: "mset (dedup sp ?raw) = mset (dedup sp' ?raw')"
    by (rule evt.determined [OF assms(1, 2) raw(1)]) (use raw(2) assms(4) in blast)
  let ?i = "imp_all sp (dedup sp ?raw)" and ?i' = "imp_all sp' (dedup sp' ?raw')"
  have imps: "mset ?i = mset ?i'"
    using ded by (simp add: imp_all_def spark_filter [OF assms(1)] spark_filter [OF assms(2)])
  have "set ?i \<subseteq> set ?raw"
    using evt.mem [OF assms(1)] by (auto simp: imp_all_def sets [OF assms(1)])
  then have inj: "x = y" if "x \<in> set ?i" "y \<in> set ?i" "ssai_key ps x = ssai_key ps y" for x y
    using that(1, 2) raw(2) bspec [OF bspec [OF assms(4), of x], of y] ssai_key_id [OF that(3)] by blast
  have imp: "mset (imp_kept sp ps ?i) = mset (imp_kept sp' ps ?i')"
    by (rule ssai.determined [OF assms(1, 2)]) (use imps inj in \<open>auto dest: mset_eq_setD\<close>)
  have same: "count_of P day_key k (dedup sp' ?raw') = count_of P day_key k (dedup sp ?raw)"
    "count_of P day_key k (imp_kept sp' ps ?i') = count_of P day_key k (imp_kept sp ps ?i)" for P k
    using count_of_mset [OF ded] count_of_mset [OF imp] by simp_all
  have "days = map (settle_row rates) (snd (daily_table sp ps ?raw))"
    "days' = map (settle_row rates) (snd (daily_table sp' ps ?raw'))"
    using assms(5, 6) by (auto simp: settlement_job_def Let_def split: if_splits)
  then show ?thesis
    by (simp only: daily_rows [OF assms(1, 7)] daily_rows [OF assms(2, 7)] same split: if_split) simp
qed

theorem settlement_idempotent_witness:
  "\<exists>days minutes days' minutes'.
     settlement_job list_spark [''server''] (\<lambda>_. None) demo_parquet = Some (days, minutes) \<and>
     settlement_job list_spark [''server''] (\<lambda>_. None) (demo_parquet @ demo_parquet) = Some (days', minutes') \<and>
     map (sd_dupes_update (\<lambda>_. 0)) (filter (\<lambda>r. sd_dt r = Some 0 \<and> sd_cid r = Some ''c1'') days')
       = map (sd_dupes_update (\<lambda>_. 0)) (filter (\<lambda>r. sd_dt r = Some 0 \<and> sd_cid r = Some ''c1'') days)"
proof -
  have raw: "raw_rows list_spark demo_parquet = demo_parquet"
    "raw_rows list_spark (demo_parquet @ demo_parquet) = demo_parquet @ demo_parquet" "demo_parquet \<noteq> []"
    by (simp_all add: raw_rows_def list_spark_def demo_parquet_def demo_row_def)
  obtain days minutes where j: "settlement_job list_spark [''server''] (\<lambda>_. None) demo_parquet = Some (days, minutes)"
    using demo_job by blast
  obtain days' minutes' where j': "settlement_job list_spark [''server''] (\<lambda>_. None) (demo_parquet @ demo_parquet) = Some (days', minutes')"
    using job_returns [of list_spark "demo_parquet @ demo_parquet" "[''server'']" "\<lambda>_. None"] raw by auto
  have c: "''c1'' \<notin> set NON_CAMPAIGN" by (simp add: NON_CAMPAIGN_def)
  have f: "\<forall>x \<in> set demo_parquet. \<forall>y \<in> set demo_parquet. r_event_id x = r_event_id y \<longrightarrow> x = y"
    by (simp add: demo_parquet_def demo_row_def)
  have "set (demo_parquet @ demo_parquet) = set demo_parquet" by simp
  from settlement_idempotent [OF list_spark_ok list_spark_ok this f j j' c] j j' show ?thesis by blast
qed

text \<open>C40: which days have rows. For a settled campaign the daily table has a row exactly for the days
  with a deduplicated impression, while the minute table has a row exactly for the minutes with an
  impression, a click, a completion or a filled response: a day on which a campaign has clicks or
  requests and no impression is in the minute table and missing from the settlement.\<close>

theorem days_without_impressions_are_missing:
  assumes "spark_ok sp" "c \<notin> set NON_CAMPAIGN" "settlement_job sp ps rates parquet = Some (days, minutes)"
  shows "((\<exists>r \<in> set days. sd_dt r = Some d \<and> sd_cid r = Some c) \<longleftrightarrow>
       (\<exists>x \<in> set (dedup sp (raw_rows sp parquet)). is_impression x \<and> day_key x = (Some d, Some c))) \<and>
    ((\<exists>v. ((Some m, Some c), v) \<in> set minutes) \<longleftrightarrow>
       (\<exists>x \<in> set (dedup sp (raw_rows sp parquet)). minute_key x = (Some m, Some c) \<and>
          (is_impression x \<or> is_click x \<or> is_completion x \<or> is_filled_response x)))"
proof -
  let ?raw = "raw_rows sp parquet"
  let ?ded = "dedup sp ?raw" and ?k = "(Some m, Some c)"
  let ?imps = "imp_all sp ?ded"
  let ?imp = "imp_kept sp ps ?imps"
  have mi: "minutes = map (\<lambda>(k, cs). (k, fill0 cs)) (snd (minute_table sp ps ?raw))"
    and dy: "days = map (settle_row rates) (snd (daily_table sp ps ?raw))"
    using assms(3) by (auto simp: settlement_job_def Let_def split: if_splits)
  have pos: "count_of P g k xs \<noteq> 0 \<longleftrightarrow> (\<exists>x \<in> set xs. P x \<and> g x = k)" for P g k xs
    by (auto simp: count_of_def filter_empty_conv)
  have "(\<exists>r \<in> set days. sd_dt r = Some d \<and> sd_cid r = Some c) \<longleftrightarrow>
      filter (\<lambda>r. sd_dt r = Some d \<and> sd_cid r = Some c) days \<noteq> []" by (simp add: filter_empty_conv)
  also have "\<dots> \<longleftrightarrow> count_of is_impression day_key (Some d, Some c) ?ded \<noteq> 0"
    unfolding dy daily_rows [OF assms(1, 2)] by simp
  finally have days: "(\<exists>r \<in> set days. sd_dt r = Some d \<and> sd_cid r = Some c) \<longleftrightarrow>
      count_of is_impression day_key (Some d, Some c) ?ded \<noteq> 0" .
  have "count_of (\<lambda>_. True) minute_key ?k ?imp \<le> count_of is_impression minute_key ?k ?ded"
    using count_of_sub [OF ssai.sub [OF assms(1)], of "\<lambda>_. True" minute_key ?k ps ?imps]
      count_imp_all [OF assms(1) keyed_keys(2) assms(2), of "\<lambda>_. True" "Some m" ?ded] by simp
  moreover have "0 \<le> count_of (\<lambda>_. True) minute_key ?k ?imp" by (simp add: count_of_def)
  ultimately have le: "count_of is_impression minute_key ?k ?ded = 0 \<Longrightarrow> count_of (\<lambda>_. True) minute_key ?k ?imp = 0"
    by linarith
  have "(\<exists>v. (?k, v) \<in> set minutes) \<longleftrightarrow> image_mset fill0 (cells (minute_table sp ps ?raw) ?k) \<noteq> {#}"
    unfolding mi by (simp only: cells_nonempty)
  also have "\<dots> \<longleftrightarrow> count_of is_impression minute_key ?k ?ded \<noteq> 0 \<or> count_of is_click minute_key ?k ?ded \<noteq> 0 \<or>
      count_of is_completion minute_key ?k ?ded \<noteq> 0 \<or> count_of is_filled_response minute_key ?k ?ded \<noteq> 0"
    unfolding minute_table_cells [OF assms(1, 2)] using le by (auto simp: numeral_eq_Suc)
  finally show ?thesis unfolding days pos by blast
qed

theorem days_without_impressions_are_missing_witness:
  "\<exists>days minutes. settlement_job list_spark [''server''] (\<lambda>_. None) [demo_row ''e1'' ''click'' ''client'' 60000] = Some (days, minutes) \<and>
     \<not> (\<exists>r \<in> set days. sd_dt r = Some 0 \<and> sd_cid r = Some ''c1'') \<and> (\<exists>v. ((Some 1, Some ''c1''), v) \<in> set minutes)"
proof -
  let ?p = "[demo_row ''e1'' ''click'' ''client'' 60000]"
  have raw: "raw_rows list_spark ?p = ?p" "dedup list_spark ?p = ?p"
    by (simp_all add: raw_rows_def dedup_def list_spark_def demo_row_def)
  obtain days minutes where j: "settlement_job list_spark [''server''] (\<lambda>_. None) ?p = Some (days, minutes)"
    using job_returns [of list_spark ?p "[''server'']" "\<lambda>_. None"] raw by auto
  have c: "''c1'' \<notin> set NON_CAMPAIGN" by (simp add: NON_CAMPAIGN_def)
  have x: "\<not> is_impression (demo_row ''e1'' ''click'' ''client'' 60000)" "is_click (demo_row ''e1'' ''click'' ''client'' 60000)"
    "minute_key (demo_row ''e1'' ''click'' ''client'' 60000) = (Some 1, Some ''c1'')"
    by (simp_all add: demo_row_def is_impression_def is_click_def minute_key_def)
  from days_without_impressions_are_missing [OF list_spark_ok c j, of 0 1, unfolded raw] j x show ?thesis
    by (intro exI [of _ days] exI [of _ minutes]) simp
qed

end
