(* ===== verification/Reconcile.thy ===== *)
theory Reconcile
  imports Py_Time Redis_Writer
begin

text \<open>
  The reconciliation of realtime and settled counts (\<open>spark/reconcile.py\<close>).

  What the job reads is an input: the reply of the writer's \<open>/agg/summary\<close>, the collected rows of the
  batch query and of the \<open>late_dropped\<close> query, each for the epoch range the job computes.  The
  texts of the causes are constructors; their numbers are kept.  The printed report is not modelled
  apart from its totals and its warning flag.
\<close>

section \<open>Ranges\<close>

definition parse_utc :: "string \<Rightarrow> int result" where
  \<comment> \<open>epoch seconds, cut to the minute\<close>
  "parse_utc s = (case fromisoformat s of
     None \<Rightarrow> Inl ValueError
   | Some (secs, fr) \<Rightarrow> if datetime_ok secs then Inr (secs div 60 * 60) else Inl OtherError)"

record recon_env =
  re_dt :: string
  re_from :: "string option"
  re_to :: "string option"
  re_warn :: rat

definition ranged :: "recon_env \<Rightarrow> bool" where
  "ranged env \<longleftrightarrow> re_from env \<noteq> None \<and> re_to env \<noteq> None"

definition recon_range :: "recon_env \<Rightarrow> (int \<times> int) result" where
  "recon_range env = (case (re_from env, re_to env) of
     (Some f, Some t) \<Rightarrow> rbind (parse_utc f) (\<lambda>t0. rbind (parse_utc t) (\<lambda>t1. Inr (t0, t1)))
   | _ \<Rightarrow> (case strptime_date (re_dt env) of
       None \<Rightarrow> Inl ValueError
     | Some t0 \<Rightarrow> if datetime_ok (t0 + 86400) then Inr (t0, t0 + 86400) else Inl OtherError))"

definition realtime_query :: "int \<Rightarrow> int \<Rightarrow> (string \<times> string list) list" where
  \<comment> \<open>the query of \<open>fetch_realtime\<close>\<close>
  "realtime_query t0 t1 = [(''from'', [dec_int t0]), (''to'', [dec_int t1])]"

section \<open>Inputs\<close>

record batch_row =
  br_cid :: "string option"
  br_imp :: "int option"
  br_raw :: "int option"

record recon_io =
  io_summary :: "int \<Rightarrow> int \<Rightarrow> (string \<times> int) list option"
  io_batch :: "bool \<Rightarrow> int \<Rightarrow> int \<Rightarrow> batch_row list"
  io_late :: "int \<Rightarrow> int \<Rightarrow> (string option \<times> int) list option"
  \<comment> \<open>the summary's impressions by campaign, \<open>None\<close> when the request raises; the batch rows; the late
     counts by campaign, \<open>None\<close> when the table cannot be read\<close>

definition fetch_late_dropped :: "recon_io \<Rightarrow> int \<Rightarrow> int \<Rightarrow> (string option \<times> int) list" where
  "fetch_late_dropped io t0 t1 = (case io_late io t0 t1 of None \<Rightarrow> [] | Some rows \<Rightarrow> rows)"

definition fetch_batch :: "recon_io \<Rightarrow> bool \<Rightarrow> int \<Rightarrow> int \<Rightarrow> (string \<times> batch_row) list" where
  \<comment> \<open>the dictionary by campaign id; rows with an empty or missing id are dropped\<close>
  "fetch_batch io rng t0 t1 =
     fold (\<lambda>r acc. case br_cid r of
         None \<Rightarrow> acc
       | Some c \<Rightarrow> if c = [] then acc else AList.update c r acc)
       (io_batch io rng t0 t1) []"

section \<open>Causes\<close>

datatype part = LatePart int | SsaiPart int | ResidualPlus int | ResidualMinus int

datatype cause = RealtimeMissing | BatchMissing | Parts "part list" | NoDifference

definition classify :: "int \<Rightarrow> int \<Rightarrow> int \<Rightarrow> int \<Rightarrow> int \<Rightarrow> cause" where
  "classify ssai late residual rt bt =
     (if rt = 0 \<and> bt > 0 then RealtimeMissing
      else if bt = 0 \<and> rt > 0 then BatchMissing
      else (let parts = (if late \<noteq> 0 then [LatePart late] else []) @ (if ssai \<noteq> 0 then [SsaiPart ssai] else []) @
              (if residual > 0 then [ResidualPlus residual] else if residual < 0 then [ResidualMinus residual] else [])
            in if parts \<noteq> [] then Parts parts else NoDifference))"

section \<open>The comparison\<close>

record recon_row =
  rr_cid :: string
  rr_realtime :: int
  rr_batch :: int
  rr_diff :: int
  rr_rate :: rat
  rr_cause :: cause
  rr_flag :: bool

record recon_totals =
  rt_realtime :: int
  rt_batch :: int
  rt_late :: int
  rt_ssai :: int

definition round4 :: "rat \<Rightarrow> rat" where
  \<comment> \<open>\<open>round(x, 4)\<close>: half to even\<close>
  "round4 x = (let y = x * 10000; n = \<lfloor>y\<rfloor>; h = y - of_int n in
     of_int (if h < 1 / 2 \<or> (h = 1 / 2 \<and> even n) then n else n + 1) / 10000)"

definition dict_int :: "('k \<times> int) list \<Rightarrow> 'k \<Rightarrow> int" where
  \<comment> \<open>\<open>d.get(k, 0)\<close>\<close>
  "dict_int d k = (case map_of d k of None \<Rightarrow> 0 | Some n \<Rightarrow> n)"

definition batch_field :: "(batch_row \<Rightarrow> int option) \<Rightarrow> (string \<times> batch_row) list \<Rightarrow> string \<Rightarrow> int" where
  \<comment> \<open>\<open>int(b_rows.get(cid, {}).get(f) or 0)\<close>\<close>
  "batch_field f rows cid = (case map_of rows cid of None \<Rightarrow> 0 | Some r \<Rightarrow> (case f r of None \<Rightarrow> 0 | Some n \<Rightarrow> n))"

definition compare_one ::
    "rat \<Rightarrow> (string \<times> int) list \<Rightarrow> (string \<times> batch_row) list \<Rightarrow> (string option \<times> int) list \<Rightarrow> string \<Rightarrow>
      recon_row \<times> int \<times> int" where
  \<comment> \<open>one turn of the loop: the row, and the late and SSAI counts it adds to the totals\<close>
  "compare_one warn rts b_rows late_by cid =
     (let r_imp = dict_int rts cid;
          b_imp = batch_field br_imp b_rows cid;
          ssai = batch_field br_raw b_rows cid - b_imp;
          late = dict_int late_by (Some cid);
          diff = b_imp - r_imp;
          residual = diff - (late - ssai);
          rate = of_int diff / of_int (max (max r_imp b_imp) 1)
      in (\<lparr>rr_cid = cid, rr_realtime = r_imp, rr_batch = b_imp, rr_diff = diff, rr_rate = round4 rate,
           rr_cause = classify ssai late residual r_imp b_imp, rr_flag = (\<bar>rate\<bar> > warn)\<rparr>, late, ssai))"

fun compare_loop ::
    "rat \<Rightarrow> (string \<times> int) list \<Rightarrow> (string \<times> batch_row) list \<Rightarrow> (string option \<times> int) list \<Rightarrow> string list \<Rightarrow>
      recon_totals \<Rightarrow> recon_row list \<times> recon_totals" where
  "compare_loop warn rts b_rows late_by [] t = ([], t)"
| "compare_loop warn rts b_rows late_by (cid # cids) t =
     (let (row, late, ssai) = compare_one warn rts b_rows late_by cid;
          t = \<lparr>rt_realtime = rt_realtime t + rr_realtime row, rt_batch = rt_batch t + rr_batch row,
               rt_late = rt_late t + late, rt_ssai = rt_ssai t + ssai\<rparr>;
          (rows, t) = compare_loop warn rts b_rows late_by cids t
      in (row # rows, t))"

definition campaign_ids :: "(string \<times> int) list \<Rightarrow> (string \<times> batch_row) list \<Rightarrow> string list" where
  "campaign_ids rts b_rows = sort (remdups (map fst rts @ map fst b_rows))"

definition totals_init :: recon_totals where
  "totals_init = \<lparr>rt_realtime = 0, rt_batch = 0, rt_late = 0, rt_ssai = 0\<rparr>"

definition total_residual :: "recon_totals \<Rightarrow> int" where
  \<comment> \<open>\<open>td - (t_late - t_ssai)\<close>\<close>
  "total_residual t = (rt_batch t - rt_realtime t) - (rt_late t - rt_ssai t)"

datatype recon_result = NoRealtime | NothingToCompare | Compared "recon_row list" recon_totals

definition reconcile :: "recon_io \<Rightarrow> recon_env \<Rightarrow> recon_result result" where
  "reconcile io env = rbind (recon_range env) (\<lambda>(t0, t1).
     case io_summary io t0 t1 of
       None \<Rightarrow> Inr NoRealtime
     | Some rts \<Rightarrow>
         (let b_rows = fetch_batch io (ranged env) t0 t1;
              late_by = fetch_late_dropped io t0 t1
          in if rts = [] \<and> b_rows = [] then Inr NothingToCompare
             else (let (rows, t) = compare_loop (re_warn env) rts b_rows late_by (campaign_ids rts b_rows) totals_init
                   in Inr (Compared rows t))))"

section \<open>Lemmas\<close>

fun part_value :: "part \<Rightarrow> int" where
  \<comment> \<open>the amount a part adds to the settled count\<close>
  "part_value (LatePart n) = n"
| "part_value (SsaiPart n) = - n"
| "part_value (ResidualPlus n) = n"
| "part_value (ResidualMinus n) = n"

definition residual_of :: "(string \<times> int) list \<Rightarrow> (string \<times> batch_row) list \<Rightarrow> (string option \<times> int) list \<Rightarrow> string \<Rightarrow> int" where
  "residual_of rts b_rows late_by cid =
     batch_field br_raw b_rows cid - dict_int rts cid - dict_int late_by (Some cid)"

lemma compare_loop_rows:
  "compare_loop warn rts b_rows late_by cids t = (rows, t') \<Longrightarrow>
     rows = map (\<lambda>c. fst (compare_one warn rts b_rows late_by c)) cids \<and>
     rt_realtime t' = rt_realtime t + (\<Sum>c\<leftarrow>cids. dict_int rts c) \<and>
     rt_batch t' = rt_batch t + (\<Sum>c\<leftarrow>cids. batch_field br_imp b_rows c) \<and>
     rt_late t' = rt_late t + (\<Sum>c\<leftarrow>cids. dict_int late_by (Some c)) \<and>
     total_residual t' = total_residual t + (\<Sum>c\<leftarrow>cids. residual_of rts b_rows late_by c)"
proof (induction cids arbitrary: t rows t')
  case (Cons c cids)
  obtain row late ssai where one: "compare_one warn rts b_rows late_by c = (row, late, ssai)" by (metis prod_cases3)
  let ?t = "\<lparr>rt_realtime = rt_realtime t + rr_realtime row, rt_batch = rt_batch t + rr_batch row,
               rt_late = rt_late t + late, rt_ssai = rt_ssai t + ssai\<rparr>"
  obtain rows' t2 where loop: "compare_loop warn rts b_rows late_by cids ?t = (rows', t2)" by force
  from Cons.prems one loop have r: "rows = row # rows'" "t' = t2" by (auto simp: Let_def)
  from one have v: "rr_realtime row = dict_int rts c" "rr_batch row = batch_field br_imp b_rows c"
    "late = dict_int late_by (Some c)" "ssai = batch_field br_raw b_rows c - batch_field br_imp b_rows c"
    by (auto simp: compare_one_def Let_def)
  from Cons.IH [OF loop] show ?case
    by (simp add: r(1) r(2) v one total_residual_def residual_of_def)
qed simp

lemma campaign_ids_set:
  "set (campaign_ids rts b_rows) = fst ` set rts \<union> fst ` set b_rows" "distinct (campaign_ids rts b_rows)"
  "sorted (campaign_ids rts b_rows)"
  by (simp_all add: campaign_ids_def)

lemma reconcile_compared:
  assumes "reconcile io env = Inr (Compared rows t)"
  obtains t0 t1 rts where "recon_range env = Inr (t0, t1)" "io_summary io t0 t1 = Some rts"
    "compare_loop (re_warn env) rts (fetch_batch io (ranged env) t0 t1) (fetch_late_dropped io t0 t1)
       (campaign_ids rts (fetch_batch io (ranged env) t0 t1)) totals_init = (rows, t)"
proof -
  obtain t0 t1 where r: "recon_range env = Inr (t0, t1)"
    using assms by (auto simp: reconcile_def rbind_eq_Inr_iff)
  let ?b = "fetch_batch io (ranged env) t0 t1" and ?l = "fetch_late_dropped io t0 t1"
  obtain rts where s: "io_summary io t0 t1 = Some rts"
    using assms by (cases "io_summary io t0 t1") (simp_all add: reconcile_def r)
  obtain rows' t' where l: "compare_loop (re_warn env) rts ?b ?l (campaign_ids rts ?b) totals_init = (rows', t')" by force
  have "rows' = rows \<and> t' = t" using assms by (simp add: reconcile_def r s l Let_def split: if_splits)
  with that [OF r s] l show thesis by simp
qed

lemma recon_range_minutes: "recon_range env = Inr (t0, t1) \<Longrightarrow> t0 mod 60 = 0 \<and> t1 mod 60 = 0"
  by (auto simp: recon_range_def parse_utc_def strptime_date_def rbind_eq_Inr_iff Let_def
      split: option.splits if_splits prod.splits Option.bind_splits)

lemma compare_one_simps:
  "rr_cid (fst (compare_one warn rts b_rows late_by c)) = c"
  "rr_realtime (fst (compare_one warn rts b_rows late_by c)) = dict_int rts c"
  "rr_batch (fst (compare_one warn rts b_rows late_by c)) = batch_field br_imp b_rows c"
  "rr_diff (fst (compare_one warn rts b_rows late_by c)) = batch_field br_imp b_rows c - dict_int rts c"
  "rr_cause (fst (compare_one warn rts b_rows late_by c)) =
     classify (batch_field br_raw b_rows c - batch_field br_imp b_rows c) (dict_int late_by (Some c))
       (residual_of rts b_rows late_by c) (dict_int rts c) (batch_field br_imp b_rows c)"
  by (simp_all add: compare_one_def Let_def residual_of_def algebra_simps)

lemma classify_parts:
  assumes "bt - rt = late - ssai + residual"
  shows "case classify ssai late residual rt bt of
      Parts ps \<Rightarrow> sum_list (map part_value ps) = bt - rt \<and> (\<forall>p \<in> set ps. part_value p \<noteq> 0)
    | NoDifference \<Rightarrow> bt = rt \<and> late = 0 \<and> ssai = 0 \<and> residual = 0
    | RealtimeMissing \<Rightarrow> rt = 0 \<and> 0 < bt
    | BatchMissing \<Rightarrow> bt = 0 \<and> 0 < rt"
  using assms by (auto simp: classify_def Let_def)

lemma round4_bounds: "\<bar>x\<bar> \<le> 1 \<Longrightarrow> \<bar>round4 x\<bar> \<le> 1"
proof -
  assume x: "\<bar>x\<bar> \<le> 1"
  let ?n = "\<lfloor>x * 10000\<rfloor>"
  have "- 10000 \<le> x * 10000" "x * 10000 \<le> 10000" using x by linarith+
  then have n: "- 10000 \<le> ?n" "?n \<le> 10000" by linarith+
  have up: "?n + 1 \<le> 10000" if "\<not> (x * 10000 - of_int ?n < 1 / 2)"
  proof (rule ccontr)
    assume a: "\<not> ?n + 1 \<le> 10000"
    have "?n = 10000" using n a by linarith
    with that \<open>x * 10000 \<le> 10000\<close> show False by simp
  qed
  define m where "m = (if x * 10000 - of_int ?n < 1 / 2 \<or> (x * 10000 - of_int ?n = 1 / 2 \<and> even ?n) then ?n else ?n + 1)"
  have "m = ?n \<or> (m = ?n + 1 \<and> ?n + 1 \<le> 10000)" unfolding m_def using up by (simp only: split: if_split) blast
  then have "- 10000 \<le> m" "m \<le> 10000" using n by linarith+
  then have "- 10000 \<le> (of_int m :: rat)" "(of_int m :: rat) \<le> 10000"
    by (metis of_int_le_iff of_int_minus of_int_numeral, metis of_int_le_iff of_int_numeral)
  moreover have "round4 x = of_int m / 10000" by (simp only: round4_def Let_def m_def)
  ultimately show ?thesis by (simp only: abs_le_iff) linarith
qed

section \<open>Properties\<close>

definition demo_io :: recon_io where
  \<comment> \<open>c1: 100 seen in realtime, 98 settled of 102, 2 late; c2: only a late-free batch\<close>
  "demo_io = \<lparr>io_summary = (\<lambda>_ _. Some [(''c1'', 100)]),
     io_batch = (\<lambda>_ _ _. [\<lparr>br_cid = Some ''c1'', br_imp = Some 98, br_raw = Some 102\<rparr>]),
     io_late = (\<lambda>_ _. Some [(Some ''c1'', 2)])\<rparr>"

definition demo_env :: recon_env where
  "demo_env = \<lparr>re_dt = ''2026-09-21'', re_from = None, re_to = None, re_warn = 1 / 20\<rparr>"

lemma demo_range: "recon_range demo_env = Inr (1789948800, 1790035200)"
proof -
  have "strptime_date ''2026-09-21'' = Some 1789948800" "datetime_ok 1790035200" by code_simp+
  then show ?thesis by (simp add: recon_range_def demo_env_def)
qed

lemma demo_compared: "\<exists>rows t. reconcile demo_io demo_env = Inr (Compared rows t)"
  by (simp add: reconcile_def demo_range demo_io_def Let_def split: prod.splits)

lemma demo_rows:
  assumes "reconcile demo_io demo_env = Inr (Compared rows t)"
  shows "rows = [fst (compare_one (1 / 20) [(''c1'', 100)]
      [(''c1'', \<lparr>br_cid = Some ''c1'', br_imp = Some 98, br_raw = Some 102\<rparr>)] [(Some ''c1'', 2)] ''c1'')]"
  using assms unfolding reconcile_def demo_range
  by (auto simp: demo_io_def demo_env_def fetch_batch_def fetch_late_dropped_def campaign_ids_def Let_def split: prod.splits)

text \<open>C15: the reconciliation covers every campaign once and adds up. The rows are the campaigns of
  either side in ascending order, each once; each row's difference is its settled count minus its
  realtime count; the totals are the sums over the rows, and the total residual is the sum, over the
  rows, of impressions before the SSAI choice minus the realtime count minus the late count.\<close>

theorem reconciliation_adds_up:
  assumes "reconcile io env = Inr (Compared rows t)"
  shows "\<exists>t0 t1 rts. io_summary io t0 t1 = Some rts \<and> recon_range env = Inr (t0, t1) \<and>
    (let b_rows = fetch_batch io (ranged env) t0 t1; late_by = fetch_late_dropped io t0 t1 in
      sorted (map rr_cid rows) \<and> distinct (map rr_cid rows) \<and>
      set (map rr_cid rows) = fst ` set rts \<union> fst ` set b_rows \<and>
      (\<forall>r \<in> set rows. rr_realtime r = dict_int rts (rr_cid r) \<and> rr_batch r = batch_field br_imp b_rows (rr_cid r) \<and>
         rr_diff r = rr_batch r - rr_realtime r) \<and>
      rt_realtime t = (\<Sum>r\<leftarrow>rows. rr_realtime r) \<and> rt_batch t = (\<Sum>r\<leftarrow>rows. rr_batch r) \<and>
      rt_late t = (\<Sum>r\<leftarrow>rows. dict_int late_by (Some (rr_cid r))) \<and>
      total_residual t = (\<Sum>r\<leftarrow>rows. batch_field br_raw b_rows (rr_cid r) - rr_realtime r - dict_int late_by (Some (rr_cid r))))"
proof (rule reconcile_compared [OF assms])
  fix t0 t1 rts
  let ?b = "fetch_batch io (ranged env) t0 t1" and ?l = "fetch_late_dropped io t0 t1"
  assume r: "recon_range env = Inr (t0, t1)" "io_summary io t0 t1 = Some rts"
    and loop: "compare_loop (re_warn env) rts ?b ?l (campaign_ids rts ?b) totals_init = (rows, t)"
  note c = compare_loop_rows [OF loop]
  have "map rr_cid rows = campaign_ids rts ?b" using c by (simp add: comp_def compare_one_simps)
  with c campaign_ids_set [of rts ?b] show ?thesis
    by (intro exI [of _ t0] exI [of _ t1] exI [of _ rts])
      (simp add: r Let_def comp_def compare_one_simps totals_init_def total_residual_def residual_of_def)
qed

theorem reconciliation_adds_up_witness:
  "\<exists>rows t. reconcile demo_io demo_env = Inr (Compared rows t) \<and> set (map rr_cid rows) = {''c1''}"
proof -
  obtain rows t where r: "reconcile demo_io demo_env = Inr (Compared rows t)" using demo_compared by blast
  from reconciliation_adds_up [OF r] r show ?thesis
    by (auto simp: Let_def demo_io_def fetch_batch_def)
qed

text \<open>C16: a row's cause accounts for its difference. When parts are listed they add up to the
  difference, late and residual parts with their sign and the SSAI part subtracted, and none is
  zero; "no difference" is reported only when the counts are equal and nothing was late, removed or
  left over; a missing side is reported only when that side is zero and the other positive.\<close>

theorem causes_account_for_difference:
  assumes "reconcile io env = Inr (Compared rows t)" "r \<in> set rows"
  shows "case rr_cause r of
      Parts ps \<Rightarrow> sum_list (map part_value ps) = rr_diff r \<and> (\<forall>p \<in> set ps. part_value p \<noteq> 0)
    | NoDifference \<Rightarrow> rr_batch r = rr_realtime r \<and> rr_diff r = 0
    | RealtimeMissing \<Rightarrow> rr_realtime r = 0 \<and> 0 < rr_batch r
    | BatchMissing \<Rightarrow> rr_batch r = 0 \<and> 0 < rr_realtime r"
proof (rule reconcile_compared [OF assms(1)])
  fix t0 t1 rts
  let ?b = "fetch_batch io (ranged env) t0 t1" and ?l = "fetch_late_dropped io t0 t1"
  assume loop: "compare_loop (re_warn env) rts ?b ?l (campaign_ids rts ?b) totals_init = (rows, t)"
  then obtain c where c: "r = fst (compare_one (re_warn env) rts ?b ?l c)"
    using assms(2) compare_loop_rows [OF loop] by auto
  have "batch_field br_imp ?b c - dict_int rts c = dict_int ?l (Some c)
      - (batch_field br_raw ?b c - batch_field br_imp ?b c) + residual_of rts ?b ?l c"
    by (simp add: residual_of_def)
  from classify_parts [OF this] show ?thesis
    unfolding c compare_one_simps by (auto split: cause.splits)
qed

theorem causes_account_for_difference_witness:
  "\<exists>rows t r ps. reconcile demo_io demo_env = Inr (Compared rows t) \<and> r \<in> set rows \<and>
     rr_cause r = Parts ps \<and> sum_list (map part_value ps) = - 2"
proof -
  obtain rows t where r: "reconcile demo_io demo_env = Inr (Compared rows t)" using demo_compared by blast
  note rows = demo_rows [OF r]
  let ?r = "hd rows"
  have m: "?r \<in> set rows" by (simp add: rows)
  have "rr_cause ?r = Parts [LatePart 2, SsaiPart 4]" "rr_diff ?r = - 2"
    by (simp_all add: rows compare_one_simps classify_def batch_field_def dict_int_def residual_of_def)
  with causes_account_for_difference [OF r m] r m show ?thesis by auto
qed

text \<open>The stored difference rate is a proportion: between -1 and 1 when the counts are not
  negative, and the warning flag is set only when the counts differ, for a nonnegative threshold.\<close>

theorem difference_rate_bounded:
  assumes "reconcile io env = Inr (Compared rows t)" "r \<in> set rows" "0 \<le> rr_realtime r" "0 \<le> rr_batch r" "0 \<le> re_warn env"
  shows "\<bar>rr_rate r\<bar> \<le> 1 \<and> (rr_flag r \<longrightarrow> rr_realtime r \<noteq> rr_batch r)"
proof (rule reconcile_compared [OF assms(1)])
  fix t0 t1 rts
  let ?b = "fetch_batch io (ranged env) t0 t1" and ?l = "fetch_late_dropped io t0 t1"
  assume loop: "compare_loop (re_warn env) rts ?b ?l (campaign_ids rts ?b) totals_init = (rows, t)"
  then obtain c where c: "r = fst (compare_one (re_warn env) rts ?b ?l c)"
    using assms(2) compare_loop_rows [OF loop] by auto
  let ?rt = "dict_int rts c" and ?bt = "batch_field br_imp ?b c"
  let ?m = "max (max ?rt ?bt) 1"
  have nn: "0 \<le> ?rt" "0 \<le> ?bt" using assms(3, 4) by (simp_all add: c compare_one_simps)
  then have "\<bar>?bt - ?rt\<bar> \<le> ?m" "0 < ?m" by auto
  then have "\<bar>of_int (?bt - ?rt) / of_int ?m\<bar> \<le> (1 :: rat)"
    by (metis abs_divide abs_of_pos divide_le_eq_1_pos of_int_0_less_iff of_int_abs of_int_le_iff)
  from round4_bounds [OF this] assms(5) show ?thesis
    by (auto simp: c compare_one_def Let_def)
qed

theorem difference_rate_bounded_witness:
  "\<exists>rows t r. reconcile demo_io demo_env = Inr (Compared rows t) \<and> r \<in> set rows \<and> \<bar>rr_rate r\<bar> \<le> 1"
proof -
  obtain rows t where r: "reconcile demo_io demo_env = Inr (Compared rows t)" using demo_compared by blast
  note rows = demo_rows [OF r]
  have "hd rows \<in> set rows" "0 \<le> rr_realtime (hd rows)" "0 \<le> rr_batch (hd rows)" "0 \<le> re_warn demo_env"
    by (simp_all add: rows compare_one_simps dict_int_def batch_field_def demo_env_def)
  from difference_rate_bounded [OF r this] this(1) r show ?thesis by blast
qed

text \<open>Late events alone are reported as a missing realtime. When a campaign has no realtime count
  and its whole settled count is explained by events the windows dropped (no SSAI twin, no
  residual), the cause is not "late": the row says that realtime was not aggregated.\<close>

theorem all_late_reported_as_missing:
  assumes "0 < n"
  shows "rr_cause (fst (compare_one warn [] [(c, \<lparr>br_cid = Some c, br_imp = Some n, br_raw = Some n\<rparr>)] [(Some c, n)] c))
      = RealtimeMissing \<and>
    residual_of [] [(c, \<lparr>br_cid = Some c, br_imp = Some n, br_raw = Some n\<rparr>)] [(Some c, n)] c = 0"
  using assms by (simp add: compare_one_simps classify_def dict_int_def batch_field_def residual_of_def)

theorem all_late_reported_as_missing_witness:
  "rr_cause (fst (compare_one (1 / 20) [] [(''c1'', \<lparr>br_cid = Some ''c1'', br_imp = Some 3, br_raw = Some 3\<rparr>)]
     [(Some ''c1'', 3)] ''c1'')) = RealtimeMissing"
  using all_late_reported_as_missing [of 3] by simp

text \<open>Both sides are asked for the same minutes. The range the job computes starts and ends on a
  minute, so the writer's rounding leaves it alone: the realtime sum covers the aggregates whose
  window starts in the half-open range, the one the batch and late queries use.\<close>

theorem realtime_range_is_batch_range:
  assumes "recon_range env = Inr (t0, t1)"
  shows "summary_range now (realtime_query t0 t1) = Inr (t0, t1 - 1)"
proof -
  have "t0 div 60 * 60 = t0" "t1 div 60 * 60 = t1"
    using recon_range_minutes [OF assms] by (simp_all add: mod_0_imp_dvd)
  then show ?thesis by (simp add: summary_range_def realtime_query_def query_first_def)
qed

theorem realtime_range_is_batch_range_witness:
  "summary_range 0 (realtime_query 1789948800 1790035200) = Inr (1789948800, 1790035199)"
  using realtime_range_is_batch_range [OF demo_range, of 0] by simp

end
