(* ===== verification/Catalog.thy ===== *)
theory Catalog
  imports Prelude
begin

text \<open>
  The content and campaign tables: \<open>generator/catalog.py\<close> and \<open>player/catalog.py\<close>.  Titles, posters and
  taglines are display texts and are left out; a style is the pair of its colours.
\<close>

section \<open>Generator\<close>

record content =
  ct_id :: string
  ct_kind :: string
  ct_duration :: int
  ct_breaks :: "int list"

fun range_step :: "nat \<Rightarrow> int \<Rightarrow> int \<Rightarrow> int list" where
  \<comment> \<open>\<open>range(a, a + ..., step)\<close>: \<open>n\<close> elements\<close>
  "range_step 0 a step = []"
| "range_step (Suc n) a step = a # range_step n (a + step) step"

definition py_range :: "int \<Rightarrow> int \<Rightarrow> int \<Rightarrow> int list" where
  \<comment> \<open>\<open>range(a, b, step)\<close> for a positive step\<close>
  "py_range a b step = range_step (nat ((b - a + step - 1) div step)) a step"

definition CATALOG :: "content list" where
  "CATALOG =
     [\<lparr>ct_id = ''ct-kbo-0912'', ct_kind = ''live'', ct_duration = 10800, ct_breaks = py_range 600 10800 600\<rparr>,
      \<lparr>ct_id = ''ct-drama-201'', ct_kind = ''vod'', ct_duration = 3600, ct_breaks = [0, 900, 1800, 2700]\<rparr>,
      \<lparr>ct_id = ''ct-movie-77'', ct_kind = ''vod'', ct_duration = 7200, ct_breaks = [0, 1800, 3600, 5400]\<rparr>,
      \<lparr>ct_id = ''ct-var-33'', ct_kind = ''vod'', ct_duration = 4500, ct_breaks = [0, 1200, 2400, 3600]\<rparr>,
      \<lparr>ct_id = ''ct-news-live'', ct_kind = ''live'', ct_duration = 10800, ct_breaks = py_range 900 10800 900\<rparr>]"

definition CAMPAIGNS :: "(string \<times> rat) list" where
  "CAMPAIGNS = [(''cmp-1001'', 30 / 100), (''cmp-1002'', 25 / 100), (''cmp-1003'', 20 / 100),
     (''cmp-1004'', 15 / 100), (''cmp-1005'', 10 / 100)]"

definition CREATIVES :: "(string \<times> string list) list" where
  "CREATIVES = [(''cmp-1001'', [''crt-1001-a'', ''crt-1001-b'']), (''cmp-1002'', [''crt-1002-a'', ''crt-1002-b'']),
     (''cmp-1003'', [''crt-1003-a'', ''crt-1003-b'']), (''cmp-1004'', [''crt-1004-a'', ''crt-1004-b'']),
     (''cmp-1005'', [''crt-1005-a'', ''crt-1005-b''])]"

definition DEVICES :: "(string \<times> rat) list" where
  "DEVICES = [(''smart_tv'', 45 / 100), (''mobile'', 30 / 100), (''tablet'', 10 / 100), (''pc'', 10 / 100), (''stb'', 5 / 100)]"

definition AD_LENGTHS :: "int list" where
  "AD_LENGTHS = [15, 15, 15, 30]"

definition QUARTILES :: "(string \<times> rat) list" where
  "QUARTILES = [(''start'', 0), (''first_quartile'', 25 / 100), (''midpoint'', 50 / 100),
     (''third_quartile'', 75 / 100), (''complete'', 1)]"

section \<open>Player\<close>

definition CONTENTS :: "content list" where
  "CONTENTS =
     [\<lparr>ct_id = ''ct-drama-201'', ct_kind = ''vod'', ct_duration = 3600, ct_breaks = [0, 900, 1800, 2700]\<rparr>,
      \<lparr>ct_id = ''ct-movie-77'', ct_kind = ''vod'', ct_duration = 7200, ct_breaks = [0, 1800, 3600, 5400]\<rparr>,
      \<lparr>ct_id = ''ct-var-33'', ct_kind = ''vod'', ct_duration = 4500, ct_breaks = [0, 1200, 2400, 3600]\<rparr>,
      \<lparr>ct_id = ''ct-kbo-0912'', ct_kind = ''live'', ct_duration = 10800, ct_breaks = py_range 600 10800 600\<rparr>,
      \<lparr>ct_id = ''ct-news-live'', ct_kind = ''live'', ct_duration = 10800, ct_breaks = py_range 900 10800 900\<rparr>]"

definition VERTICAL_STYLE :: "(string \<times> string \<times> string) list" where
  "VERTICAL_STYLE = [(''telco'', ''#1b3a8f'', ''#4f7ce8''), (''finance'', ''#0f3f35'', ''#2f8f76''),
     (''auto'', ''#2a2a2a'', ''#7a5a2a''), (''commerce'', ''#5a1f3a'', ''#b8467a''),
     (''fmcg'', ''#3a2a0f'', ''#a8842f''), (''trace'', ''#333'', ''#666'')]"

definition DEFAULT_STYLE :: "string \<times> string" where
  "DEFAULT_STYLE = (''#24303f'', ''#4a5a70'')"

definition style_for :: "string option \<Rightarrow> string \<times> string" where
  "style_for vertical =
     (case map_of VERTICAL_STYLE (case vertical of None \<Rightarrow> [] | Some v \<Rightarrow> v) of None \<Rightarrow> DEFAULT_STYLE | Some s \<Rightarrow> s)"

section \<open>Lemmas\<close>

lemma range_step_nth: "i < n \<Longrightarrow> range_step n a step ! i = a + int i * step"
proof (induction n arbitrary: a i)
  case (Suc n)
  then show ?case by (cases i) (auto simp: algebra_simps)
qed simp

lemma length_range_step [simp]: "length (range_step n a step) = n"
  by (induction n arbitrary: a) simp_all

lemma set_range_step: "set (range_step n a step) = {a + int i * step | i. i < n}"
  by (force simp: set_conv_nth range_step_nth)

lemma le_div_pos: "0 < s \<Longrightarrow> k \<le> m div s \<longleftrightarrow> k * s \<le> m" for k m s :: int
proof
  assume s: "0 < s"
  have m: "m div s * s \<le> m" "m < (m div s + 1) * s"
    using div_mult_mod_eq [of m s] pos_mod_bound [OF s, of m] pos_mod_sign [OF s, of m]
    unfolding distrib_right by linarith+
  {
    assume "k \<le> m div s"
    then have "k * s \<le> m div s * s" using s by (simp add: mult_right_mono)
    with m show "k * s \<le> m" by simp
  next
    assume "k * s \<le> m"
    with m have "k * s < (m div s + 1) * s" by linarith
    then have "k < m div s + 1" using s mult_less_cancel_right_pos [of s] by blast
    then show "k \<le> m div s" by simp
  }
qed

lemma set_py_range:
  assumes "0 < step"
  shows "set (py_range a b step) = {x. a \<le> x \<and> x < b \<and> (x - a) mod step = 0}"
proof (rule set_eqI)
  fix x
  have le: "i < nat ((b - a + step - 1) div step) \<longleftrightarrow> a + int i * step < b" for i
  proof -
    have "i < nat ((b - a + step - 1) div step) \<longleftrightarrow> int i + 1 \<le> (b - a + step - 1) div step" by linarith
    also have "\<dots> \<longleftrightarrow> (int i + 1) * step \<le> b - a + step - 1"
      by (rule le_div_pos [OF assms])
    also have "\<dots> \<longleftrightarrow> a + int i * step < b" unfolding distrib_right by linarith
    finally show ?thesis .
  qed
  show "x \<in> set (py_range a b step) \<longleftrightarrow> x \<in> {x. a \<le> x \<and> x < b \<and> (x - a) mod step = 0}"
  proof
    assume "x \<in> set (py_range a b step)"
    then obtain i where i: "x = a + int i * step" "i < nat ((b - a + step - 1) div step)"
      by (auto simp: py_range_def set_range_step)
    then show "x \<in> {x. a \<le> x \<and> x < b \<and> (x - a) mod step = 0}" using le [of i] assms by simp
  next
    assume x: "x \<in> {x. a \<le> x \<and> x < b \<and> (x - a) mod step = 0}"
    then have q: "x = a + (x - a) div step * step" by (simp add: div_mult_mod_eq mod_0_imp_dvd)
    have "0 \<le> (x - a) div step" using x assms by (simp add: pos_imp_zdiv_nonneg_iff)
    then have e: "x = a + int (nat ((x - a) div step)) * step" using q by simp
    moreover have "nat ((x - a) div step) < nat ((b - a + step - 1) div step)"
      unfolding le using x e by simp
    ultimately show "x \<in> set (py_range a b step)"
      unfolding py_range_def set_range_step by blast
  qed
qed

section \<open>Properties\<close>

text \<open>The player's catalogue is the generator's. Both list the same contents, each once, with the
  same id, kind, duration and ad breaks; every break lies inside its content; and every campaign the
  generator can pick has creatives and the campaign weights sum to 1.\<close>

theorem catalogs_agree:
  "set CONTENTS = set CATALOG \<and> distinct (map ct_id CONTENTS) \<and> distinct (map ct_id CATALOG) \<and>
   (\<forall>c \<in> set CATALOG. \<forall>b \<in> set (ct_breaks c). 0 \<le> b \<and> b < ct_duration c) \<and>
   (\<forall>c \<in> fst ` set CAMPAIGNS. \<exists>cs. map_of CREATIVES c = Some cs \<and> cs \<noteq> []) \<and> sum_list (map snd CAMPAIGNS) = 1"
proof -
  have "set (py_range 600 10800 600) \<subseteq> {0..<10800}" "set (py_range 900 10800 900) \<subseteq> {0..<10800}"
    by (auto simp: set_py_range)
  then have "\<forall>c \<in> set CATALOG. \<forall>b \<in> set (ct_breaks c). 0 \<le> b \<and> b < ct_duration c"
    by (auto simp: CATALOG_def)
  moreover have "set CONTENTS = set CATALOG" by (auto simp: CONTENTS_def CATALOG_def)
  moreover have "distinct (map ct_id CONTENTS)" "distinct (map ct_id CATALOG)" by (simp_all add: CONTENTS_def CATALOG_def)
  moreover have "\<forall>c \<in> fst ` set CAMPAIGNS. \<exists>cs. map_of CREATIVES c = Some cs \<and> cs \<noteq> []" "sum_list (map snd CAMPAIGNS) = 1"
    by (simp_all add: CAMPAIGNS_def CREATIVES_def)
  ultimately show ?thesis by blast
qed

text \<open>The hypotheses inside the statement are met.\<close>

theorem catalogs_agree_witness:
  "\<exists>c \<in> set CATALOG. (900 :: int) \<in> set (ct_breaks c) \<and> 900 < ct_duration c"
proof -
  let ?c = "\<lparr>ct_id = ''ct-drama-201'', ct_kind = ''vod'', ct_duration = 3600, ct_breaks = [0, 900, 1800, 2700]\<rparr>"
  have c: "?c \<in> set CATALOG" "900 \<in> set (ct_breaks ?c)" by (simp_all add: CATALOG_def)
  have "\<forall>c \<in> set CATALOG. \<forall>b \<in> set (ct_breaks c). 0 \<le> b \<and> b < ct_duration c"
    using catalogs_agree by blast
  with c show ?thesis by blast
qed

end
