(* ===== verification/Py_Service.thy ===== *)
theory Py_Service
  imports Emitter Redis_Writer Catalog
begin

text \<open>
  What the two FastAPI services (\<open>player/app.py\<close>, \<open>tracer/app.py\<close>) have in common: Python's set
  membership, the dictionary of tracked items with its cap, the offsets they resume Kafka scans
  from, the poll loop of a scan with its deadline, and the Redis row of a tracked item.

  Time readings are rationals (seconds).  A poll loop reads an infinite stream of turns, each the
  clock at the loop test, what \<open>poll\<close> returned, and the clock at the use of the message; a loop
  whose clock never reaches the deadline has no result.
\<close>

section \<open>Sets of values\<close>

fun hashable :: "pyval \<Rightarrow> bool" where
  "hashable (PList xs) = False"
| "hashable (PDict d) = False"
| "hashable v = True"

fun number_of :: "pyval \<Rightarrow> rat option" where
  "number_of (PBool b) = Some (if b then 1 else 0)"
| "number_of (PInt i) = Some (of_int i)"
| "number_of (PFloat x) = Some x"
| "number_of v = None"

definition py_eq :: "pyval \<Rightarrow> pyval \<Rightarrow> bool" where
  \<comment> \<open>\<open>==\<close> of hashable values: numbers by value, whatever their type\<close>
  "py_eq v w = (case (number_of v, number_of w) of (Some x, Some y) \<Rightarrow> x = y | _ \<Rightarrow> v = w)"

definition py_mem :: "pyval \<Rightarrow> pyval list \<Rightarrow> bool" where
  "py_mem v xs = list_ex (py_eq v) xs"

definition make_set :: "pyval list \<Rightarrow> pyval list result" where
  \<comment> \<open>a set display or \<open>set(xs)\<close>, as the list of its elements\<close>
  "make_set xs = (if list_all hashable xs then Inr xs else Inl TypeError)"

definition set_mem :: "pyval \<Rightarrow> pyval list \<Rightarrow> bool result" where
  \<comment> \<open>\<open>v in s\<close>\<close>
  "set_mem v xs = (if hashable v then Inr (py_mem v xs) else Inl TypeError)"

definition sets_meet :: "pyval list \<Rightarrow> pyval list \<Rightarrow> bool" where
  \<comment> \<open>\<open>bool(s & t)\<close>\<close>
  "sets_meet xs ys = list_ex (\<lambda>v. py_mem v ys) xs"

lemma py_eq_refl [simp]: "py_eq v v"
  by (simp add: py_eq_def split: option.splits)

lemma py_eq_str [simp]: "py_eq (PStr s) v \<longleftrightarrow> v = PStr s" "py_eq v (PStr s) \<longleftrightarrow> v = PStr s"
  by (cases v; auto simp: py_eq_def)+

lemma py_mem_str: "py_mem (PStr s) xs \<longleftrightarrow> PStr s \<in> set xs"
  by (auto simp: py_mem_def list_ex_iff)

definition py_float :: "pyval \<Rightarrow> rat result" where
  \<comment> \<open>\<open>float(v)\<close>\<close>
  "py_float v = (case number_of v of
     Some x \<Rightarrow> Inr x
   | None \<Rightarrow> (case v of PStr s \<Rightarrow> (case parse_float s of None \<Rightarrow> Inl ValueError | Some x \<Rightarrow> Inr x) | _ \<Rightarrow> Inl TypeError))"

definition py_round :: "nat \<Rightarrow> rat \<Rightarrow> rat" where
  \<comment> \<open>\<open>round(x, n)\<close>: half to even\<close>
  "py_round n x = (let y = x * 10 ^ n; k = \<lfloor>y\<rfloor>; h = y - of_int k in
     of_int (if h < 1 / 2 \<or> (h = 1 / 2 \<and> even k) then k else k + 1) / 10 ^ n)"

definition as_dict :: "pyval \<Rightarrow> dict result" where
  \<comment> \<open>what \<open>v.get\<close> needs\<close>
  "as_dict v = (case v of PDict d \<Rightarrow> Inr d | _ \<Rightarrow> Inl AttributeError)"

section \<open>The registry of tracked items\<close>

definition registry_put :: "nat \<Rightarrow> 'k \<Rightarrow> 'v \<Rightarrow> ('k \<times> 'v) list \<Rightarrow> ('k \<times> 'v) list" where
  \<comment> \<open>\<open>R[k] = v\<close>, then \<open>for old in list(R)[:-n]: R.pop(old, None)\<close>\<close>
  "registry_put n k v d = (let d = AList.update k v d in fold AList.delete (drop_last n (map fst d)) d)"

lemma fold_delete_take:
  "distinct (map fst d) \<Longrightarrow> fold AList.delete (take n (map fst d)) d = drop n d"
proof (induction n arbitrary: d)
  case (Suc n)
  then show ?case
  proof (cases d)
    case (Cons p d')
    have "AList.delete (fst p) d = d'"
      using Suc.prems by (force simp: Cons AList.delete_eq intro!: filter_True)
    then show ?thesis using Suc.prems by (simp add: Cons Suc.IH)
  qed simp
qed simp

lemma length_update: "length (AList.update k v d) = (if k \<in> fst ` set d then length d else Suc (length d))"
  by (induction d) auto

lemma update_subset: "set (AList.update k v d) \<subseteq> insert (k, v) (set d)"
  by (induction d) auto

lemma update_update_same: "AList.update k v (AList.update k w d) = AList.update k v d"
  by (induction d) auto

lemma registry_put_drop:
  assumes "distinct (map fst d)"
  shows "registry_put n k v d = (let d' = AList.update k v d in drop (length d' - n) d')"
  using fold_delete_take [OF distinct_update [OF assms]] by (simp add: registry_put_def drop_last_def Let_def)

text \<open>
  The contract of such a registry: it never holds more than its capacity, the item just registered
  can be read, items leave in the order they came, and only when the registry is full.
\<close>

locale bounded_registry =
  fixes put :: "'k \<Rightarrow> 'v \<Rightarrow> ('k \<times> 'v) list \<Rightarrow> ('k \<times> 'v) list" and cap :: nat
  assumes cap: "0 < cap"
    and put_drop: "distinct (map fst d) \<Longrightarrow> put k v d = (let d' = AList.update k v d in drop (length d' - cap) d')"
begin

lemma put_distinct: "distinct (map fst d) \<Longrightarrow> distinct (map fst (put k v d))"
  using distinct_update [of d k v] by (simp add: put_drop Let_def drop_map [symmetric] distinct_drop)

lemma put_bound: "distinct (map fst d) \<Longrightarrow> length (put k v d) \<le> cap"
  by (simp add: put_drop Let_def)

lemma put_get:
  assumes "distinct (map fst d)" "length d \<le> cap"
  shows "map_of (put k v d) k = Some v"
proof (cases "k \<in> fst ` set d")
  case True
  then show ?thesis using assms by (simp add: put_drop length_update update_conv')
next
  case False
  have "put k v d = drop (Suc (length d) - cap) d @ [(k, v)]"
    using False cap assms by (simp add: put_drop update_new)
  moreover have "k \<notin> fst ` set (drop (Suc (length d) - cap) d)"
    using False set_drop_subset [of _ d] by blast
  ultimately show ?thesis by (simp add: map_of_eq_None_iff [symmetric] map_add_def)
qed

lemma put_set: "distinct (map fst d) \<Longrightarrow> set (put k v d) \<subseteq> insert (k, v) (set d)"
  using subset_trans [OF set_drop_subset update_subset [of k v d]] by (simp add: put_drop Let_def)

lemma puts_keep_newest:
  assumes "distinct (map fst kvs)"
  shows "fold (\<lambda>(k, v). put k v) kvs [] = drop (length kvs - cap) kvs"
  using assms
proof (induction kvs rule: rev_induct)
  case (snoc p kvs)
  obtain k v where p: "p = (k, v)" by (cases p)
  let ?d = "drop (length kvs - cap) kvs"
  have "distinct (map fst ?d)" "k \<notin> fst ` set ?d"
    using snoc.prems set_drop_subset [of "length kvs - cap" kvs]
    by (auto simp: p drop_map [symmetric] distinct_drop)
  then have "put k v ?d = drop (Suc (length ?d) - cap) ?d @ [(k, v)]"
    using cap by (simp add: put_drop update_new)
  with snoc cap show ?case by (cases "cap \<le> length kvs") (simp_all add: p Suc_diff_le)
qed simp

end

interpretation registry_put: bounded_registry "registry_put (Suc n)" "Suc n"
  by unfold_locales (simp_all add: registry_put_drop)

section \<open>Offsets\<close>

text \<open>
  \<open>list_topics\<close> returns the partitions of each topic or raises (\<open>None\<close>); reading the watermark of a
  partition returns the end offset or raises.  Offsets are kept under the text \<open>topic:partition\<close>.
\<close>

record brokers =
  bk_topics :: "(string \<times> int list) list option"
  bk_high :: "string \<Rightarrow> int \<Rightarrow> int option"

definition off_key :: "string \<Rightarrow> int \<Rightarrow> string" where
  \<comment> \<open>\<open>f"{t}:{p}"\<close>\<close>
  "off_key t p = t @ CHR '':'' # dec_int p"

definition rsplit_colon :: "string \<Rightarrow> (string \<times> string) result" where
  \<comment> \<open>\<open>t, p = key.rsplit(":", 1)\<close>\<close>
  "rsplit_colon s =
     (let p = rev (takeWhile (\<lambda>c. c \<noteq> CHR '':'') (rev s)); r = dropWhile (\<lambda>c. c \<noteq> CHR '':'') (rev s)
      in case r of [] \<Rightarrow> Inl ValueError | c # t \<Rightarrow> Inr (rev t, p))"

lemma dec_int_no_colon: "CHR '':'' \<notin> set (dec_int i)"
proof -
  have "\<not> is_digit (CHR '':'')" by (simp add: is_digit_def)
  then have "CHR '':'' \<notin> set (dec_nat n)" for n using dec_nat_digits [of n] by (auto simp: list_all_iff)
  then show ?thesis by (simp add: dec_int_def)
qed

lemma rsplit_off_key [simp]: "rsplit_colon (off_key t p) = Inr (t, dec_int p)"
proof -
  have ne: "\<And>c. c \<in> set (rev (dec_int p)) \<Longrightarrow> c \<noteq> CHR '':''" using dec_int_no_colon by auto
  have "takeWhile (\<lambda>c. c \<noteq> CHR '':'') (rev (dec_int p) @ CHR '':'' # rev t) = rev (dec_int p)"
    using ne by (subst takeWhile_append2) auto
  moreover have "dropWhile (\<lambda>c. c \<noteq> CHR '':'') (rev (dec_int p) @ CHR '':'' # rev t) = CHR '':'' # rev t"
    using ne by (subst dropWhile_append2) auto
  ultimately show ?thesis by (simp add: rsplit_colon_def off_key_def)
qed

lemma off_key_inj: "off_key t p = off_key t' p' \<longleftrightarrow> t = t' \<and> p = p'"
proof
  assume "off_key t p = off_key t' p'"
  then have "rsplit_colon (off_key t p) = rsplit_colon (off_key t' p')" by (rule arg_cong)
  then show "t = t' \<and> p = p'" by (simp add: dec_int_inj)
qed simp

definition watermarks :: "string list \<Rightarrow> brokers \<Rightarrow> (string \<times> int list) list \<Rightarrow> (string \<times> int) list" where
  \<comment> \<open>the loops over the watched topics and their partitions; a partition whose watermark cannot be
     read is left out\<close>
  "watermarks watched bk topics =
     fold (\<lambda>t out. case map_of topics t of None \<Rightarrow> out
       | Some ps \<Rightarrow> fold (\<lambda>p out. case bk_high bk t p of None \<Rightarrow> out
           | Some hi \<Rightarrow> AList.update (off_key t p) hi out) ps out) watched []"

fun resume_from :: "(string \<times> int list) list \<Rightarrow> (string \<times> int) list \<Rightarrow> (string \<times> int \<times> int) list result" where
  \<comment> \<open>the partitions a scan assigns, with their offsets\<close>
  "resume_from topics [] = Inr []"
| "resume_from topics ((key, off) # offs) =
     rbind (rsplit_colon key) (\<lambda>(t, p).
       if map_of topics t \<noteq> None then
         (case parse_int p of None \<Rightarrow> Inl ValueError
          | Some p \<Rightarrow> rbind (resume_from topics offs) (\<lambda>tps. Inr ((t, p, off) # tps)))
       else resume_from topics offs)"

lemma resume_from_off_keys:
  "\<forall>k \<in> fst ` set offs. \<exists>t p. k = off_key t p \<Longrightarrow> \<exists>tps. resume_from topics offs = Inr tps"
proof (induction offs)
  case (Cons a offs)
  obtain k off where a: "a = (k, off)" by (cases a)
  obtain t p where k: "k = off_key t p" using Cons.prems by (auto simp: a)
  obtain tps where "resume_from topics offs = Inr tps" using Cons by auto
  then show ?case by (simp add: a k)
qed simp

section \<open>The poll loop of a scan\<close>

datatype kpoll = KNone | KError | KMsg string int int "pyval option"
  \<comment> \<open>topic, partition, offset and the decoded JSON value, \<open>None\<close> when decoding raises\<close>

record turn =
  tn_now :: rat
  tn_poll :: kpoll
  tn_at :: rat

partial_function (option) poll_loop ::
    "(turn \<Rightarrow> 's \<Rightarrow> exn option \<times> 's) \<Rightarrow> rat \<Rightarrow> turn stream \<Rightarrow> 's \<Rightarrow> (exn option \<times> 's) option" where
  \<comment> \<open>\<open>while time.time() < deadline: ...\<close>; an exception of the body leaves the loop\<close>
  "poll_loop body deadline rs s =
     (if tn_now (shd rs) < deadline then
        (case body (shd rs) s of
           (Some x, s) \<Rightarrow> Some (Some x, s)
         | (None, s) \<Rightarrow> poll_loop body deadline (stl rs) s)
      else Some (None, s))"

fun poll_list :: "(turn \<Rightarrow> 's \<Rightarrow> exn option \<times> 's) \<Rightarrow> turn list \<Rightarrow> 's \<Rightarrow> exn option \<times> 's" where
  "poll_list body [] s = (None, s)"
| "poll_list body (r # rs) s = (case body r s of (Some x, s) \<Rightarrow> (Some x, s) | (None, s) \<Rightarrow> poll_list body rs s)"

definition turns_before :: "rat \<Rightarrow> turn stream \<Rightarrow> turn list" where
  \<comment> \<open>the turns up to the first one at or after the deadline\<close>
  "turns_before deadline rs = stake (LEAST n. deadline \<le> tn_now (rs !! n)) rs"

lemma poll_loop_prefix:
  "(\<And>i. i < n \<Longrightarrow> tn_now (rs !! i) < deadline) \<Longrightarrow> deadline \<le> tn_now (rs !! n) \<Longrightarrow>
    poll_loop body deadline rs s = Some (poll_list body (stake n rs) s)"
proof (induction n arbitrary: rs s)
  case 0
  then show ?case by (simp add: poll_loop.simps [of body deadline rs])
next
  case (Suc n)
  have "tn_now (shd rs) < deadline" using Suc.prems(1) [of 0] by simp
  moreover have "poll_loop body deadline (stl rs) s' = Some (poll_list body (stake n (stl rs)) s')" for s'
    by (rule Suc.IH) (use Suc.prems(1) [of "Suc _"] Suc.prems(2) in auto)
  ultimately show ?case
    by (simp add: poll_loop.simps [of body deadline rs] split: prod.splits option.splits)
qed

lemma poll_loop_returns:
  assumes "\<exists>n. deadline \<le> tn_now (rs !! n)"
  shows "poll_loop body deadline rs s = Some (poll_list body (turns_before deadline rs) s)"
  unfolding turns_before_def
proof (rule poll_loop_prefix)
  show "deadline \<le> tn_now (rs !! (LEAST n. deadline \<le> tn_now (rs !! n)))" by (rule LeastI_ex [OF assms])
next
  fix i
  assume "i < (LEAST n. deadline \<le> tn_now (rs !! n))"
  then show "tn_now (rs !! i) < deadline" using not_less_Least by (metis not_le_imp_less)
qed

lemma poll_loop_some_prefix:
  assumes "poll_loop body deadline rs s = Some res"
  shows "\<exists>k. poll_list body (stake k rs) s = res"
  using assms
proof (induction rule: poll_loop.raw_induct [rotated, consumes 1, case_names step])
  case (step loop body deadline rs s res)
  consider "\<not> tn_now (shd rs) < deadline" | x s' where "tn_now (shd rs) < deadline" "body (shd rs) s = (Some x, s')"
    | s' where "tn_now (shd rs) < deadline" "body (shd rs) s = (None, s')"
    by (metis not_None_eq surj_pair)
  then show ?case
  proof cases
    case 1
    then have "poll_list body (stake 0 rs) s = res" using step.hyps by simp
    then show ?thesis by blast
  next
    case 2
    then have "poll_list body (stake (Suc 0) rs) s = res" using step.hyps by (auto simp: 2(2))
    then show ?thesis by blast
  next
    case 3
    then have "loop body deadline (stl rs) s' = Some res" using step.hyps by (auto simp: 3(2))
    then obtain k where "poll_list body (stake k (stl rs)) s' = res" using step.IH by blast
    then have "poll_list body (stake (Suc k) rs) s = res" using 3 by simp
    then show ?thesis by blast
  qed
qed
lemma poll_list_append:
  "poll_list body (rs @ rs') s =
     (case poll_list body rs s of (Some x, s) \<Rightarrow> (Some x, s) | (None, s) \<Rightarrow> poll_list body rs' s)"
  by (induction rs arbitrary: s) (auto split: prod.splits option.splits)

lemma poll_list_invariant:
  assumes "\<And>r s x s'. body r s = (x, s') \<Longrightarrow> P s \<Longrightarrow> P s'" "P s" "poll_list body rs s = (x, s')"
  shows "P s'"
  using assms(2, 3)
proof (induction rs arbitrary: s)
  case (Cons r rs)
  obtain y s1 where step: "body r s = (y, s1)" by (cases "body r s")
  have "P s1" using assms(1) [OF step Cons.prems(1)] .
  with Cons step show ?case by (cases y) simp_all
qed simp

section \<open>Replies\<close>

datatype post_reply = HttpRaised string | HttpReply int string
  \<comment> \<open>the exception's text, or status and body\<close>

fun body_200 :: "post_reply \<Rightarrow> dict" where
  \<comment> \<open>what the player's \<open>post_events\<close> returns\<close>
  "body_200 (HttpReply status body) = [(''status'', PInt status), (''body'', PStr (take 200 body))]"
| "body_200 (HttpRaised e) = [(''status'', PInt 0), (''body'', PStr (take 200 e))]"

end
