(* ===== verification/Player.thy ===== *)
theory Player
  imports Py_Service Py_Time
begin

text \<open>
  The player service (\<open>player/app.py\<close>): its registry of the last 40 ads, the ad request, the
  forwarding of a batch of events over the pixel and batch paths, the Kafka scan, and the
  inspection of one ad.

  Handlers take their inputs from outside as a record: clock readings, random hex texts, replies of
  the collector, of ad-decision, of Redis, Kafka, the parquet reader and PostgreSQL.  A handler is one
  atomic step on the service's state; the thread interleavings inside a handler are not modelled.
  Texts shown on the page (notes, hints, reasons) are constructors or booleans.
\<close>

section \<open>State\<close>

record sent =
  sn_event_id :: pyval
  sn_type :: pyval
  sn_quartile :: pyval
  sn_source :: pyval

record kmsg =
  km_topic :: string
  km_partition :: int
  km_offset :: int
  km_at :: rat
  km_event_id :: pyval
  km_event_type :: pyval
  km_reason :: pyval
  km_source :: pyval
  km_lateness :: pyval

record ragg =
  ra_key :: string
  ra_counts :: "(string \<times> int) list"

record play =
  pl_arid :: string
  pl_t0 :: rat
  pl_campaign :: pyval
  pl_content :: string
  pl_minute :: string
  pl_dt :: string
  pl_hour :: string
  pl_offsets :: "(string \<times> int) list"
  pl_kafka :: "kmsg list"
  pl_sent :: "sent list"
  pl_base :: "ragg option"
  pl_minio_err :: "string option"

record minio =
  mn_rows :: nat
  mn_path :: string
  mn_types :: "string list"

record player =
  ps_plays :: "(string \<times> play) list"
  ps_snapshot :: "(string \<times> int) list"
  ps_cache :: "(string \<times> rat \<times> minio option) list"

definition player_init :: player where
  "player_init = \<lparr>ps_plays = [], ps_snapshot = [], ps_cache = []\<rparr>"

section \<open>Inputs\<close>

datatype pixel_reply = PixelRaised string | PixelReply int string nat

datatype pg_read = PgFailed string
  | PgRead "(int \<times> string \<times> bool \<times> string \<times> string option) list" "string + (int \<times> int \<times> int \<times> int \<times> rat option) option"
  \<comment> \<open>no connection or no outbox query; or the outbox rows, and the settlement query\<close>

record player_env =
  pe_repr :: "pyval \<Rightarrow> string"
  pe_hmac :: "string \<Rightarrow> string \<Rightarrow> string"
  pe_secret :: string
  pe_hex :: "nat \<Rightarrow> string"
  pe_clock :: string
  pe_epoch :: "nat \<Rightarrow> int"
  pe_pixel :: "nat \<Rightarrow> pixel_reply"
  pe_post :: post_reply
  pe_decision :: "pyval option"
  pe_ms :: int
  pe_t0 :: rat
  pe_now :: rat
  pe_redis :: "string \<Rightarrow> (string \<times> string) list option"
  pe_brokers :: brokers
  pe_assign :: bool
  pe_scan :: rat
  pe_turns :: "turn stream"
  pe_bucket :: string
  pe_parquet :: "string \<Rightarrow> string \<Rightarrow> string + (string option \<times> string option) list"
  pe_pg :: "string \<Rightarrow> pg_read"

section \<open>Routing preview and signatures\<close>

definition TOPIC_OF :: "(string \<times> string) list" where
  "TOPIC_OF =
     [(''impression'', ''ad.impression''), (''ad_impression'', ''ad.impression''),
      (''quartile'', ''ad.quartile''), (''start'', ''ad.quartile''), (''first_quartile'', ''ad.quartile''),
      (''midpoint'', ''ad.quartile''), (''third_quartile'', ''ad.quartile''), (''complete'', ''ad.quartile''),
      (''click'', ''ad.click''), (''ad_click'', ''ad.click''),
      (''ad_request'', ''ad.request''), (''ad_response'', ''ad.request''),
      (''progress'', ''user.behavior''), (''play'', ''user.behavior''), (''pause'', ''user.behavior''),
      (''resume'', ''user.behavior''), (''seek'', ''user.behavior''),
      (''session_start'', ''user.behavior''), (''session_end'', ''user.behavior''),
      (''content_start'', ''user.behavior''), (''content_end'', ''user.behavior'')]"

definition WATCH_TOPICS :: "string list" where
  "WATCH_TOPICS = [''ad.impression'', ''ad.quartile'', ''ad.click'', ''ad.request'',
     ''user.behavior'', ''dlq.invalid'', ''late.events'']"

definition NUDGE_CAMPAIGN :: string where
  "NUDGE_CAMPAIGN = ''cmp-9999''"

definition pl_sign :: "(string \<Rightarrow> string \<Rightarrow> string) \<Rightarrow> string \<Rightarrow> (string \<times> string) list \<Rightarrow> string" where
  "pl_sign hmac secret params =
     hmac secret (join ''&'' (map (\<lambda>k. k @ ''='' @ the (map_of params k))
       (filter (\<lambda>k. k \<noteq> ''sig'') (sort (map fst params)))))"

definition pl_pixel_map :: "(string \<times> string) list" where
  "pl_pixel_map = [(''eid'', ''event_id''), (''et'', ''event_type''), (''cid'', ''campaign_id''),
     (''ts'', ''event_time''), (''arid'', ''ad_request_id''), (''crid'', ''creative_id''),
     (''q'', ''quartile''), (''sid'', ''session_id''), (''src'', ''source'')]"

definition send_pixel_params :: "player_env \<Rightarrow> nat \<Rightarrow> dict \<Rightarrow> bool \<Rightarrow> (string \<times> string) list" where
  "send_pixel_params env i ev forge =
     (let params = concat (map (\<lambda>(pk, ek). let v = dget ev ek in if v \<noteq> PNone then [(pk, py_str (pe_repr env) v)] else [])
            pl_pixel_map) @ [(''exp'', dec_int (pe_epoch env i + 300))]
      in params @ [(''sig'', if forge then take 32 (pe_hex env i) else pl_sign (pe_hmac env) (pe_secret env) params)])"

fun pixel_body :: "pixel_reply \<Rightarrow> dict" where
  "pixel_body (PixelReply status ctype n) =
     [(''status'', PInt status), (''body'', PStr (ctype @ '' '' @ dec_nat n @ ''B (1x1 GIF)''))]"
| "pixel_body (PixelRaised e) = [(''status'', PInt 0), (''body'', PStr (take 200 e))]"

section \<open>Events\<close>

definition remember :: "dict \<Rightarrow> player \<Rightarrow> player result" where
  "remember ev p =
     (let arid = dget ev ''ad_request_id'' in
      if \<not> truthy arid then Inr p
      else if \<not> hashable arid then Inl TypeError
      else (case arid of
          PStr a \<Rightarrow> (case map_of (ps_plays p) a of
              None \<Rightarrow> Inr p
            | Some tr \<Rightarrow>
                (let i = \<lparr>sn_event_id = dget ev ''event_id'', sn_type = dget ev ''event_type'',
                          sn_quartile = dget ev ''quartile'', sn_source = dget_or ev ''source'' (PStr ''client'')\<rparr>
                 in Inr (p\<lparr>ps_plays := AList.update a (tr\<lparr>pl_sent := pl_sent tr @ [i]\<rparr>) (ps_plays p)\<rparr>)))
        | _ \<Rightarrow> Inr p))"

datatype preview = Topic string | DlqUnknownType | DlqInvalid | DlqForged

record ev_row =
  er_event_id :: pyval
  er_type :: pyval
  er_quartile :: pyval
  er_campaign :: pyval
  er_arid :: pyval
  er_source :: pyval
  er_topic :: preview
  er_at :: string
  er_pixel :: bool
  er_note :: bool
  er_reply :: dict

definition lowered_type :: "dict \<Rightarrow> string result" where
  \<comment> \<open>\<open>(ev.get("event_type") or "").lower()\<close>\<close>
  "lowered_type ev = (case py_or (dget ev ''event_type'') (PStr []) of PStr s \<Rightarrow> Inr (lowercase s) | _ \<Rightarrow> Inl AttributeError)"

definition misses_required :: "dict \<Rightarrow> bool" where
  "misses_required ev = list_ex (\<lambda>f. dget ev f \<in> {PNone, PStr []}) REQUIRED_FIELDS"

definition preview_topic :: "string \<Rightarrow> preview" where
  "preview_topic et = (case map_of TOPIC_OF et of None \<Rightarrow> DlqUnknownType | Some t \<Rightarrow> Topic t)"

definition event_row :: "player_env \<Rightarrow> dict \<Rightarrow> ev_row result" where
  "event_row env ev =
     rbind (lowered_type ev) (\<lambda>et.
       Inr \<lparr>er_event_id = dget ev ''event_id'', er_type = dget ev ''event_type'', er_quartile = dget ev ''quartile'',
            er_campaign = dget ev ''campaign_id'', er_arid = dget ev ''ad_request_id'',
            er_source = dget_or ev ''source'' (PStr ''client''),
            er_topic = (if misses_required ev then DlqInvalid else preview_topic et),
            er_at = pe_clock env, er_pixel = False, er_note = False, er_reply = []\<rparr>)"

datatype call = CallPixel "(string \<times> string) list" | CallPost "dict list"

record ev_acc =
  ea_player :: player
  ea_results :: "ev_row list"
  ea_post :: "(dict \<times> ev_row) list"
  ea_calls :: "call list"

definition event_pixel :: "player_env \<Rightarrow> nat \<Rightarrow> dict \<Rightarrow> ev_row \<Rightarrow> bool \<Rightarrow> ev_acc \<Rightarrow> ev_acc" where
  "event_pixel env i ev row forge acc =
     (let row = row\<lparr>er_pixel := True\<rparr>;
          acc = acc\<lparr>ea_calls := ea_calls acc @ [CallPixel (send_pixel_params env i ev forge)]\<rparr>;
          row = (if forge then row\<lparr>er_topic := DlqForged, er_note := True\<rparr> else row);
          row = row\<lparr>er_reply := pixel_body (pe_pixel env i)\<rparr>
      in acc\<lparr>ea_results := ea_results acc @ [row]\<rparr>)"

definition event_step :: "player_env \<Rightarrow> pyval list \<Rightarrow> pyval list \<Rightarrow> nat \<Rightarrow> pyval \<Rightarrow> ev_acc \<Rightarrow> exn option \<times> ev_acc" where
  "event_step env pixel_ids forge_ids i v acc =
     (case v of
        PDict ev \<Rightarrow>
          (case remember ev (ea_player acc) of
             Inl x \<Rightarrow> (Some x, acc)
           | Inr p \<Rightarrow>
               (let acc = acc\<lparr>ea_player := p\<rparr>; eid = dget ev ''event_id'' in
                case event_row env ev of
                  Inl x \<Rightarrow> (Some x, acc)
                | Inr row \<Rightarrow>
                    (if \<not> hashable eid then (Some TypeError, acc)
                     else if py_mem eid pixel_ids \<or> py_mem eid forge_ids
                     then (None, event_pixel env i ev row (py_mem eid forge_ids) acc)
                     else (None, acc\<lparr>ea_post := ea_post acc @ [(ev, row)]\<rparr>))))
      | _ \<Rightarrow> (Some AttributeError, acc))"

fun event_loop :: "player_env \<Rightarrow> pyval list \<Rightarrow> pyval list \<Rightarrow> nat \<Rightarrow> pyval list \<Rightarrow> ev_acc \<Rightarrow> exn option \<times> ev_acc" where
  "event_loop env pixel_ids forge_ids i [] acc = (None, acc)"
| "event_loop env pixel_ids forge_ids i (v # vs) acc =
     (case event_step env pixel_ids forge_ids i v acc of
        (Some x, acc) \<Rightarrow> (Some x, acc)
      | (None, acc) \<Rightarrow> event_loop env pixel_ids forge_ids (Suc i) vs acc)"

definition events :: "player_env \<Rightarrow> pyval list \<Rightarrow> pyval list \<Rightarrow> pyval list \<Rightarrow> player \<Rightarrow> ev_row list result \<times> call list \<times> player" where
  \<comment> \<open>the answer, the calls to the collector in order, and the new state\<close>
  "events env evs pixel_ids forge_ids p =
     (case rbind (make_set pixel_ids) (\<lambda>a. rbind (make_set forge_ids) (\<lambda>b. Inr (a, b))) of
        Inl x \<Rightarrow> (Inl x, [], p)
      | Inr (pix, forge) \<Rightarrow>
          (case event_loop env pix forge 0 evs \<lparr>ea_player = p, ea_results = [], ea_post = [], ea_calls = []\<rparr> of
             (Some x, acc) \<Rightarrow> (Inl x, ea_calls acc, ea_player acc)
           | (None, acc) \<Rightarrow>
               (if ea_post acc = [] then (Inr (ea_results acc), ea_calls acc, ea_player acc)
                else (Inr (ea_results acc @ map (\<lambda>(ev, row). row\<lparr>er_reply := body_200 (pe_post env)\<rparr>) (ea_post acc)),
                      ea_calls acc @ [CallPost (map fst (ea_post acc))], ea_player acc))))"

definition nudge_events :: "player_env \<Rightarrow> dict list" where
  "nudge_events env = map (\<lambda>i. let tag = take 8 (pe_hex env i) in
     [(''event_id'', PStr (''evt-nudge-'' @ tag)), (''event_type'', PStr ''impression''),
      (''campaign_id'', PStr NUDGE_CAMPAIGN), (''event_time'', PInt (pe_ms env)),
      (''ad_request_id'', PStr (''req-nudge-'' @ tag)), (''source'', PStr ''client'')]) [0, 1, 2]"

definition nudge :: "player_env \<Rightarrow> dict \<times> call list" where
  "nudge env = ([(''sent'', PInt 3)] @ body_200 (pe_post env), [CallPost (nudge_events env)])"

section \<open>Offsets and the Redis row\<close>

definition refresh_offsets :: "player_env \<Rightarrow> player \<Rightarrow> player" where
  \<comment> \<open>one turn of the background loop\<close>
  "refresh_offsets env p =
     (case bk_topics (pe_brokers env) of
        None \<Rightarrow> p
      | Some topics \<Rightarrow>
          (let out = watermarks WATCH_TOPICS (pe_brokers env) topics
           in if out \<noteq> [] then p\<lparr>ps_snapshot := out\<rparr> else p))"

definition pl_redis_agg :: "player_env \<Rightarrow> play \<Rightarrow> ragg option result" where
  "pl_redis_agg env tr =
     (if \<not> truthy (pl_campaign tr) then Inr None
      else (let key = ''agg:1m:'' @ py_str (pe_repr env) (pl_campaign tr) @ '':'' @ pl_minute tr in
        case pe_redis env key of
          None \<Rightarrow> Inr None
        | Some h \<Rightarrow>
            if h = [] then Inr None
            else rbind (num_field h ''impressions'') (\<lambda>a. rbind (num_field h ''clicks'') (\<lambda>b.
                 rbind (num_field h ''completes'') (\<lambda>c. rbind (num_field h ''requests'') (\<lambda>d.
                 rbind (num_field h ''ssai_dupes'') (\<lambda>e.
                   Inr (Some \<lparr>ra_key = key, ra_counts = [(''impressions'', a), (''clicks'', b), (''completes'', c),
                     (''requests'', d), (''ssai_dupes'', e)]\<rparr>))))))))"

section \<open>The ad request\<close>

record ad_req =
  aq_arid :: "string option"
  aq_session :: string
  aq_user :: string
  aq_content :: string
  aq_device :: string
  aq_pod :: string
  aq_slot :: int
  aq_playhead :: rat
  aq_max :: int
  aq_prefer :: "string option"
  aq_nofill :: bool

datatype 'a answer = Answer 'a | Refused int

definition opt_str :: "string option \<Rightarrow> pyval" where
  "opt_str x = (case x of None \<Rightarrow> PNone | Some s \<Rightarrow> PStr s)"

definition ad_payload :: "string \<Rightarrow> ad_req \<Rightarrow> dict" where
  "ad_payload arid q =
     [(''ad_request_id'', PStr arid), (''session_id'', PStr (aq_session q)), (''user_id'', PStr (aq_user q)),
      (''content_id'', PStr (aq_content q)), (''device'', PStr (aq_device q)), (''ad_pod_id'', PStr (aq_pod q)),
      (''ad_slot'', PInt (aq_slot q)), (''playhead_s'', PFloat (aq_playhead q)), (''max_duration_s'', PInt (aq_max q)),
      (''prefer_campaign_id'', opt_str (aq_prefer q)), (''force_no_fill'', PBool (aq_nofill q))]"

definition py_style :: "pyval \<Rightarrow> (string \<times> string) result" where
  \<comment> \<open>\<open>style_for\<close> of a JSON value\<close>
  "py_style v = (case py_or v (PStr []) of
     PStr s \<Rightarrow> Inr (style_for (Some s))
   | w \<Rightarrow> if hashable w then Inr DEFAULT_STYLE else Inl TypeError)"

definition request_id :: "player_env \<Rightarrow> ad_req \<Rightarrow> string" where
  "request_id env q = (case aq_arid q of
     Some a \<Rightarrow> if a \<noteq> [] then a else ''req-play-'' @ take 12 (pe_hex env 0)
   | None \<Rightarrow> ''req-play-'' @ take 12 (pe_hex env 0))"

definition new_play :: "player_env \<Rightarrow> string \<Rightarrow> string \<Rightarrow> dict \<Rightarrow> (string \<times> int) list \<Rightarrow> play result" where
  \<comment> \<open>the tracking record of an ad, without its Redis base\<close>
  "new_play env arid content decision snap =
     rbind (player_minute_key (pe_ms env)) (\<lambda>mk. rbind (fromtimestamp_ms (pe_ms env)) (\<lambda>now.
       Inr \<lparr>pl_arid = arid, pl_t0 = pe_t0 env, pl_campaign = dget decision ''campaign_id'', pl_content = content,
            pl_minute = mk, pl_dt = strftime_date now, pl_hour = strftime_hour now, pl_offsets = snap,
            pl_kafka = [], pl_sent = [], pl_base = None, pl_minio_err = None\<rparr>))"

definition register_play :: "play \<Rightarrow> player \<Rightarrow> player" where
  "register_play tr p = p\<lparr>ps_plays := registry_put 40 (pl_arid tr) tr (ps_plays p)\<rparr>"

definition ad_request :: "player_env \<Rightarrow> ad_req \<Rightarrow> player \<Rightarrow> (dict \<times> string \<times> string) answer result \<times> player" where
  \<comment> \<open>the decision completed, and the style's colours\<close>
  "ad_request env q p =
     (let arid = request_id env q in
      case pe_decision env of
        None \<Rightarrow> (Inr (Refused 502), p)
      | Some v \<Rightarrow>
          (case rbind (as_dict v) (\<lambda>decision. rbind (new_play env arid (aq_content q) decision (ps_snapshot p)) (\<lambda>tr.
                rbind (pl_redis_agg env tr) (\<lambda>base. Inr (decision, tr\<lparr>pl_base := base\<rparr>)))) of
             Inl x \<Rightarrow> (Inl x, p)
           | Inr (decision, tr) \<Rightarrow>
               (let p = register_play tr p;
                    decision = dset decision ''ad_request_id'' (py_or (dget decision ''ad_request_id'') (PStr arid))
                in (rbind (py_style (dget decision ''vertical'')) (\<lambda>style.
                      Inr (Answer (dset decision ''rtt_ms'' (PFloat (py_round 1 ((pe_now env - pe_t0 env) * 1000))), style))), p))))"

section \<open>The Kafka scan\<close>

definition nested_raw :: "dict \<Rightarrow> dict" where
  "nested_raw d = (case dget d ''raw'' of PDict r \<Rightarrow> r | _ \<Rightarrow> [])"

definition message_ids :: "dict \<Rightarrow> pyval list" where
  "message_ids d =
     (let raw = nested_raw d in
      [dget d ''event_id'', dget d ''ad_request_id'', dget raw ''event_id'', dget raw ''eid'',
       dget raw ''arid'', dget raw ''ad_request_id''])"

definition scan_hit :: "pyval list \<Rightarrow> string \<Rightarrow> dict \<Rightarrow> bool" where
  \<comment> \<open>one of the ids is a target, or the ad request id\<close>
  "scan_hit targets arid d \<longleftrightarrow> sets_meet (message_ids d) targets \<or> py_mem (PStr arid) (message_ids d)"

definition found_msg :: "rat \<Rightarrow> string \<Rightarrow> int \<Rightarrow> int \<Rightarrow> dict \<Rightarrow> kmsg" where
  "found_msg elapsed t q off d =
     (let raw = nested_raw d in
      \<lparr>km_topic = t, km_partition = q, km_offset = off, km_at = py_round 1 elapsed,
       km_event_id = py_or (py_or (dget d ''event_id'') (dget raw ''event_id'')) (dget raw ''eid''),
       km_event_type = py_or (py_or (dget d ''event_type'') (dget raw ''event_type'')) (dget raw ''et''),
       km_reason = dget d ''reason'', km_source = dget d ''source'', km_lateness = dget d ''lateness_ms''\<rparr>)"

definition scan_turn :: "pyval list \<Rightarrow> turn \<Rightarrow> play \<times> (string \<times> int \<times> int) list \<Rightarrow>
    exn option \<times> play \<times> (string \<times> int \<times> int) list" where
  "scan_turn targets r s =
     (case tn_poll r of
        KMsg t q off value \<Rightarrow>
          (let tr = (fst s)\<lparr>pl_offsets := AList.update (off_key t q) (off + 1) (pl_offsets (fst s))\<rparr>; seen = snd s in
           case value of
             None \<Rightarrow> (None, tr, seen)
           | Some v \<Rightarrow>
               (case rbind (as_dict v) (\<lambda>d. rbind (make_set (message_ids d)) (\<lambda>ids. Inr d)) of
                  Inl x \<Rightarrow> (Some x, tr, seen)
                | Inr d \<Rightarrow>
                    if \<not> scan_hit targets (pl_arid tr) d then (None, tr, seen)
                    else if (t, q, off) \<in> set seen then (None, tr, seen)
                    else (None, tr\<lparr>pl_kafka := pl_kafka tr @ [found_msg (tn_at r - pl_t0 tr) t q off d]\<rparr>,
                          (t, q, off) # seen)))
      | _ \<Rightarrow> (None, s))"

definition coords :: "kmsg \<Rightarrow> string \<times> int \<times> int" where
  "coords m = (km_topic m, km_partition m, km_offset m)"

definition scan_targets :: "play \<Rightarrow> pyval list result" where
  "scan_targets tr = make_set (filter truthy (map sn_event_id (pl_sent tr)))"

definition scan_kafka :: "player_env \<Rightarrow> play \<Rightarrow> (exn option \<times> play) option" where
  "scan_kafka env tr =
     (case scan_targets tr of
        Inl x \<Rightarrow> Some (Some x, tr)
      | Inr targets \<Rightarrow>
          (case bk_topics (pe_brokers env) of
             None \<Rightarrow> Some (None, tr)
           | Some topics \<Rightarrow>
               (case resume_from topics (pl_offsets tr) of
                  Inl x \<Rightarrow> Some (Some x, tr)
                | Inr tps \<Rightarrow>
                    if tps = [] \<or> \<not> pe_assign env then Some (None, tr)
                    else map_option (\<lambda>(x, tr, seen). (x, tr))
                      (poll_loop (scan_turn targets) (pe_scan env + 3 / 2) (pe_turns env) (tr, map coords (pl_kafka tr))))))"

section \<open>The inspection of one ad\<close>

definition parquet_path :: "player_env \<Rightarrow> play \<Rightarrow> string" where
  "parquet_path env tr = pe_bucket env @ ''/dt='' @ pl_dt tr @ ''/hour='' @ pl_hour tr"

definition type_text :: "string option \<times> string option \<Rightarrow> string" where
  "type_text r = (case fst r of None \<Rightarrow> [] | Some t \<Rightarrow> t) @
     (case snd r of None \<Rightarrow> [] | Some q \<Rightarrow> if q = [] then [] else CHR ''/'' # q)"

definition check_minio :: "player_env \<Rightarrow> play \<Rightarrow> (string \<times> rat \<times> minio option) list \<Rightarrow>
    minio option \<times> play \<times> (string \<times> rat \<times> minio option) list" where
  \<comment> \<open>the result, cached for five seconds\<close>
  "check_minio env tr cache =
     (let fresh = (let path = parquet_path env tr in
            case pe_parquet env path (pl_arid tr) of
              Inl e \<Rightarrow> (None, tr\<lparr>pl_minio_err := Some (take 160 e)\<rparr>)
            | Inr rows \<Rightarrow>
                (if rows = [] then None
                 else Some \<lparr>mn_rows = length rows, mn_path = ''s3a://'' @ path @ ''/'',
                        mn_types = sort (remdups (map type_text rows))\<rparr>, tr));
          stored = (fst fresh, snd fresh, AList.update (pl_arid tr) (pe_now env, fst fresh) cache)
      in case map_of cache (pl_arid tr) of
           None \<Rightarrow> stored
         | Some (tm, res) \<Rightarrow> if pe_now env - tm < 5 then (res, tr, cache) else stored)"

record pg_out =
  pg_outbox :: "(int \<times> string \<times> bool \<times> string \<times> string option) list option"
  pg_settlement :: "(int \<times> int \<times> int \<times> int \<times> rat) option"
  pg_error :: "string option"

definition check_pg :: "player_env \<Rightarrow> play \<Rightarrow> pg_out" where
  "check_pg env tr =
     (case pe_pg env (pl_arid tr) of
        PgFailed e \<Rightarrow> \<lparr>pg_outbox = None, pg_settlement = None, pg_error = Some (take 160 e)\<rparr>
      | PgRead rows settled \<Rightarrow>
          (let outbox = (if rows = [] then None else Some rows) in
           if \<not> truthy (pl_campaign tr) then \<lparr>pg_outbox = outbox, pg_settlement = None, pg_error = None\<rparr>
           else (case settled of
               Inl e \<Rightarrow> \<lparr>pg_outbox = outbox, pg_settlement = None, pg_error = Some (take 160 e)\<rparr>
             | Inr r \<Rightarrow> \<lparr>pg_outbox = outbox,
                 pg_settlement = map_option (\<lambda>(a, b, c, d, x). (a, b, c, d, case x of None \<Rightarrow> 0 | Some y \<Rightarrow> y)) r,
                 pg_error = None\<rparr>)))"

definition base_count :: "ragg option \<Rightarrow> string \<Rightarrow> int" where
  \<comment> \<open>\<open>(tr.get("redis_base") or {}).get(k, 0)\<close>\<close>
  "base_count b k = (case b of None \<Rightarrow> 0 | Some a \<Rightarrow> (case map_of (ra_counts a) k of None \<Rightarrow> 0 | Some n \<Rightarrow> n))"

definition redis_delta :: "ragg option \<Rightarrow> ragg option \<Rightarrow> (string \<times> (string \<times> int) list) option" where
  \<comment> \<open>what the row gained since the request; the SSAI count is absolute\<close>
  "redis_delta agg base = map_option (\<lambda>a. (ra_key a,
     (''ssai_dupes'', base_count (Some a) ''ssai_dupes'') #
     map (\<lambda>k. (k, base_count (Some a) k - base_count base k))
       [''impressions'', ''clicks'', ''completes'', ''requests''])) agg"

record inspection =
  in_arid :: string
  in_campaign :: pyval
  in_elapsed :: rat
  in_sent :: "sent list"
  in_kafka :: "kmsg list"
  in_redis :: "(string \<times> (string \<times> int) list) option"
  in_redis_hint :: bool
  in_minio :: "minio option"
  in_minio_err :: "string option"
  in_pg :: pg_out
  in_pg_hint :: bool

definition store_play :: "string \<Rightarrow> play \<Rightarrow> player \<Rightarrow> player" where
  \<comment> \<open>the record is shared: what a handler writes into it is in the registry\<close>
  "store_play arid tr p = p\<lparr>ps_plays := AList.update arid tr (ps_plays p)\<rparr>"

definition inspect :: "player_env \<Rightarrow> string \<Rightarrow> player \<Rightarrow> (inspection answer result \<times> player) option" where
  "inspect env arid p =
     (case map_of (ps_plays p) arid of
        None \<Rightarrow> Some (Inr (Refused 404), p)
      | Some tr \<Rightarrow>
          map_option (\<lambda>(raised, tr).
            case raised of
              Some x \<Rightarrow> (Inl x, store_play arid tr p)
            | None \<Rightarrow>
                (case pl_redis_agg env tr of
                   Inl x \<Rightarrow> (Inl x, store_play arid tr p)
                 | Inr agg \<Rightarrow>
                     (let delta = redis_delta agg (pl_base tr); pg = check_pg env tr;
                          (mn, tr', cache) = check_minio env tr (ps_cache p)
                      in (Inr (Answer \<lparr>in_arid = arid, in_campaign = pl_campaign tr,
                            in_elapsed = py_round 1 (pe_now env - pl_t0 tr), in_sent = pl_sent tr,
                            in_kafka = sort_key km_at (pl_kafka tr), in_redis = delta, in_redis_hint = (delta = None),
                            in_minio = mn, in_minio_err = pl_minio_err tr', in_pg = pg,
                            in_pg_hint = (pg_settlement pg = None)\<rparr>),
                          store_play arid tr' (p\<lparr>ps_cache := cache\<rparr>)))))
            (scan_kafka env tr))"

section \<open>The start page\<close>

fun bootstrap_campaigns :: "pyval list \<Rightarrow> (dict \<times> string \<times> string) list \<Rightarrow> (dict \<times> string \<times> string) list" where
  \<comment> \<open>an exception ends the loop; what was appended stays\<close>
  "bootstrap_campaigns [] acc = acc"
| "bootstrap_campaigns (v # vs) acc =
     (case rbind (as_dict v) (\<lambda>c. rbind (py_float (py_or (dget c ''dailyBudget'') (PInt 0))) (\<lambda>b. Inr (c, b))) of
        Inl x \<Rightarrow> acc
      | Inr (c, b) \<Rightarrow>
          if b \<le> 0 then bootstrap_campaigns vs acc
          else (case py_style (dget c ''vertical'') of
              Inl x \<Rightarrow> acc
            | Inr style \<Rightarrow> bootstrap_campaigns vs (acc @ [(c, style)])))"

definition bootstrap :: "pyval option \<Rightarrow> content list \<times> (dict \<times> string \<times> string) list" where
  \<comment> \<open>the argument: the decoded reply of \<open>/v1/campaigns\<close>, \<open>None\<close> when the call raises\<close>
  "bootstrap reply = (CONTENTS,
     (case reply of
        Some (PDict d) \<Rightarrow> (case dget_or d ''campaigns'' (PList []) of PList cs \<Rightarrow> bootstrap_campaigns cs [] | _ \<Rightarrow> [])
      | _ \<Rightarrow> []))"

section \<open>The service\<close>

datatype request = AdRequest ad_req | Events "pyval list" "pyval list" "pyval list" | Inspect string | Nudge
  | OffsetTick

fun handle_request :: "player_env \<Rightarrow> request \<Rightarrow> player \<Rightarrow> player option" where
  \<comment> \<open>the state a request leaves, \<open>None\<close> when it does not return\<close>
  "handle_request env (AdRequest q) p = Some (snd (ad_request env q p))"
| "handle_request env (Events evs pixel_ids forge_ids) p = Some (snd (snd (events env evs pixel_ids forge_ids p)))"
| "handle_request env (Inspect arid) p = map_option snd (inspect env arid p)"
| "handle_request env Nudge p = Some p"
| "handle_request env OffsetTick p = Some (refresh_offsets env p)"

inductive player_reach :: "player \<Rightarrow> bool" where
  start: "player_reach player_init"
| request: "player_reach p \<Longrightarrow> handle_request env rq p = Some p' \<Longrightarrow> player_reach p'"

section \<open>Lemmas\<close>

interpretation plays: bounded_registry "registry_put 40" 40
  by unfold_locales (simp_all add: registry_put_drop)

interpretation pl: pixel_signer pl_sign
  by unfold_locales (simp add: pl_sign_def canonical_eq_collector [symmetric] canonical_def)

lemma player_pixels_are_generator_pixels:
  "send_pixel_params env i ev forge =
     pixel_params (pe_repr env) (pe_hmac env) (pe_secret env) (pe_epoch env i) (pe_hex env i) ev forge"
  by (simp add: send_pixel_params_def pixel_params_def pixel_fields_def pl_pixel_map_def PIXEL_MAP_def
      pl_sign_def em_sign_def canonical_def Let_def)

subsection \<open>Scans\<close>

definition offs_ok :: "(string \<times> int) list \<Rightarrow> bool" where
  "offs_ok offs \<longleftrightarrow> (\<forall>k \<in> fst ` set offs. \<exists>t q. k = off_key t q)"

lemma offs_ok_Nil [simp]: "offs_ok []"
  by (simp add: offs_ok_def)

lemma offs_ok_update [simp]: "offs_ok offs \<Longrightarrow> offs_ok (AList.update (off_key t q) off offs)"
  by (auto simp: offs_ok_def dom_update)

lemma offs_ok_watermarks: "offs_ok (watermarks watched bk topics)"
proof -
  have inner: "offs_ok out \<Longrightarrow> offs_ok (fold (\<lambda>q out. case bk_high bk t q of None \<Rightarrow> out
      | Some hi \<Rightarrow> AList.update (off_key t q) hi out) ps out)" for out t ps
    by (induction ps arbitrary: out) (auto split: option.splits)
  have "offs_ok out \<Longrightarrow> offs_ok (fold (\<lambda>t out. case map_of topics t of None \<Rightarrow> out
      | Some ps \<Rightarrow> fold (\<lambda>q out. case bk_high bk t q of None \<Rightarrow> out
          | Some hi \<Rightarrow> AList.update (off_key t q) hi out) ps out) ts out)" for out ts
    by (induction ts arbitrary: out) (auto intro: inner split: option.splits)
  then show ?thesis by (simp add: watermarks_def)
qed

definition turn_hits :: "pyval list \<Rightarrow> string \<Rightarrow> turn \<Rightarrow> (string \<times> int \<times> int) list" where
  "turn_hits targets arid r = (case tn_poll r of
     KMsg t q off (Some (PDict d)) \<Rightarrow> if scan_hit targets arid d then [(t, q, off)] else []
   | _ \<Rightarrow> [])"

definition scan_ok :: "play \<times> (string \<times> int \<times> int) list \<Rightarrow> bool" where
  "scan_ok s \<longleftrightarrow> set (snd s) = set (map coords (pl_kafka (fst s))) \<and> distinct (map coords (pl_kafka (fst s))) \<and>
     offs_ok (pl_offsets (fst s))"

lemma coords_found [simp]: "coords (found_msg el t q off d) = (t, q, off)"
  by (simp add: coords_def found_msg_def Let_def)

text \<open>One turn: what it appends, and where the partition resumes.\<close>

lemma scan_turn_effect:
  assumes "scan_turn targets r s = (x, s')" "scan_ok s"
  shows "scan_ok s'" "pl_arid (fst s') = pl_arid (fst s)"
    "x = None \<Longrightarrow> set (map coords (pl_kafka (fst s'))) = set (map coords (pl_kafka (fst s))) \<union> set (turn_hits targets (pl_arid (fst s)) r)"
    "\<exists>new. pl_kafka (fst s') = pl_kafka (fst s) @ new"
    "pl_sent (fst s') = pl_sent (fst s)"
  using assms
  by (auto simp: scan_turn_def scan_ok_def turn_hits_def as_dict_def make_set_def Let_def
      split: kpoll.splits option.splits pyval.splits if_splits sum.splits)

lemma scan_list_effect:
  assumes "poll_list (scan_turn targets) rs s = (x, s')" "scan_ok s"
  shows "scan_ok s' \<and> pl_arid (fst s') = pl_arid (fst s) \<and> pl_sent (fst s') = pl_sent (fst s) \<and>
    (\<exists>new. pl_kafka (fst s') = pl_kafka (fst s) @ new) \<and>
    (x = None \<longrightarrow> set (map coords (pl_kafka (fst s'))) =
       set (map coords (pl_kafka (fst s))) \<union> set (concat (map (turn_hits targets (pl_arid (fst s))) rs)))"
  using assms
proof (induction rs arbitrary: s)
  case (Cons r rs)
  obtain y s1 where step: "scan_turn targets r s = (y, s1)" by (cases "scan_turn targets r s")
  note eff = scan_turn_effect [OF step Cons.prems(2)]
  show ?case
  proof (cases y)
    case None
    then have "poll_list (scan_turn targets) rs s1 = (x, s')" using Cons.prems(1) step by simp
    from Cons.IH [OF this eff(1)] eff None show ?thesis by (auto simp: Un_assoc)
  next
    case (Some e)
    then show ?thesis using Cons.prems(1) step eff by auto
  qed
qed simp

definition next_offset :: "string \<Rightarrow> int \<Rightarrow> turn list \<Rightarrow> int option \<Rightarrow> int option" where
  \<comment> \<open>where a partition resumes: one past the last message polled from it\<close>
  "next_offset t q rs old = fold (\<lambda>r n. case tn_poll r of
     KMsg t' q' off v \<Rightarrow> if t' = t \<and> q' = q then Some (off + 1) else n | _ \<Rightarrow> n) rs old"

lemma scan_list_offsets:
  "poll_list (scan_turn targets) rs s = (None, s') \<Longrightarrow>
     map_of (pl_offsets (fst s')) (off_key t q) = next_offset t q rs (map_of (pl_offsets (fst s)) (off_key t q))"
proof (induction rs arbitrary: s)
  case (Cons r rs)
  obtain y s1 where step: "scan_turn targets r s = (y, s1)" by (cases "scan_turn targets r s")
  with Cons.prems have y: "y = None" and rest: "poll_list (scan_turn targets) rs s1 = (None, s')"
    by (cases y; simp)+
  have "map_of (pl_offsets (fst s1)) (off_key t q) = next_offset t q [r] (map_of (pl_offsets (fst s)) (off_key t q))"
    using step by (auto simp: scan_turn_def next_offset_def as_dict_def make_set_def Let_def update_conv' off_key_inj
        split: kpoll.splits option.splits pyval.splits if_splits sum.splits)
  with Cons.IH [OF rest] show ?case by (simp add: next_offset_def)
qed (simp add: next_offset_def)

lemma scan_kafka_cases:
  assumes "scan_kafka env tr = Some (x, tr')"
  obtains (none) "tr' = tr" | (polled) targets k seen where "scan_targets tr = Inr targets"
    "poll_list (scan_turn targets) (stake k (pe_turns env)) (tr, map coords (pl_kafka tr)) = (x, tr', seen)"
proof -
  consider "tr' = tr" | targets s where "scan_targets tr = Inr targets"
      "poll_loop (scan_turn targets) (pe_scan env + 3 / 2) (pe_turns env) (tr, map coords (pl_kafka tr)) = Some (x, s)"
      "fst s = tr'"
    using assms by (auto simp: scan_kafka_def split: sum.splits option.splits if_splits)
  then show thesis
  proof cases
    case 2
    obtain k where k: "poll_list (scan_turn targets) (stake k (pe_turns env)) (tr, map coords (pl_kafka tr)) = (x, s)"
      using poll_loop_some_prefix [OF 2(2)] by blast
    show thesis by (rule polled [OF 2(1), of k "snd s"]) (simp add: k 2(3) [symmetric])
  qed (rule none)
qed

lemma scan_kafka_effect:
  assumes "scan_kafka env tr = Some (x, tr')" "distinct (map coords (pl_kafka tr))" "offs_ok (pl_offsets tr)"
  shows "distinct (map coords (pl_kafka tr')) \<and> offs_ok (pl_offsets tr') \<and> pl_arid tr' = pl_arid tr \<and> pl_sent tr' = pl_sent tr"
proof (rule scan_kafka_cases [OF assms(1)])
  fix targets k seen
  assume "poll_list (scan_turn targets) (stake k (pe_turns env)) (tr, map coords (pl_kafka tr)) = (x, tr', seen)"
  from scan_list_effect [OF this] assms(2, 3) show ?thesis by (simp add: scan_ok_def)
qed (use assms in simp)

subsection \<open>The batch of events\<close>

definition wants_pixel :: "pyval list \<Rightarrow> pyval list \<Rightarrow> dict \<Rightarrow> bool" where
  "wants_pixel pixel_ids forge_ids ev \<longleftrightarrow>
     py_mem (dget ev ''event_id'') pixel_ids \<or> py_mem (dget ev ''event_id'') forge_ids"

lemma event_step_ok:
  assumes "event_step env pix forge i v acc = (None, acc')"
  obtains ev row p where "v = PDict ev" "event_row env ev = Inr row" "remember ev (ea_player acc) = Inr p"
    "acc' = (if wants_pixel pix forge ev
       then event_pixel env i ev row (py_mem (dget ev ''event_id'') forge) (acc\<lparr>ea_player := p\<rparr>)
       else acc\<lparr>ea_player := p, ea_post := ea_post acc @ [(ev, row)]\<rparr>)"
  using assms by (auto simp: event_step_def wants_pixel_def Let_def split: pyval.splits sum.splits if_splits)

lemma event_row_fields:
  "event_row env ev = Inr row \<Longrightarrow> er_event_id row = dget ev ''event_id'' \<and> \<not> er_pixel row"
  by (auto simp: event_row_def rbind_eq_Inr_iff)

definition pixel_call :: "player_env \<Rightarrow> pyval list \<Rightarrow> nat \<times> dict \<Rightarrow> call" where
  "pixel_call env forge = (\<lambda>(j, ev). CallPixel (send_pixel_params env j ev (py_mem (dget ev ''event_id'') forge)))"

definition loop_log :: "player_env \<Rightarrow> pyval list \<Rightarrow> pyval list \<Rightarrow> nat \<Rightarrow> dict list \<Rightarrow> ev_acc \<Rightarrow> ev_acc \<Rightarrow> bool" where
  \<comment> \<open>what the loop over the events \<open>ds\<close>, numbered from \<open>i\<close>, adds to the rows, the calls and the batch\<close>
  "loop_log env pix forge i ds a a' \<longleftrightarrow>
     map er_event_id (ea_results a') = map er_event_id (ea_results a) @ map (\<lambda>ev. dget ev ''event_id'') (filter (wants_pixel pix forge) ds) \<and>
     map er_pixel (ea_results a') = map er_pixel (ea_results a) @ map (\<lambda>_. True) (filter (wants_pixel pix forge) ds) \<and>
     ea_calls a' = ea_calls a @ map (pixel_call env forge) (filter (\<lambda>p. wants_pixel pix forge (snd p)) (enumerate i ds)) \<and>
     map fst (ea_post a') = map fst (ea_post a) @ filter (\<lambda>ev. \<not> wants_pixel pix forge ev) ds \<and>
     map (\<lambda>p. er_event_id (snd p)) (ea_post a') = map (\<lambda>p. er_event_id (snd p)) (ea_post a) @
       map (\<lambda>ev. dget ev ''event_id'') (filter (\<lambda>ev. \<not> wants_pixel pix forge ev) ds) \<and>
     map (\<lambda>p. er_pixel (snd p)) (ea_post a') = map (\<lambda>p. er_pixel (snd p)) (ea_post a) @
       map (\<lambda>_. False) (filter (\<lambda>ev. \<not> wants_pixel pix forge ev) ds)"

lemma loop_log_Cons:
  assumes "event_row env ev = Inr row" "loop_log env pix forge (Suc i) ds a1 a'"
    and "a1 = (if wants_pixel pix forge ev
       then event_pixel env i ev row (py_mem (dget ev ''event_id'') forge) (a\<lparr>ea_player := p\<rparr>)
       else a\<lparr>ea_player := p, ea_post := ea_post a @ [(ev, row)]\<rparr>)"
  shows "loop_log env pix forge i (ev # ds) a a'"
  using assms(2, 3) event_row_fields [OF assms(1)]
  by (simp add: loop_log_def event_pixel_def pixel_call_def Let_def)

lemma event_loop_ok:
  "event_loop env pix forge i vs acc = (None, acc') \<Longrightarrow> \<exists>ds. vs = map PDict ds \<and> loop_log env pix forge i ds acc acc'"
proof (induction vs arbitrary: i acc)
  case Nil
  then show ?case by (simp add: loop_log_def)
next
  case (Cons v vs)
  obtain acc1 where step: "event_step env pix forge i v acc = (None, acc1)"
    and rest: "event_loop env pix forge (Suc i) vs acc1 = (None, acc')"
    using Cons.prems by (auto split: prod.splits option.splits)
  obtain ds where ds: "vs = map PDict ds" "loop_log env pix forge (Suc i) ds acc1 acc'"
    using Cons.IH [OF rest] by blast
  show ?case
  proof (rule event_step_ok [OF step])
    fix ev row p
    assume "v = PDict ev" "event_row env ev = Inr row"
      "acc1 = (if wants_pixel pix forge ev
         then event_pixel env i ev row (py_mem (dget ev ''event_id'') forge) (acc\<lparr>ea_player := p\<rparr>)
         else acc\<lparr>ea_player := p, ea_post := ea_post acc @ [(ev, row)]\<rparr>)"
    with loop_log_Cons [OF _ ds(2)] have "v # vs = map PDict (ev # ds) \<and> loop_log env pix forge i (ev # ds) acc acc'"
      by (simp add: ds(1))
    then show ?thesis by (rule exI)
  qed
qed

subsection \<open>The registry\<close>

definition play_ok :: "string \<times> play \<Rightarrow> bool" where
  "play_ok e \<longleftrightarrow> pl_arid (snd e) = fst e \<and> distinct (map coords (pl_kafka (snd e))) \<and> offs_ok (pl_offsets (snd e))"

definition player_ok :: "player \<Rightarrow> bool" where
  "player_ok p \<longleftrightarrow> length (ps_plays p) \<le> 40 \<and> distinct (map fst (ps_plays p)) \<and> list_all play_ok (ps_plays p) \<and>
     offs_ok (ps_snapshot p)"

lemma player_ok_update:
  assumes "player_ok p" "map_of (ps_plays p) k = Some tr" "play_ok (k, tr')"
  shows "player_ok (p\<lparr>ps_plays := AList.update k tr' (ps_plays p)\<rparr>)"
proof -
  have "k \<in> fst ` set (ps_plays p)" using assms(2) by (metis domI dom_map_of_conv_image_fst)
  then show ?thesis
    using assms(1, 3) update_subset [of k tr' "ps_plays p"]
    by (auto simp: player_ok_def length_update distinct_update list_all_iff)
qed

lemma player_ok_play: "player_ok p \<Longrightarrow> map_of (ps_plays p) k = Some tr \<Longrightarrow> play_ok (k, tr)"
  by (auto simp: player_ok_def list_all_iff dest: map_of_SomeD)

lemma remember_ok: "player_ok p \<Longrightarrow> remember ev p = Inr p' \<Longrightarrow> player_ok p'"
  using player_ok_play [of p]
  by (auto simp: remember_def Let_def play_ok_def intro!: player_ok_update split: if_splits pyval.splits option.splits)

lemma event_step_player: "event_step env pix forge i v acc = (x, acc') \<Longrightarrow> player_ok (ea_player acc) \<Longrightarrow> player_ok (ea_player acc')"
  by (auto simp: event_step_def event_pixel_def Let_def intro: remember_ok split: pyval.splits sum.splits if_splits)

lemma event_loop_player: "event_loop env pix forge i vs acc = (x, acc') \<Longrightarrow> player_ok (ea_player acc) \<Longrightarrow> player_ok (ea_player acc')"
proof (induction vs arbitrary: i acc)
  case (Cons v vs)
  obtain y acc1 where step: "event_step env pix forge i v acc = (y, acc1)" by (cases "event_step env pix forge i v acc")
  have "player_ok (ea_player acc1)" by (rule event_step_player [OF step Cons.prems(2)])
  with Cons step show ?case by (cases y) auto
qed simp

lemma events_player: "player_ok p \<Longrightarrow> player_ok (snd (snd (events env evs pix forge p)))"
  using event_loop_player [of env _ _ 0 evs "\<lparr>ea_player = p, ea_results = [], ea_post = [], ea_calls = []\<rparr>"]
  by (simp add: events_def split: sum.splits prod.splits option.splits)

lemma ad_request_player:
  assumes "player_ok p"
  shows "player_ok (snd (ad_request env q p))"
proof -
  have reg: "player_ok (register_play tr p)" if tr: "play_ok (pl_arid tr, tr)" for tr
    using assms tr plays.put_bound [of "ps_plays p" "pl_arid tr" tr] plays.put_distinct [of "ps_plays p" "pl_arid tr" tr]
      plays.put_set [of "ps_plays p" "pl_arid tr" tr]
    by (auto simp: player_ok_def register_play_def list_all_iff)
  have new: "play_ok (pl_arid (tr\<lparr>pl_base := b\<rparr>), tr\<lparr>pl_base := b\<rparr>)" if "new_play env arid c d (ps_snapshot p) = Inr tr" for arid c d tr b
    using that assms by (auto simp: new_play_def play_ok_def player_ok_def rbind_eq_Inr_iff)
  show ?thesis
    using assms reg [OF new]
    by (auto simp: ad_request_def rbind_eq_Inr_iff Let_def split: option.splits sum.splits)
qed

lemma check_minio_keeps: "check_minio env tr cache = (mn, tr', c) \<Longrightarrow>
    pl_arid tr' = pl_arid tr \<and> pl_kafka tr' = pl_kafka tr \<and> pl_offsets tr' = pl_offsets tr"
  by (auto simp: check_minio_def Let_def split: option.splits sum.splits if_splits)

lemma inspect_player:
  assumes "player_ok p" "inspect env arid p = Some (r, p')"
  shows "player_ok p'"
proof (cases "map_of (ps_plays p) arid")
  case None
  then show ?thesis using assms by (simp add: inspect_def)
next
  case (Some tr)
  obtain x tr1 where scan: "scan_kafka env tr = Some (x, tr1)" using assms(2) by (auto simp: inspect_def Some)
  have tr1: "play_ok (arid, tr1)"
    using scan_kafka_effect [OF scan] player_ok_play [OF assms(1) Some] by (simp add: play_ok_def)
  have store: "player_ok (store_play arid t (p\<lparr>ps_cache := c\<rparr>))" if "play_ok (arid, t)" for t c
  proof -
    have "player_ok (p\<lparr>ps_cache := c\<rparr>)" using assms(1) by (simp add: player_ok_def)
    from player_ok_update [OF this _ that] Some show ?thesis by (simp add: store_play_def)
  qed
  have p': "p' = store_play arid tr1 p \<or> (\<exists>mn tr2 c. check_minio env tr1 (ps_cache p) = (mn, tr2, c) \<and>
      p' = store_play arid tr2 (p\<lparr>ps_cache := c\<rparr>))"
    using assms(2) by (auto simp: inspect_def Some scan Let_def split: option.splits sum.splits prod.splits)
  have same: "store_play arid tr1 p = store_play arid tr1 (p\<lparr>ps_cache := ps_cache p\<rparr>)" by simp
  from p' show ?thesis
  proof
    assume "p' = store_play arid tr1 p"
    then show ?thesis using store [OF tr1] same by metis
  next
    assume "\<exists>mn tr2 c. check_minio env tr1 (ps_cache p) = (mn, tr2, c) \<and> p' = store_play arid tr2 (p\<lparr>ps_cache := c\<rparr>)"
    then obtain mn tr2 c where c: "check_minio env tr1 (ps_cache p) = (mn, tr2, c)"
      "p' = store_play arid tr2 (p\<lparr>ps_cache := c\<rparr>)" by blast
    have "play_ok (arid, tr2)" using check_minio_keeps [OF c(1)] tr1 by (simp add: play_ok_def)
    then show ?thesis unfolding c(2) by (rule store)
  qed
qed

lemma refresh_player: "player_ok p \<Longrightarrow> player_ok (refresh_offsets env p)"
  by (simp add: refresh_offsets_def player_ok_def offs_ok_watermarks Let_def split: option.splits)

lemma handle_request_player: "player_ok p \<Longrightarrow> handle_request env rq p = Some p' \<Longrightarrow> player_ok p'"
proof (cases rq)
  case (Inspect arid)
  assume "player_ok p" "handle_request env rq p = Some p'"
  then show ?thesis using Inspect inspect_player [of p env arid] by auto
qed (auto intro: ad_request_player events_player refresh_player)

lemma player_reach_ok: "player_reach p \<Longrightarrow> player_ok p"
proof (induction rule: player_reach.induct)
  case start
  then show ?case by (simp add: player_init_def player_ok_def)
qed (rule handle_request_player)

section \<open>Properties\<close>

definition demo_player_env :: player_env where
  "demo_player_env = \<lparr>pe_repr = (\<lambda>_. []), pe_hmac = (\<lambda>k s. ''00''), pe_secret = ''s'', pe_hex = (\<lambda>n. replicate 32 CHR ''a''),
     pe_clock = ''12:00:00'', pe_epoch = (\<lambda>_. 1789948800), pe_pixel = (\<lambda>_. PixelReply 200 ''image/gif'' 43),
     pe_post = HttpReply 202 ''{}'', pe_decision = Some (PDict [(''campaign_id'', PStr ''cmp-1001'')]), pe_ms = 1789948800000,
     pe_t0 = 0, pe_now = 1, pe_redis = (\<lambda>_. None),
     pe_brokers = \<lparr>bk_topics = Some [(''ad.click'', [0])], bk_high = (\<lambda>_ _. Some 7)\<rparr>, pe_assign = True,
     pe_scan = 0,
     pe_turns = \<lparr>tn_now = 0, tn_poll = KMsg ''ad.click'' 0 7 (Some (PDict [(''ad_request_id'', PStr ''req-1'')])), tn_at = 1\<rparr> ##
       sconst \<lparr>tn_now = 2, tn_poll = KNone, tn_at = 2\<rparr>,
     pe_bucket = ''events'', pe_parquet = (\<lambda>_ _. Inr []), pe_pg = (\<lambda>_. PgFailed [])\<rparr>"

definition demo_play :: play where
  "demo_play = \<lparr>pl_arid = ''req-1'', pl_t0 = 0, pl_campaign = PStr ''cmp-1001'', pl_content = ''ct-1'', pl_minute = ''202609210000'',
     pl_dt = ''2026-09-21'', pl_hour = ''00'', pl_offsets = [(off_key ''ad.click'' 0, 7)], pl_kafka = [], pl_sent = [],
     pl_base = None, pl_minio_err = None\<rparr>"

text \<open>C27: whatever requests the player has served, its registry is sound: at most 40 ads, each under its
  own ad request id and once; no Kafka message is listed twice for an ad; and the offsets it resumes
  from, its own and the shared snapshot, are keys of a topic and a partition.\<close>

theorem player_registry_sound:
  assumes "player_reach p"
  shows "length (ps_plays p) \<le> 40 \<and> distinct (map fst (ps_plays p)) \<and> offs_ok (ps_snapshot p) \<and>
    list_all (\<lambda>(k, tr). pl_arid tr = k \<and> distinct (map coords (pl_kafka tr)) \<and> offs_ok (pl_offsets tr)) (ps_plays p)"
  using player_reach_ok [OF assms] by (auto simp: player_ok_def list_all_iff play_ok_def)

theorem player_registry_sound_witness: "offs_ok (ps_snapshot (refresh_offsets demo_player_env player_init))"
proof -
  have "player_reach (refresh_offsets demo_player_env player_init)"
    by (rule player_reach.request [OF player_reach.start, of demo_player_env OffsetTick]) simp
  from player_registry_sound [OF this] show ?thesis by blast
qed

text \<open>C28: a scan ends. Once the clock passes the scan's deadline, whatever is polled until then and
  whatever the messages hold, the inspection of an ad returns.\<close>

theorem inspection_returns:
  assumes "\<exists>n. pe_scan env + 3 / 2 \<le> tn_now (pe_turns env !! n)"
  shows "\<exists>r p'. inspect env arid p = Some (r, p')"
proof -
  have "scan_kafka env tr \<noteq> None" for tr
    by (simp add: scan_kafka_def poll_loop_returns [OF assms] del: not_None_eq split: sum.split option.split)
  then have "inspect env arid p \<noteq> None"
    by (simp add: inspect_def del: not_None_eq split: option.split)
  then show ?thesis by (metis not_None_eq surj_pair)
qed

theorem inspection_returns_witness: "\<exists>r p'. inspect demo_player_env ''req-1'' player_init = Some (r, p')"
proof (rule inspection_returns)
  have "pe_scan demo_player_env + 3 / 2 \<le> tn_now (pe_turns demo_player_env !! 1)"
    by (simp add: demo_player_env_def)
  then show "\<exists>n. pe_scan demo_player_env + 3 / 2 \<le> tn_now (pe_turns demo_player_env !! n)" by blast
qed

text \<open>A scan finds each of an ad's messages once. When a scan that assigned partitions ends without an
  exception, the new entries are exactly the messages polled before the deadline that carry one of
  the ad's event ids or its request id and were not listed before, each once, appended to the old
  ones; and every partition resumes one past the last message polled from it.\<close>

theorem scan_lists_each_message_once:
  assumes "scan_kafka env tr = Some (None, tr')" "\<exists>n. pe_scan env + 3 / 2 \<le> tn_now (pe_turns env !! n)"
    and "bk_topics (pe_brokers env) = Some topics" "resume_from topics (pl_offsets tr) = Inr tps" "tps \<noteq> []" "pe_assign env"
    and "distinct (map coords (pl_kafka tr))" "offs_ok (pl_offsets tr)"
  shows "\<exists>targets new. scan_targets tr = Inr targets \<and>
    (let rs = turns_before (pe_scan env + 3 / 2) (pe_turns env) in
      pl_kafka tr' = pl_kafka tr @ new \<and> distinct (map coords (pl_kafka tr @ new)) \<and>
      set (map coords new) = set (concat (map (turn_hits targets (pl_arid tr)) rs)) - set (map coords (pl_kafka tr)) \<and>
      (\<forall>t q. map_of (pl_offsets tr') (off_key t q) = next_offset t q rs (map_of (pl_offsets tr) (off_key t q))))"
proof -
  let ?rs = "turns_before (pe_scan env + 3 / 2) (pe_turns env)" and ?s = "(tr, map coords (pl_kafka tr))"
  obtain targets where t: "scan_targets tr = Inr targets"
    using assms(1) by (cases "scan_targets tr") (simp_all add: scan_kafka_def)
  obtain seen where run: "poll_list (scan_turn targets) ?rs ?s = (None, tr', seen)"
    using assms(1, 3-6) by (auto simp: scan_kafka_def t poll_loop_returns [OF assms(2)] split: prod.splits)
  have ok: "scan_ok ?s" using assms(7, 8) by (simp add: scan_ok_def)
  note eff = scan_list_effect [OF run ok]
  obtain new where new: "pl_kafka tr' = pl_kafka tr @ new" using eff by auto
  have d: "distinct (map coords (pl_kafka tr @ new))" using eff by (simp add: scan_ok_def new)
  have "set (map coords (pl_kafka tr @ new)) = set (map coords (pl_kafka tr)) \<union>
      set (concat (map (turn_hits targets (pl_arid tr)) ?rs))" using eff by (simp add: new)
  with d have "set (map coords new) = set (concat (map (turn_hits targets (pl_arid tr)) ?rs)) - set (map coords (pl_kafka tr))"
    by (simp only: map_append set_append distinct_append) blast
  then show ?thesis
    using t new d scan_list_offsets [OF run] by (auto simp: Let_def)
qed

theorem scan_lists_each_message_once_witness:
  "\<exists>tr'. scan_kafka demo_player_env demo_play = Some (None, tr') \<and> set (map coords (pl_kafka tr')) = {(''ad.click'', 0, 7)}"
proof -
  let ?env = demo_player_env
  have late: "\<exists>n. pe_scan ?env + 3 / 2 \<le> tn_now (pe_turns ?env !! n)"
    by (rule exI [of _ 1]) (simp add: demo_player_env_def)
  have turns: "turns_before (pe_scan ?env + 3 / 2) (pe_turns ?env) = [shd (pe_turns ?env)]"
  proof -
    have "(LEAST n. pe_scan ?env + 3 / 2 \<le> tn_now (pe_turns ?env !! n)) = 1"
      by (rule Least_equality) (auto simp: demo_player_env_def not_less_eq_eq intro: ccontr split: nat.splits)
    then show ?thesis by (simp add: turns_before_def)
  qed
  have targets: "scan_targets demo_play = Inr []" by (simp add: scan_targets_def demo_play_def make_set_def)
  have topics: "bk_topics (pe_brokers ?env) = Some [(''ad.click'', [0])]" by (simp add: demo_player_env_def)
  have tps: "resume_from [(''ad.click'', [0])] (pl_offsets demo_play) = Inr [(''ad.click'', 0, 7)]"
    by (simp add: demo_play_def)
  have assign: "pe_assign ?env" by (simp add: demo_player_env_def)
  have "fst (scan_turn [] (shd (pe_turns ?env)) (demo_play, map coords (pl_kafka demo_play))) = None"
    by (simp add: demo_player_env_def scan_turn_def as_dict_def make_set_def message_ids_def nested_raw_def dget_def Let_def)
  then obtain u where step: "scan_turn [] (shd (pe_turns ?env)) (demo_play, map coords (pl_kafka demo_play)) = (None, u)"
    by (metis prod.collapse)
  obtain tr' where run: "scan_kafka ?env demo_play = Some (None, tr')"
    using targets topics tps assign
    by (cases u) (simp add: scan_kafka_def poll_loop_returns [OF late] turns step)
  have hit: "turn_hits [] ''req-1'' (shd (pe_turns ?env)) = [(''ad.click'', 0, 7)]"
    by (simp add: turn_hits_def demo_player_env_def scan_hit_def message_ids_def nested_raw_def dget_def py_mem_def Let_def)
  have "offs_ok (pl_offsets demo_play)" by (auto simp: demo_play_def offs_ok_def)
  moreover have kafka: "pl_kafka demo_play = []" "pl_arid demo_play = ''req-1''" by (simp_all add: demo_play_def)
  ultimately obtain new where "pl_kafka tr' = new" "set (map coords new) = {(''ad.click'', 0, 7)}"
    using scan_lists_each_message_once [OF run late topics tps _ assign]
    by (auto simp: turns targets hit Let_def kafka simp del: set_map)
  with run show ?thesis by blast
qed

text \<open>C29: a batch of events is accounted for event by event. When the player answers, every event was an
  object; the answer has one row for each, first those sent as pixels, then the others, each group in
  order; a pixel call went out for every event listed as pixel or forged, in order, and the others
  went out together in one batch, in order, unless there was none.\<close>

theorem events_sent_once:
  assumes "events env evs pixel_ids forge_ids p = (Inr rows, calls, p')"
  shows "\<exists>ds. evs = map PDict ds \<and> length rows = length evs \<and>
    (let pixels = filter (wants_pixel pixel_ids forge_ids) ds; others = filter (\<lambda>ev. \<not> wants_pixel pixel_ids forge_ids ev) ds in
      map er_event_id rows = map (\<lambda>ev. dget ev ''event_id'') (pixels @ others) \<and>
      map er_pixel rows = replicate (length pixels) True @ replicate (length others) False \<and>
      calls = map (pixel_call env forge_ids) (filter (\<lambda>q. wants_pixel pixel_ids forge_ids (snd q)) (enumerate 0 ds)) @
        (if others = [] then [] else [CallPost others]))"
proof -
  let ?a = "\<lparr>ea_player = p, ea_results = [], ea_post = [], ea_calls = []\<rparr>"
  have sets: "make_set pixel_ids = Inr pixel_ids" "make_set forge_ids = Inr forge_ids"
    using assms by (auto simp: events_def make_set_def split: if_splits)
  obtain a where loop: "event_loop env pixel_ids forge_ids 0 evs ?a = (None, a)"
    using assms by (auto simp: events_def sets split: prod.splits option.splits)
  obtain ds where ds: "evs = map PDict ds" and log: "loop_log env pixel_ids forge_ids 0 ds ?a a"
    using event_loop_ok [OF loop] by blast
  let ?px = "filter (wants_pixel pixel_ids forge_ids) ds" and ?ot = "filter (\<lambda>ev. \<not> wants_pixel pixel_ids forge_ids ev) ds"
  have logs: "map er_event_id (ea_results a) = map (\<lambda>ev. dget ev ''event_id'') ?px"
    "map er_pixel (ea_results a) = map (\<lambda>_. True) ?px"
    "ea_calls a = map (pixel_call env forge_ids) (filter (\<lambda>q. wants_pixel pixel_ids forge_ids (snd q)) (enumerate 0 ds))"
    "map fst (ea_post a) = ?ot"
    "map (\<lambda>q. er_event_id (snd q)) (ea_post a) = map (\<lambda>ev. dget ev ''event_id'') ?ot"
    "map (\<lambda>q. er_pixel (snd q)) (ea_post a) = map (\<lambda>_. False) ?ot"
    using log by (simp_all add: loop_log_def)
  have "rows = ea_results a @ map (\<lambda>(ev, row). row\<lparr>er_reply := body_200 (pe_post env)\<rparr>) (ea_post a)"
    "calls = ea_calls a @ (if ea_post a = [] then [] else [CallPost (map fst (ea_post a))])"
    using assms by (auto simp: events_def sets loop split: if_splits)
  moreover have "ea_post a = [] \<longleftrightarrow> ?ot = []" using logs(4) by (metis map_is_Nil_conv)
  ultimately have rows: "map er_event_id rows = map (\<lambda>ev. dget ev ''event_id'') (?px @ ?ot)"
    "map er_pixel rows = map (\<lambda>_. True) ?px @ map (\<lambda>_. False) ?ot"
    "calls = map (pixel_call env forge_ids) (filter (\<lambda>q. wants_pixel pixel_ids forge_ids (snd q)) (enumerate 0 ds)) @
        (if ?ot = [] then [] else [CallPost ?ot])"
    using logs by (simp_all add: case_prod_beta comp_def)
  have "length rows = length (map er_event_id rows)" by simp
  also have "\<dots> = length evs" unfolding rows(1) by (simp add: ds sum_length_filter_compl)
  finally show ?thesis
    using rows by (intro exI [of _ ds]) (simp add: ds Let_def map_replicate_const)
qed

definition demo_event :: "string \<Rightarrow> dict" where
  "demo_event eid = [(''event_id'', PStr eid), (''event_type'', PStr ''impression''),
     (''campaign_id'', PStr ''cmp-1001''), (''event_time'', PInt 1789948800000)]"

theorem events_sent_once_witness:
  "\<exists>rows calls p'. events demo_player_env [PDict (demo_event ''e1''), PDict (demo_event ''e2'')] [PStr ''e2''] [] player_init
      = (Inr rows, calls, p') \<and> map er_pixel rows = [True, False] \<and> map er_event_id rows = [PStr ''e2'', PStr ''e1'']"
proof -
  let ?evs = "[PDict (demo_event ''e1''), PDict (demo_event ''e2'')]"
  have "\<not> isl (fst (events demo_player_env ?evs [PStr ''e2''] [] player_init))"
    by (simp add: events_def make_set_def event_step_def remember_def event_row_def lowered_type_def py_or_def
        demo_event_def dget_def py_mem_def event_pixel_def Let_def)
  then obtain rows calls p' where e: "events demo_player_env ?evs [PStr ''e2''] [] player_init = (Inr rows, calls, p')"
    by (metis not_isl_Inr prod.collapse)
  have px: "\<not> wants_pixel [PStr ''e2''] [] (demo_event ''e1'')" "wants_pixel [PStr ''e2''] [] (demo_event ''e2'')"
    by (simp_all add: wants_pixel_def py_mem_def demo_event_def dget_def)
  from events_sent_once [OF e] have "map er_pixel rows = [True, False]" "map er_event_id rows = [PStr ''e2'', PStr ''e1'']"
    by (auto simp: Let_def px map_eq_Cons_conv) (simp_all add: demo_event_def dget_def)
  with e show ?thesis by (intro exI conjI)
qed

text \<open>The topic the page shows for an event is the topic the collector routes it to, except for five
  spellings the collector knows and the copied table does not: those are shown as unknown types
  bound for the dead-letter topic, although the collector accepts them.\<close>

theorem preview_agrees_with_router:
  "preview_topic (lowercase s) =
     (if lowercase s \<in> {''firstquartile'', ''thirdquartile'', ''clickthrough'', ''request'', ''response''} then DlqUnknownType
      else (case topic_for s of None \<Rightarrow> DlqUnknownType | Some t \<Rightarrow> Topic t)) \<and>
   topic_for ''firstquartile'' = Some ''ad.quartile'' \<and> topic_for ''thirdquartile'' = Some ''ad.quartile'' \<and>
   topic_for ''clickthrough'' = Some ''ad.click'' \<and> topic_for ''request'' = Some ''ad.request'' \<and>
   topic_for ''response'' = Some ''ad.request''"
proof -
  have "preview_topic t =
     (if t \<in> {''firstquartile'', ''thirdquartile'', ''clickthrough'', ''request'', ''response''} then DlqUnknownType
      else (case topic_for s of None \<Rightarrow> DlqUnknownType | Some u \<Rightarrow> Topic u))" if "t = lowercase s" for t
    unfolding topic_for_def that [symmetric] Let_def preview_topic_def TOPIC_OF_def
    by (simp split: if_split)
  moreover have "topic_for ''firstquartile'' = Some ''ad.quartile''" "topic_for ''thirdquartile'' = Some ''ad.quartile''"
    "topic_for ''clickthrough'' = Some ''ad.click''" "topic_for ''request'' = Some ''ad.request''"
    "topic_for ''response'' = Some ''ad.request''" by code_simp+
  ultimately show ?thesis by blast
qed

end
