(* ===== verification/Tracer.thy ===== *)
theory Tracer
  imports Py_Service Py_Time
begin

text \<open>
  The event tracer (\<open>tracer/app.py\<close>): the events each button makes, the registry of the last 20
  traces, the Kafka scan, the stages a trace is looked up in, and the watermark nudges.

  Inputs from outside are a record, as for the player; the random texts of a request are numbered in
  the order they are drawn.  Titles, lessons and roles shown on the page are left out.
\<close>

section \<open>State and inputs\<close>

record tmsg =
  tm_topic :: string
  tm_partition :: int
  tm_offset :: int
  tm_at :: rat
  tm_reason :: pyval
  tm_lateness :: pyval
  tm_source :: pyval

record target =
  tg_event_id :: string
  tg_match :: "string option"

record tagg =
  ta_key :: string
  ta_impressions :: int
  ta_requests :: int
  ta_ssai :: int
  ta_at :: rat

record trace =
  tr_id :: string
  tr_campaign :: string
  tr_kind :: string
  tr_t0 :: rat
  tr_ts :: int
  tr_arid :: string
  tr_ids :: "target list"
  tr_http :: "dict list"
  tr_offsets :: "(string \<times> int) list"
  tr_kafka :: "tmsg list"
  tr_minute :: string
  tr_dt :: string
  tr_hour :: string
  tr_base :: "tagg option"
  tr_minio_err :: "string option"
  tr_nudges :: "rat list"

record tminio =
  tn_rows :: nat
  tn_path :: string
  tn_minio_at :: rat

record tracer =
  ts_traces :: "(string \<times> trace) list"
  ts_cache :: "(string \<times> rat \<times> tminio option) list"

definition tracer_init :: tracer where
  "tracer_init = \<lparr>ts_traces = [], ts_cache = []\<rparr>"

datatype gif_reply = GifRaised string | GifReply int string nat

record tracer_env =
  te_hex :: "nat \<Rightarrow> string"
  te_ms :: int
  te_epoch :: int
  te_t0 :: rat
  te_now :: rat
  te_post :: "nat \<Rightarrow> post_reply"
  te_gif :: gif_reply
  te_decision :: "string + int \<times> string"
  te_brokers :: brokers
  te_assign :: bool
  te_scan :: rat
  te_turns :: "turn stream"
  te_redis :: "string \<Rightarrow> (string \<times> string) list option"
  te_bucket :: string
  te_parquet :: "string \<Rightarrow> string \<Rightarrow> string list \<Rightarrow> string + nat"
  te_pg :: "string \<Rightarrow> string \<Rightarrow> (int \<times> int \<times> int \<times> rat option) option option"
  \<comment> \<open>\<open>te_decision\<close>: the error's text, or the status and the dumped JSON body; \<open>te_pg\<close>: \<open>None\<close> when the
     query raises, \<open>Some None\<close> when there is no row\<close>

section \<open>Events\<close>

definition KINDS :: "string list" where
  "KINDS = [''normal'', ''duplicate'', ''ssai'', ''late'', ''bad_schema'', ''forged'', ''ad_request'']"

definition TRACE_TOPICS :: "string list" where
  \<comment> \<open>\<open>WATCH_TOPICS\<close>\<close>
  "TRACE_TOPICS = [''ad.impression'', ''ad.quartile'', ''ad.click'', ''ad.request'',
     ''user.behavior'', ''dlq.invalid'', ''late.events'']"

definition base_event :: "string \<Rightarrow> string \<Rightarrow> int \<Rightarrow> string \<Rightarrow> string \<Rightarrow> string \<Rightarrow> dict" where
  "base_event campaign event_id ts arid source event_type =
     [(''event_id'', PStr event_id), (''event_type'', PStr event_type),
      (''campaign_id'', PStr campaign), (''event_time'', PInt ts),
      (''ad_request_id'', PStr arid), (''creative_id'', PStr ''crt-trace-a''),
      (''session_id'', PStr ''sess-trace''), (''user_id'', PStr ''user-trace''),
      (''device'', PStr ''smart_tv''), (''content_id'', PStr ''ct-trace''), (''source'', PStr source)]"

datatype tcall = TCampaign string | TPost "dict list" | TPixel "(string \<times> string) list" | TDecision dict
  \<comment> \<open>\<open>TCampaign\<close>: \<open>ensure_campaign\<close> inserts the campaign and its rate; a failure is printed and has no other effect\<close>

fun body_full :: "post_reply \<Rightarrow> dict" where
  \<comment> \<open>the tracer's \<open>post_events\<close>\<close>
  "body_full (HttpReply status body) = [(''status'', PInt status), (''body'', PStr body)]"
| "body_full (HttpRaised e) = [(''status'', PInt 0), (''body'', PStr e)]"

text \<open>The result of \<open>send\<close>: the tracked ids, the HTTP results and the calls made.\<close>

record sending =
  sg_ids :: "target list"
  sg_http :: "dict list"
  sg_calls :: "tcall list"

definition plain :: "string \<Rightarrow> target" where
  "plain eid = \<lparr>tg_event_id = eid, tg_match = None\<rparr>"

definition trace_evt :: "tracer_env \<Rightarrow> nat \<Rightarrow> string" where
  "trace_evt env n = ''evt-trace-'' @ take 12 (te_hex env n)"

definition posted :: "tracer_env \<Rightarrow> target list \<Rightarrow> dict list list \<Rightarrow> sending" where
  \<comment> \<open>the ids and the posts of a kind that only posts\<close>
  "posted env ids posts = \<lparr>sg_ids = ids, sg_http = map (\<lambda>i. body_full (te_post env i)) [0..<length posts],
     sg_calls = map TPost posts\<rparr>"

definition send_normal :: "tracer_env \<Rightarrow> string \<Rightarrow> int \<Rightarrow> string \<Rightarrow> nat \<Rightarrow> sending" where
  "send_normal env campaign ts arid n =
     (let eid = trace_evt env n
      in posted env [plain eid] [[base_event campaign eid ts arid ''client'' ''impression'']])"

definition send_duplicate :: "tracer_env \<Rightarrow> string \<Rightarrow> int \<Rightarrow> string \<Rightarrow> nat \<Rightarrow> sending" where
  "send_duplicate env campaign ts arid n =
     (let eid = trace_evt env n; e = base_event campaign eid ts arid ''client'' ''impression''
      in posted env [plain eid] [[e], [e]])"

definition send_ssai :: "tracer_env \<Rightarrow> string \<Rightarrow> int \<Rightarrow> string \<Rightarrow> nat \<Rightarrow> sending" where
  "send_ssai env campaign ts arid n =
     (let a = trace_evt env n; b = trace_evt env (Suc n);
          ev_a = base_event campaign a ts arid ''client'' ''impression'';
          ev_b = dset (base_event campaign b ts arid ''server'' ''impression'') ''ssai_twin_of'' (PStr a)
      in posted env [plain a, plain b] [[ev_a, ev_b]])"

definition send_late :: "tracer_env \<Rightarrow> string \<Rightarrow> int \<Rightarrow> string \<Rightarrow> nat \<Rightarrow> sending" where
  "send_late env campaign ts arid n =
     (let eid = trace_evt env n;
          e = dset (base_event campaign eid (ts - 90000) arid ''client'' ''impression'') ''_late'' (PBool True)
      in posted env [plain eid] [[e]])"

definition send_bad_schema :: "tracer_env \<Rightarrow> string \<Rightarrow> int \<Rightarrow> string \<Rightarrow> nat \<Rightarrow> sending" where
  "send_bad_schema env campaign ts arid n =
     (let eid = trace_evt env n; e = dpop (base_event campaign eid ts arid ''client'' ''impression'') ''campaign_id''
      in posted env [plain eid] [[e]])"

fun gif_body :: "gif_reply \<Rightarrow> (string \<Rightarrow> nat \<Rightarrow> string) \<Rightarrow> dict" where
  "gif_body (GifReply status ctype n) render = [(''status'', PInt status), (''body'', PStr (render ctype n))]"
| "gif_body (GifRaised e) render = [(''status'', PInt 0), (''body'', PStr e)]"

definition gif_text :: "string \<Rightarrow> nat \<Rightarrow> string" where
  \<comment> \<open>the unit is a Korean word, written in Latin letters here\<close>
  "gif_text ctype n = ctype @ '' '' @ dec_nat n @ ''bytes (1x1 GIF)''"

definition send_forged :: "tracer_env \<Rightarrow> string \<Rightarrow> int \<Rightarrow> string \<Rightarrow> nat \<Rightarrow> sending" where
  "send_forged env campaign ts arid n =
     (let eid = trace_evt env n;
          params = [(''eid'', eid), (''et'', ''impression''), (''cid'', campaign), (''ts'', dec_int ts),
            (''arid'', arid), (''sid'', ''sess-trace''), (''src'', ''client''), (''exp'', dec_int (te_epoch env + 300))];
          params = params @ [(''sig'', ''deadbeef'' @ take 24 (te_hex env (Suc n)))]
      in \<lparr>sg_ids = [plain eid], sg_http = [gif_body (te_gif env) gif_text], sg_calls = [TPixel params]\<rparr>)"

definition send_ad_request :: "tracer_env \<Rightarrow> string \<Rightarrow> sending" where
  "send_ad_request env arid =
     (let payload = [(''ad_request_id'', PStr arid), (''session_id'', PStr ''sess-trace''), (''user_id'', PStr ''user-trace''),
            (''content_id'', PStr ''ct-trace''), (''device'', PStr ''smart_tv''), (''ad_pod_id'', PStr ''pod-trace''),
            (''ad_slot'', PInt 0), (''playhead_s'', PInt 0), (''max_duration_s'', PInt 30)]
      in case te_decision env of
           Inr (status, body) \<Rightarrow> \<lparr>sg_ids = [\<lparr>tg_event_id = arid, tg_match = Some ''ad_request_id''\<rparr>],
             sg_http = [[(''status'', PInt status), (''body'', PStr body)]], sg_calls = [TDecision payload]\<rparr>
         | Inl e \<Rightarrow> \<lparr>sg_ids = [], sg_http = [[(''status'', PInt 0), (''body'', PStr e)]], sg_calls = [TDecision payload]\<rparr>)"

definition send :: "tracer_env \<Rightarrow> string \<Rightarrow> string \<Rightarrow> nat \<Rightarrow> int \<times> string \<times> sending" where
  \<comment> \<open>draws of random texts start at \<open>n\<close>\<close>
  "send env kind campaign n =
     (let ts = te_ms env; arid = ''req-trace-'' @ take 10 (te_hex env n); m = Suc n
      in (ts, arid,
          if kind = ''normal'' then send_normal env campaign ts arid m
          else if kind = ''duplicate'' then send_duplicate env campaign ts arid m
          else if kind = ''ssai'' then send_ssai env campaign ts arid m
          else if kind = ''late'' then send_late env campaign ts arid m
          else if kind = ''bad_schema'' then send_bad_schema env campaign ts arid m
          else if kind = ''forged'' then send_forged env campaign ts arid m
          else if kind = ''ad_request'' then send_ad_request env arid
          else \<lparr>sg_ids = [], sg_http = [], sg_calls = []\<rparr>))"

section \<open>Stages\<close>

definition end_offsets :: "tracer_env \<Rightarrow> (string \<times> int) list" where
  "end_offsets env = (case bk_topics (te_brokers env) of
     None \<Rightarrow> [] | Some topics \<Rightarrow> watermarks TRACE_TOPICS (te_brokers env) topics)"

definition match_field :: "trace \<Rightarrow> string" where
  "match_field tr = (case tr_ids tr of [] \<Rightarrow> ''event_id'' | i # _ \<Rightarrow> (case tg_match i of None \<Rightarrow> ''event_id'' | Some f \<Rightarrow> f))"

definition candidates :: "string \<Rightarrow> dict \<Rightarrow> pyval list" where
  "candidates field d =
     [dget d field, dget d ''event_id'', dget d ''ad_request_id''] @
     (case py_or (dget d ''raw'') (PDict []) of
        PDict raw \<Rightarrow> [dget raw ''event_id'', dget raw ''eid'', dget raw ''ad_request_id''] | _ \<Rightarrow> [])"

definition trace_turn :: "string list \<Rightarrow> string \<Rightarrow> turn \<Rightarrow> trace \<Rightarrow> exn option \<times> trace" where
  "trace_turn targets field r tr =
     (case tn_poll r of
        KMsg t q off value \<Rightarrow>
          (let tr = tr\<lparr>tr_offsets := AList.update (off_key t q) (off + 1) (tr_offsets tr)\<rparr> in
           case value of
             None \<Rightarrow> (None, tr)
           | Some v \<Rightarrow>
               (case rbind (as_dict v) (\<lambda>d. rbind (make_set (candidates field d)) (\<lambda>c. Inr (d, c))) of
                  Inl x \<Rightarrow> (Some x, tr)
                | Inr (d, cand) \<Rightarrow>
                    if sets_meet cand (map PStr targets)
                    then (None, tr\<lparr>tr_kafka := tr_kafka tr @ [\<lparr>tm_topic = t, tm_partition = q, tm_offset = off,
                      tm_at = py_round 2 (tn_at r - tr_t0 tr), tm_reason = dget d ''reason'',
                      tm_lateness = dget d ''lateness_ms'', tm_source = dget d ''source''\<rparr>]\<rparr>)
                    else (None, tr)))
      | _ \<Rightarrow> (None, tr))"

definition trace_scan :: "tracer_env \<Rightarrow> trace \<Rightarrow> (exn option \<times> trace) option" where
  \<comment> \<open>\<open>scan_kafka\<close>\<close>
  "trace_scan env tr =
     (case bk_topics (te_brokers env) of
        None \<Rightarrow> Some (None, tr)
      | Some topics \<Rightarrow>
          (case resume_from topics (tr_offsets tr) of
             Inl x \<Rightarrow> Some (Some x, tr)
           | Inr tps \<Rightarrow>
               if tps = [] \<or> \<not> te_assign env then Some (None, tr)
               else poll_loop (trace_turn (map tg_event_id (tr_ids tr)) (match_field tr)) (te_scan env + 2) (te_turns env) tr))"

definition check_redis :: "tracer_env \<Rightarrow> trace \<Rightarrow> tagg option result" where
  "check_redis env tr =
     (let key = ''agg:1m:'' @ tr_campaign tr @ '':'' @ tr_minute tr in
      case te_redis env key of
        None \<Rightarrow> Inr None
      | Some h \<Rightarrow>
          if h = [] then Inr None
          else rbind (num_field h ''impressions'') (\<lambda>a. rbind (num_field h ''requests'') (\<lambda>b.
               rbind (num_field h ''ssai_dupes'') (\<lambda>c.
                 Inr (Some \<lparr>ta_key = key, ta_impressions = a, ta_requests = b, ta_ssai = c,
                   ta_at = py_round 1 (te_now env - tr_t0 tr)\<rparr>)))))"

definition trace_path :: "tracer_env \<Rightarrow> trace \<Rightarrow> string" where
  "trace_path env tr = te_bucket env @ ''/dt='' @ tr_dt tr @ ''/hour='' @ tr_hour tr"

definition trace_minio :: "tracer_env \<Rightarrow> trace \<Rightarrow> (string \<times> rat \<times> tminio option) list \<Rightarrow>
    tminio option \<times> trace \<times> (string \<times> rat \<times> tminio option) list" where
  \<comment> \<open>\<open>check_minio\<close>\<close>
  "trace_minio env tr cache =
     (let fresh = (let path = trace_path env tr in
            case te_parquet env path (match_field tr) (map tg_event_id (tr_ids tr)) of
              Inl e \<Rightarrow> (None, tr\<lparr>tr_minio_err := Some (take 160 e)\<rparr>)
            | Inr n \<Rightarrow> (if n = 0 then None
                else Some \<lparr>tn_rows = n, tn_path = ''s3a://'' @ path @ ''/'', tn_minio_at = py_round 1 (te_now env - tr_t0 tr)\<rparr>, tr));
          stored = (fst fresh, snd fresh, AList.update (tr_id tr) (te_now env, fst fresh) cache)
      in case map_of cache (tr_id tr) of
           None \<Rightarrow> stored
         | Some (tm, res) \<Rightarrow> if te_now env - tm < 5 then (res, tr, cache) else stored)"

definition trace_pg :: "tracer_env \<Rightarrow> trace \<Rightarrow> (int \<times> int \<times> int \<times> rat) option" where
  \<comment> \<open>\<open>check_pg\<close>: impressions, requests, raw_impressions, amount\<close>
  "trace_pg env tr = (case te_pg env (tr_campaign tr) (tr_dt tr) of
     Some (Some (a, b, c, x)) \<Rightarrow> Some (a, b, c, case x of None \<Rightarrow> 0 | Some y \<Rightarrow> y) | _ \<Rightarrow> None)"

section \<open>The service\<close>

definition new_trace :: "tracer_env \<Rightarrow> string \<Rightarrow> string \<Rightarrow> (string \<times> int) list \<Rightarrow> int \<times> string \<times> sending \<Rightarrow> trace result" where
  \<comment> \<open>the record of a trace, without its Redis base\<close>
  "new_trace env trace_id kind offs sent =
     (case sent of (ts, arid, sg) \<Rightarrow>
        rbind (fromtimestamp_ms ts) (\<lambda>now. rbind (tracer_minute_key ts) (\<lambda>mk.
          Inr \<lparr>tr_id = trace_id, tr_campaign = ''cmp-tr-'' @ trace_id, tr_kind = kind, tr_t0 = te_t0 env, tr_ts = ts,
               tr_arid = arid, tr_ids = sg_ids sg, tr_http = sg_http sg, tr_offsets = offs, tr_kafka = [],
               tr_minute = mk, tr_dt = strftime_date now, tr_hour = strftime_hour now, tr_base = None,
               tr_minio_err = None, tr_nudges = []\<rparr>)))"

datatype 'a reply = Reply 'a | Denied int

definition api_send :: "tracer_env \<Rightarrow> string \<Rightarrow> tracer \<Rightarrow> trace reply result \<times> tcall list \<times> tracer" where
  \<comment> \<open>the reply shows the trace just registered\<close>
  "api_send env kind s =
     (if kind \<notin> set KINDS then (Inr (Denied 400), [], s)
      else
        (let trace_id = take 10 (te_hex env 0); offs = end_offsets env;
             sent = send env kind (''cmp-tr-'' @ trace_id) 1; calls = TCampaign (''cmp-tr-'' @ trace_id) # sg_calls (snd (snd sent))
         in case rbind (new_trace env trace_id kind offs sent) (\<lambda>tr.
               rbind (check_redis env tr) (\<lambda>base. Inr (tr\<lparr>tr_base := base\<rparr>))) of
              Inl x \<Rightarrow> (Inl x, calls, s)
            | Inr tr \<Rightarrow> (Inr (Reply tr), calls, s\<lparr>ts_traces := registry_put 20 trace_id tr (ts_traces s)\<rparr>)))"

definition nudge_round :: "tracer_env \<Rightarrow> string \<Rightarrow> tracer \<Rightarrow> (tcall list \<times> tracer) option" where
  \<comment> \<open>one turn of \<open>nudge_watermark\<close> after its sleep: \<open>None\<close> when the trace is gone and the thread ends\<close>
  "nudge_round env trace_id s =
     (case map_of (ts_traces s) trace_id of
        None \<Rightarrow> None
      | Some tr \<Rightarrow>
          (let tag = take 8 (te_hex env 0)
           in Some ([TPost [[(''event_id'', PStr (''evt-nudge-'' @ tag)), (''event_type'', PStr ''impression''),
                (''campaign_id'', PStr ''cmp-9999''), (''event_time'', PInt (te_ms env)),
                (''ad_request_id'', PStr (''req-nudge-'' @ tag)), (''source'', PStr ''client'')]]],
              s\<lparr>ts_traces := AList.update trace_id
                (tr\<lparr>tr_nudges := tr_nudges tr @ [py_round 1 (te_now env - tr_t0 tr)]\<rparr>) (ts_traces s)\<rparr>)))"

record shown =
  sh_trace :: trace
  sh_elapsed :: rat
  sh_redis :: "(int \<times> int \<times> int \<times> rat \<times> string) option"
  sh_minio :: "tminio option"
  sh_pg :: "(int \<times> int \<times> int \<times> rat) option"

definition trace_delta :: "tagg option \<Rightarrow> tagg option \<Rightarrow> (int \<times> int \<times> int \<times> rat \<times> string) option" where
  \<comment> \<open>impressions and requests gained, SSAI duplicates, time and key\<close>
  "trace_delta now base = map_option (\<lambda>a.
     (ta_impressions a - (case base of None \<Rightarrow> 0 | Some b \<Rightarrow> ta_impressions b),
      ta_requests a - (case base of None \<Rightarrow> 0 | Some b \<Rightarrow> ta_requests b), ta_ssai a, ta_at a, ta_key a)) now"

definition api_trace :: "tracer_env \<Rightarrow> string \<Rightarrow> tracer \<Rightarrow> (shown reply result \<times> tracer) option" where
  "api_trace env trace_id s =
     (case map_of (ts_traces s) trace_id of
        None \<Rightarrow> Some (Inr (Denied 404), s)
      | Some tr \<Rightarrow>
          map_option (\<lambda>(raised, tr).
            let s = s\<lparr>ts_traces := AList.update trace_id tr (ts_traces s)\<rparr> in
            case raised of
              Some x \<Rightarrow> (Inl x, s)
            | None \<Rightarrow>
                (case check_redis env tr of
                   Inl x \<Rightarrow> (Inl x, s)
                 | Inr now \<Rightarrow>
                     (let (mn, tr, cache) = trace_minio env tr (ts_cache s)
                      in (Inr (Reply \<lparr>sh_trace = tr, sh_elapsed = py_round 1 (te_now env - tr_t0 tr),
                            sh_redis = trace_delta now (tr_base tr), sh_minio = mn, sh_pg = trace_pg env tr\<rparr>),
                          s\<lparr>ts_traces := AList.update trace_id tr (ts_traces s), ts_cache := cache\<rparr>))))
            (trace_scan env tr))"

inductive tracer_reach :: "tracer \<Rightarrow> bool" where
  start: "tracer_reach tracer_init"
| send: "tracer_reach s \<Longrightarrow> tracer_reach (snd (snd (api_send env kind s)))"
| nudge: "tracer_reach s \<Longrightarrow> nudge_round env k s = Some (calls, s') \<Longrightarrow> tracer_reach s'"
| look: "tracer_reach s \<Longrightarrow> api_trace env k s = Some (r, s') \<Longrightarrow> tracer_reach s'"

section \<open>Lemmas\<close>

interpretation traces: bounded_registry "registry_put 20" 20
  by unfold_locales (simp_all add: registry_put_drop)

subsection \<open>What the buttons send\<close>

fun call_ids :: "tcall \<Rightarrow> string list" where
  \<comment> \<open>the event ids a call carries, or the request id of a decision\<close>
  "call_ids (TCampaign c) = []"
| "call_ids (TPost evs) = concat (map (\<lambda>e. case dget e ''event_id'' of PStr s \<Rightarrow> [s] | _ \<Rightarrow> []) evs)"
| "call_ids (TPixel ps) = (case map_of ps ''eid'' of None \<Rightarrow> [] | Some s \<Rightarrow> [s])"
| "call_ids (TDecision d) = (case dget d ''ad_request_id'' of PStr s \<Rightarrow> [s] | _ \<Rightarrow> [])"

lemmas send_defs = send_normal_def send_duplicate_def send_ssai_def send_late_def send_bad_schema_def
  send_forged_def posted_def plain_def base_event_def

lemma send_kind:
  "snd (snd (send env ''normal'' c n)) = send_normal env c (te_ms env) (''req-trace-'' @ take 10 (te_hex env n)) (Suc n)"
  "snd (snd (send env ''duplicate'' c n)) = send_duplicate env c (te_ms env) (''req-trace-'' @ take 10 (te_hex env n)) (Suc n)"
  "snd (snd (send env ''ssai'' c n)) = send_ssai env c (te_ms env) (''req-trace-'' @ take 10 (te_hex env n)) (Suc n)"
  "snd (snd (send env ''late'' c n)) = send_late env c (te_ms env) (''req-trace-'' @ take 10 (te_hex env n)) (Suc n)"
  "snd (snd (send env ''bad_schema'' c n)) = send_bad_schema env c (te_ms env) (''req-trace-'' @ take 10 (te_hex env n)) (Suc n)"
  "snd (snd (send env ''forged'' c n)) = send_forged env c (te_ms env) (''req-trace-'' @ take 10 (te_hex env n)) (Suc n)"
  "snd (snd (send env ''ad_request'' c n)) = send_ad_request env (''req-trace-'' @ take 10 (te_hex env n))"
  by (simp_all add: send_def Let_def)

lemma base_event_id: "dget (base_event c eid ts arid src et) ''event_id'' = PStr eid"
  by (simp add: base_event_def dget_def)

text \<open>A trace looks for exactly the ids it sent.\<close>

lemma send_tracks_what_it_sends:
  assumes "kind \<in> set KINDS" "kind = ''ad_request'' \<longrightarrow> \<not> isl (te_decision env)"
  shows "set (map tg_event_id (sg_ids (snd (snd (send env kind campaign n))))) =
    set (concat (map call_ids (sg_calls (snd (snd (send env kind campaign n))))))"
proof -
  consider "kind = ''normal''" | "kind = ''duplicate''" | "kind = ''ssai''" | "kind = ''late''" | "kind = ''bad_schema''"
    | "kind = ''forged''" | "kind = ''ad_request''" using assms(1) unfolding KINDS_def list.set insert_iff empty_iff by (elim disjE FalseE) iprover+
  then show ?thesis
  proof cases
    case 1
    then show ?thesis by (simp add: send_kind send_normal_def posted_def plain_def base_event_id Let_def)
  next
    case 2
    then show ?thesis by (simp add: send_kind send_duplicate_def posted_def plain_def base_event_id Let_def)
  next
    case 3
    then show ?thesis by (simp add: send_kind send_ssai_def posted_def plain_def base_event_id Let_def)
  next
    case 4
    then show ?thesis by (simp add: send_kind send_late_def posted_def plain_def base_event_id Let_def)
  next
    case 5
    then show ?thesis by (simp add: send_kind send_bad_schema_def posted_def plain_def base_event_id Let_def)
  next
    case 6
    then show ?thesis by (simp add: send_kind send_forged_def plain_def Let_def)
  next
    case 7
    with assms(2) show ?thesis
      by (auto simp: send_kind send_ad_request_def Let_def dget_def split: sum.splits)
  qed
qed

subsection \<open>The minute and hour of a late event\<close>

lemma minus_90_div: "(u - 90) div 3600 = (if 90 \<le> u mod 3600 then u div 3600 else u div 3600 - 1)" for u :: int
proof -
  define q r where "q = u div 3600" and "r = u mod 3600"
  have u: "u = 3600 * q + r" "0 \<le> r" "r < 3600" by (simp_all add: q_def r_def)
  show ?thesis
  proof (cases "90 \<le> r")
    case True
    have "(u - 90) div 3600 = q" by (rule int_div_pos_eq [of _ _ _ "r - 90"]) (use u True in auto)
    with True show ?thesis by (simp add: q_def [symmetric] r_def [symmetric])
  next
    case False
    have "(u - 90) div 3600 = q - 1" by (rule int_div_pos_eq [of _ _ _ "r + 3510"]) (use u False in auto)
    with False show ?thesis by (simp add: q_def [symmetric] r_def [symmetric])
  qed
qed
lemma ms_div: "(m - 90000) div 1000 = m div 1000 - 90" for m :: int
  using div_mult_self1 [of 1000 m "- 90"] by simp
lemma ms_mod: "90000 \<le> m mod 3600000 \<longleftrightarrow> 90 \<le> m div 1000 mod 3600" for m :: int
proof -
  have "m mod 3600000 = 1000 * (m div 1000 mod 3600) + m mod 1000"
    using zmod_zmult2_eq [of 3600 m 1000] by simp
  moreover have "0 \<le> m mod 1000" "m mod 1000 < 1000" by simp_all
  ultimately show ?thesis by linarith
qed
lemma hour_of: "s mod 86400 div 3600 = s div 3600 mod 24" for s :: int
proof -
  have "s mod 86400 = 3600 * (s div 3600 mod 24) + s mod 3600"
    using zmod_zmult2_eq [of 24 s 3600] by simp
  moreover have "0 \<le> s mod 3600" "s mod 3600 < 3600" by simp_all
  ultimately show ?thesis by (intro int_div_pos_eq [of _ _ _ "s mod 3600"]) auto
qed

lemma hh_shift: "hh s = hh (s - 90) \<longleftrightarrow> 90 \<le> s mod 3600"
proof -
  have "s div 3600 mod 24 = (s div 3600 - 1) mod 24 \<longleftrightarrow> False"
    using mod_eq_dvd_iff [of "s div 3600" 24 "s div 3600 - 1"] by simp
  moreover have "0 \<le> s div 3600 mod 24" "0 \<le> (s - 90) div 3600 mod 24" by simp_all
  ultimately show ?thesis by (simp add: hh_def hour_of minus_90_div nat_eq_iff split: if_splits)
qed

lemma same_partition: "(strftime_date s, strftime_hour s) = (strftime_date (s - 90), strftime_hour (s - 90)) \<longleftrightarrow> 90 \<le> s mod 3600"
proof
  assume "(strftime_date s, strftime_hour s) = (strftime_date (s - 90), strftime_hour (s - 90))"
  then have "pad2 (hh s) = pad2 (hh (s - 90))" by (simp add: strftime_hour_def)
  moreover have "hh s < 100" "hh (s - 90) < 100" using time_fields_less(1) [of s] time_fields_less(1) [of "s - 90"] by simp_all
  ultimately show "90 \<le> s mod 3600" by (simp add: pad2_inj hh_shift)
next
  assume r: "90 \<le> s mod 3600"
  have day: "t div 86400 = t div 3600 div 24" for t :: int using zdiv_zmult2_eq [of 24 t 3600] by simp
  have "s div 86400 = (s - 90) div 86400" by (simp only: day minus_90_div r if_True)
  then show "(strftime_date s, strftime_hour s) = (strftime_date (s - 90), strftime_hour (s - 90))"
    using iffD2 [OF hh_shift r] by (simp add: strftime_date_def strftime_hour_def utc_date_def)
qed

lemma other_minute:
  assumes "1000 \<le> utc_year s" "utc_year s \<le> 9999" "1000 \<le> utc_year (s - 90)" "utc_year (s - 90) \<le> 9999"
  shows "strftime_minute s \<noteq> strftime_minute (s - 90)"
proof
  assume "strftime_minute s = strftime_minute (s - 90)"
  then have "s div 60 = (s - 90) div 60" by (rule strftime_minute_inj [OF assms])
  moreover have "(s - 90) div 60 \<le> (s - 60) div 60" by (rule zdiv_mono1) simp_all
  moreover have "(s - 60) div 60 = s div 60 - 1" using div_mult_self1 [of 60 s "- 1"] by simp
  ultimately show False by linarith
qed

subsection \<open>Repeated scans\<close>

definition tm_coords :: "tmsg \<Rightarrow> string \<times> int \<times> int" where
  "tm_coords m = (tm_topic m, tm_partition m, tm_offset m)"

fun in_order :: "(string \<times> int \<Rightarrow> int option) \<Rightarrow> turn list \<Rightarrow> bool" where
  \<comment> \<open>Kafka's promise: only assigned partitions are polled, each from its offset upwards\<close>
  "in_order offs [] = True"
| "in_order offs (r # rs) = (case tn_poll r of
     KMsg t q off v \<Rightarrow> (case offs (t, q) of None \<Rightarrow> False | Some n \<Rightarrow> n \<le> off \<and> in_order (offs((t, q) := Some (off + 1))) rs)
   | _ \<Rightarrow> in_order offs rs)"

definition resume_at :: "trace \<Rightarrow> string \<times> int \<Rightarrow> int option" where
  "resume_at tr = (\<lambda>(t, q). map_of (tr_offsets tr) (off_key t q))"

definition delivers_in_order :: "tracer_env \<Rightarrow> trace \<Rightarrow> bool" where
  "delivers_in_order env tr \<longleftrightarrow> (\<forall>k. in_order (resume_at tr) (stake k (te_turns env)))"

definition behind :: "trace \<Rightarrow> bool" where
  \<comment> \<open>every listed message lies before the offset its partition resumes from\<close>
  "behind tr \<longleftrightarrow> distinct (map tm_coords (tr_kafka tr)) \<and>
     (\<forall>m \<in> set (tr_kafka tr). \<exists>n. resume_at tr (tm_topic m, tm_partition m) = Some n \<and> tm_offset m < n)"

inductive rescanned :: "trace \<Rightarrow> bool" where
  fresh: "tr_kafka tr = [] \<Longrightarrow> rescanned tr"
| scan: "rescanned tr \<Longrightarrow> delivers_in_order env tr \<Longrightarrow> trace_scan env tr = Some (x, tr') \<Longrightarrow> rescanned tr'"

lemma resume_at_update:
  "resume_at (tr\<lparr>tr_offsets := AList.update (off_key t q) n (tr_offsets tr)\<rparr>) = (resume_at tr)((t, q) := Some n)"
  by (auto simp: resume_at_def fun_eq_iff update_conv' off_key_inj)

lemma resume_at_kafka [simp]: "resume_at (tr\<lparr>tr_kafka := ms\<rparr>) = resume_at tr"
  by (simp add: resume_at_def)

lemma trace_turn_msg:
  assumes "trace_turn targets field r tr = (x, tr')" "tn_poll r = KMsg t q off v"
  shows "resume_at tr' = (resume_at tr)((t, q) := Some (off + 1)) \<and>
    (\<exists>ms. tr_kafka tr' = tr_kafka tr @ ms \<and> map tm_coords ms \<in> {[], [(t, q, off)]})"
  using assms
  by (auto simp: trace_turn_def Let_def resume_at_update tm_coords_def split: option.splits sum.splits if_splits)

lemma trace_turn_other: "trace_turn targets field r tr = (x, tr') \<Longrightarrow> tn_poll r \<in> {KNone, KError} \<Longrightarrow> tr' = tr \<and> x = None"
  by (auto simp: trace_turn_def)

lemma behind_msg:
  assumes "behind tr" "resume_at tr (t, q) = Some n" "n \<le> off"
    and "resume_at tr' = (resume_at tr)((t, q) := Some (off + 1))"
    and "\<exists>ms. tr_kafka tr' = tr_kafka tr @ ms \<and> map tm_coords ms \<in> {[], [(t, q, off)]}"
  shows "behind tr'"
proof -
  have old: "(\<exists>n'. resume_at tr' (tm_topic m, tm_partition m) = Some n' \<and> tm_offset m < n') \<and> tm_coords m \<noteq> (t, q, off)"
    if m: "m \<in> set (tr_kafka tr)" for m
  proof -
    obtain n' where n': "resume_at tr (tm_topic m, tm_partition m) = Some n'" "tm_offset m < n'"
      using assms(1) m by (auto simp: behind_def)
    show ?thesis
    proof (cases "(tm_topic m, tm_partition m) = (t, q)")
      case True
      then have "n' = n" using n'(1) assms(2) by simp
      with True n'(2) assms(3) show ?thesis by (simp add: assms(4) tm_coords_def)
    next
      case False
      then have "resume_at tr' (tm_topic m, tm_partition m) = Some n'" "tm_coords m \<noteq> (t, q, off)"
        unfolding assms(4) tm_coords_def using False n'(1) by auto
      with n'(2) show ?thesis by blast
    qed
  qed
  have d: "distinct (map tm_coords (tr_kafka tr))" using assms(1) by (simp add: behind_def)
  obtain ms where ms: "tr_kafka tr' = tr_kafka tr @ ms" "map tm_coords ms \<in> {[], [(t, q, off)]}"
    using assms(5) by (elim exE conjE) (rule that)
  have at: "tm_topic m = t \<and> tm_partition m = q \<and> tm_offset m = off" if "m \<in> set ms" for m
  proof -
    have "tm_coords m \<in> set (map tm_coords ms)" using that by simp
    then have "tm_coords m = (t, q, off)" using ms(2) by (elim insertE emptyE) simp_all
    then show ?thesis by (simp add: tm_coords_def)
  qed
  then have "\<exists>n'. resume_at tr' (tm_topic m, tm_partition m) = Some n' \<and> tm_offset m < n'" if "m \<in> set ms" for m
    using that by (simp add: assms(4))
  moreover have "distinct (map tm_coords (tr_kafka tr @ ms))"
    using ms(2)
  proof (elim insertE emptyE)
    assume "map tm_coords ms = [(t, q, off)]"
    moreover have "(t, q, off) \<notin> set (map tm_coords (tr_kafka tr))" using old by (metis (no_types, lifting) imageE set_map)
    ultimately show ?thesis using d by simp
  qed (use d in simp)
  ultimately show ?thesis using old by (auto simp: behind_def ms(1))
qed

lemma trace_list_behind:
  "poll_list (trace_turn targets field) rs tr = (x, tr') \<Longrightarrow> in_order (resume_at tr) rs \<Longrightarrow> behind tr \<Longrightarrow> behind tr'"
proof (induction rs arbitrary: tr)
  case (Cons r rs)
  obtain y tr1 where step: "trace_turn targets field r tr = (y, tr1)" by (cases "trace_turn targets field r tr")
  have "behind tr1 \<and> in_order (resume_at tr1) rs"
  proof (cases "tn_poll r")
    case (KMsg t q off v)
    then obtain n where n: "resume_at tr (t, q) = Some n" "n \<le> off" "in_order ((resume_at tr)((t, q) := Some (off + 1))) rs"
      using Cons.prems(2) by (auto split: option.splits)
    from trace_turn_msg [OF step KMsg] n show ?thesis
      using behind_msg [OF Cons.prems(3) n(1, 2)] by metis
  qed (use trace_turn_other [OF step] Cons.prems in auto)
  with Cons step show ?case by (cases y) auto
qed simp

lemma rescanned_behind: "rescanned tr \<Longrightarrow> behind tr"
proof (induction rule: rescanned.induct)
  case (fresh tr)
  then show ?case by (simp add: behind_def)
next
  case (scan tr env x tr')
  consider "tr' = tr" | k where "poll_list (trace_turn (map tg_event_id (tr_ids tr)) (match_field tr)) (stake k (te_turns env)) tr = (x, tr')"
    using scan.hyps(3) poll_loop_some_prefix by (force simp: trace_scan_def split: option.splits sum.splits if_splits)
  then show ?case
  proof cases
    case (2 k)
    have "in_order (resume_at tr) (stake k (te_turns env))" using scan.hyps(2) by (simp add: delivers_in_order_def)
    from trace_list_behind [OF 2 this scan.IH] show ?thesis .
  qed (use scan.IH in simp)
qed

subsection \<open>The registry\<close>

definition traces_ok :: "tracer \<Rightarrow> bool" where
  "traces_ok s \<longleftrightarrow> length (ts_traces s) \<le> 20 \<and> distinct (map fst (ts_traces s))"

lemma traces_ok_update:
  "traces_ok s \<Longrightarrow> map_of (ts_traces s) k = Some tr \<Longrightarrow> length (AList.update k tr' (ts_traces s)) \<le> 20 \<and>
     distinct (map fst (AList.update k tr' (ts_traces s)))"
  by (auto simp: traces_ok_def length_update distinct_update dest: map_of_SomeD intro: rev_image_eqI)

lemma api_send_traces:
  assumes "traces_ok s"
  shows "traces_ok (snd (snd (api_send env kind s)))"
  using assms traces.put_bound [of "ts_traces s"] traces.put_distinct [of "ts_traces s"]
  by (simp add: api_send_def traces_ok_def Let_def split: sum.splits)

lemma api_trace_traces:
  assumes "traces_ok s" "api_trace env k s = Some (r, s')"
  shows "traces_ok s'"
proof (cases "map_of (ts_traces s) k")
  case None
  then show ?thesis using assms by (simp add: api_trace_def)
next
  case (Some tr)
  obtain x tr1 where scan: "trace_scan env tr = Some (x, tr1)" using assms(2) by (auto simp: api_trace_def Some)
  show ?thesis
    using assms(2) traces_ok_update [OF assms(1) Some]
    by (auto simp: api_trace_def Some scan Let_def traces_ok_def update_update_same
        split: option.splits sum.splits prod.splits)
qed

lemma tracer_reach_ok: "tracer_reach s \<Longrightarrow> traces_ok s"
proof (induction rule: tracer_reach.induct)
  case start
  then show ?case by (simp add: tracer_init_def traces_ok_def)
next
  case (send s env kind)
  show ?case by (rule api_send_traces [OF send.IH])
next
  case (nudge s env k calls s')
  then show ?case
    using traces_ok_update [OF nudge.IH] by (auto simp: nudge_round_def traces_ok_def Let_def split: option.splits)
next
  case (look s env k r s')
  show ?case by (rule api_trace_traces [OF look.IH look.hyps(2)])
qed

section \<open>Properties\<close>

definition demo_tracer_env :: tracer_env where
  "demo_tracer_env = \<lparr>te_hex = (\<lambda>n. replicate 28 CHR ''a'' @ pad4 n), te_ms = 1789948800000, te_epoch = 1789948800,
     te_t0 = 0, te_now = 1, te_post = (\<lambda>_. HttpReply 202 ''{}''), te_gif = GifReply 200 ''image/gif'' 43,
     te_decision = Inl ''down'', te_brokers = \<lparr>bk_topics = Some [(''ad.impression'', [0])], bk_high = (\<lambda>_ _. Some 7)\<rparr>,
     te_assign = True, te_scan = 0,
     te_turns = \<lparr>tn_now = 0, tn_poll = KMsg ''ad.impression'' 0 9 (Some (PDict [(''event_id'', PStr ''evt-1'')])), tn_at = 1\<rparr> ##
       sconst \<lparr>tn_now = 3, tn_poll = KNone, tn_at = 3\<rparr>,
     te_redis = (\<lambda>_. None), te_bucket = ''events'', te_parquet = (\<lambda>_ _ _. Inr 0), te_pg = (\<lambda>_ _. None)\<rparr>"

definition demo_trace :: trace where
  "demo_trace = \<lparr>tr_id = ''t1'', tr_campaign = ''cmp-tr-t1'', tr_kind = ''normal'', tr_t0 = 0, tr_ts = 1789948800000,
     tr_arid = ''req-1'', tr_ids = [plain ''evt-1''], tr_http = [], tr_offsets = [(off_key ''ad.impression'' 0, 7)],
     tr_kafka = [], tr_minute = ''202609210000'', tr_dt = ''2026-09-21'', tr_hour = ''00'', tr_base = None,
     tr_minio_err = None, tr_nudges = []\<rparr>"

lemma idle_in_order: "(\<And>n. tn_poll (rs !! n) = KNone) \<Longrightarrow> in_order f (stake k rs)"
proof (induction k arbitrary: rs)
  case (Suc k)
  from Suc.prems [of 0] Suc.prems [of "Suc _"] Suc.IH [of "stl rs"] show ?case by simp
qed simp

lemma demo_turns_in_order: "delivers_in_order demo_tracer_env demo_trace"
proof -
  let ?idle = "\<lparr>tn_now = 3, tn_poll = KNone, tn_at = 3\<rparr>"
  have idle: "in_order f (stake k (sconst ?idle))" for f k by (rule idle_in_order) simp
  have "in_order (resume_at demo_trace) (stake k (te_turns demo_tracer_env))" for k
    by (cases k) (simp_all add: demo_tracer_env_def demo_trace_def resume_at_def idle del: stake_siterate)
  then show ?thesis by (simp add: delivers_in_order_def)
qed

text \<open>However often a trace is looked at, no Kafka message is listed twice. The tracer keeps no record
  of the messages it has seen; it relies on the offsets alone, and this suffices when Kafka delivers
  each assigned partition upwards from its offset, also across scans that an odd message aborts.\<close>

theorem tracer_lists_nothing_twice:
  assumes "rescanned tr"
  shows "distinct (map tm_coords (tr_kafka tr))"
  using rescanned_behind [OF assms] by (simp add: behind_def)

theorem tracer_lists_nothing_twice_witness:
  "\<exists>tr'. trace_scan demo_tracer_env demo_trace = Some (None, tr') \<and> distinct (map tm_coords (tr_kafka tr')) \<and>
     map tm_coords (tr_kafka tr') = [(''ad.impression'', 0, 9)]"
proof -
  let ?env = demo_tracer_env
  have late: "\<exists>n. te_scan ?env + 2 \<le> tn_now (te_turns ?env !! n)" by (rule exI [of _ 1]) (simp add: demo_tracer_env_def)
  have "(LEAST n. te_scan ?env + 2 \<le> tn_now (te_turns ?env !! n)) = 1"
    by (rule Least_equality) (auto simp: demo_tracer_env_def not_less_eq_eq intro: ccontr split: nat.splits)
  then have turns: "turns_before (te_scan ?env + 2) (te_turns ?env) = [shd (te_turns ?env)]" by (simp add: turns_before_def)
  have parts: "bk_topics (te_brokers ?env) = Some [(''ad.impression'', [0])]" "te_assign ?env"
    "resume_from [(''ad.impression'', [0])] (tr_offsets demo_trace) = Inr [(''ad.impression'', 0, 7)]"
    by (simp_all add: demo_tracer_env_def demo_trace_def)
  have step: "fst (trace_turn [''evt-1''] ''event_id'' (shd (te_turns ?env)) demo_trace) = None"
    "map tm_coords (tr_kafka (snd (trace_turn [''evt-1''] ''event_id'' (shd (te_turns ?env)) demo_trace))) = [(''ad.impression'', 0, 9)]"
    by (simp_all add: demo_tracer_env_def demo_trace_def trace_turn_def as_dict_def make_set_def candidates_def py_or_def
        dget_def sets_meet_def py_mem_def tm_coords_def Let_def)
  have ids: "map tg_event_id (tr_ids demo_trace) = [''evt-1'']" "match_field demo_trace = ''event_id''"
    by (simp_all add: demo_trace_def plain_def match_field_def)
  obtain u where u: "trace_turn [''evt-1''] ''event_id'' (shd (te_turns ?env)) demo_trace = (None, u)"
    using step(1) by (metis prod.collapse)
  have run: "trace_scan ?env demo_trace = Some (None, u)"
    by (simp add: trace_scan_def parts poll_loop_returns [OF late] turns ids u)
  have "rescanned u" by (rule rescanned.scan [OF rescanned.fresh demo_turns_in_order run]) (simp add: demo_trace_def)
  from tracer_lists_nothing_twice [OF this] step(2) run show ?thesis by (simp add: u)
qed

text \<open>C38: a late trace is looked up in the wrong place. The event of the late button is dated 90 seconds
  before the send, but the trace keeps the minute, date and hour of the send: the Redis row shown is
  never the row of the event's minute, and the archive partition searched is the event's only when
  the send falls at least 90 seconds into its hour.\<close>

theorem late_trace_looked_up_at_send_time:
  assumes "api_send env ''late'' s = (Inr (Reply tr), calls, s')"
    and "\<forall>u \<in> {te_ms env div 1000, te_ms env div 1000 - 90}. 1000 \<le> utc_year u \<and> utc_year u \<le> 9999"
  shows "let t = (te_ms env - 90000) div 1000 in
    (\<exists>ev. calls = [TCampaign (tr_campaign tr), TPost [ev]] \<and> dget ev ''event_time'' = PInt (te_ms env - 90000)) \<and>
    tr_minute tr \<noteq> strftime_minute t \<and>
    ((tr_dt tr, tr_hour tr) = (strftime_date t, strftime_hour t) \<longleftrightarrow> 90000 \<le> te_ms env mod 3600000)"
proof -
  let ?u = "te_ms env div 1000"
  have kind: "''late'' \<in> set KINDS" by (simp add: KINDS_def)
  obtain base tr0 where new: "new_trace env (take 10 (te_hex env 0)) ''late'' (end_offsets env)
      (send env ''late'' (''cmp-tr-'' @ take 10 (te_hex env 0)) 1) = Inr tr0" and tr: "tr = tr0\<lparr>tr_base := base\<rparr>"
    and calls: "calls = TCampaign (''cmp-tr-'' @ take 10 (te_hex env 0)) # sg_calls (snd (snd (send env ''late'' (''cmp-tr-'' @ take 10 (te_hex env 0)) 1)))"
    using assms(1) kind by (auto simp: api_send_def Let_def rbind_eq_Inr_iff split: sum.splits)
  have "fst (send env ''late'' (''cmp-tr-'' @ take 10 (te_hex env 0)) 1) = te_ms env" by (simp add: send_def Let_def)
  then have fields: "tr_minute tr = strftime_minute ?u" "tr_dt tr = strftime_date ?u" "tr_hour tr = strftime_hour ?u"
    "tr_campaign tr = ''cmp-tr-'' @ take 10 (te_hex env 0)"
    using new by (auto simp: tr new_trace_def tracer_minute_key_def fromtimestamp_ms_def Let_def rbind_eq_Inr_iff
        split: prod.splits if_splits)
  have "calls = [TCampaign (tr_campaign tr), TPost [dset (base_event (''cmp-tr-'' @ take 10 (te_hex env 0)) (trace_evt env 2) (te_ms env - 90000)
      (''req-trace-'' @ take 10 (te_hex env 1)) ''client'' ''impression'') ''_late'' (PBool True)]]"
    unfolding calls send_kind fields(4) by (simp add: send_late_def posted_def Let_def numeral_2_eq_2)
  then have ev: "\<exists>ev. calls = [TCampaign (tr_campaign tr), TPost [ev]] \<and> dget ev ''event_time'' = PInt (te_ms env - 90000)"
    by (auto simp: base_event_def dget_def)
  show ?thesis
    using other_minute [of ?u] assms(2) ev same_partition [of ?u] by (simp add: Let_def ms_div ms_mod fields)
qed

theorem late_trace_looked_up_at_send_time_witness:
  "\<exists>tr calls s'. api_send demo_tracer_env ''late'' tracer_init = (Inr (Reply tr), calls, s') \<and>
     (tr_dt tr, tr_hour tr) \<noteq> (strftime_date 1789948710, strftime_hour 1789948710)"
proof -
  have ok: "datetime_ok 1789948800" "utc_year 1789948800 = 2026" "utc_year 1789948710 = 2026" by code_simp+
  have "\<exists>tr calls s'. api_send demo_tracer_env ''late'' tracer_init = (Inr (Reply tr), calls, s')"
    by (simp add: api_send_def KINDS_def new_trace_def send_def check_redis_def fromtimestamp_ms_def
        tracer_minute_key_def demo_tracer_env_def ok Let_def)
  then obtain tr calls s' where run: "api_send demo_tracer_env ''late'' tracer_init = (Inr (Reply tr), calls, s')" by blast
  have ms: "te_ms demo_tracer_env = 1789948800000" by (simp add: demo_tracer_env_def)
  from late_trace_looked_up_at_send_time [OF run] run show ?thesis by (simp add: ms ok Let_def)
qed

end
