(* ===== verification/Dashboard.thy ===== *)
theory Dashboard
  imports Py_Service
begin

text \<open>
  The dashboard's samplers (\<open>dashboard/api.py\<close>): rates over a sliding buffer, the Prometheus text
  reader and its sum over replicas, the ingest, outbox, Kafka, Flink and realtime samples, and the
  sampler's snapshot.

  The buffers of \<open>rate\<close> are an explicit dictionary that every sampler takes and returns.  Replies of
  the scraped services are inputs: texts for Prometheus, records for Kafka and Flink, the Redis view
  of the writer's model, the rows of each query for PostgreSQL.
\<close>

section \<open>Rates\<close>

type_synonym buffers = "(string \<times> (rat \<times> rat) list) list"

definition RATE_WINDOW :: rat where "RATE_WINDOW = 8"

definition RATE_WINDOW_FLINK :: rat where "RATE_WINDOW_FLINK = 24"

fun rate_trim :: "rat \<Rightarrow> rat \<Rightarrow> (rat \<times> rat) list \<Rightarrow> (rat \<times> rat) list" where
  \<comment> \<open>\<open>while len(buf) > 2 and now - buf[0][0] > w: buf.pop(0)\<close>\<close>
  "rate_trim now w (b0 # b1 # b2 # bs) =
     (if now - fst b0 > w then rate_trim now w (b1 # b2 # bs) else b0 # b1 # b2 # bs)"
| "rate_trim now w bs = bs"

definition rate_window :: "rat option \<Rightarrow> rat" where
  \<comment> \<open>\<open>window or RATE_WINDOW\<close>\<close>
  "rate_window window = (case window of None \<Rightarrow> RATE_WINDOW | Some x \<Rightarrow> if x = 0 then RATE_WINDOW else x)"

definition rate :: "string \<Rightarrow> rat option \<Rightarrow> rat \<Rightarrow> rat option \<Rightarrow> buffers \<Rightarrow> rat \<times> buffers" where
  "rate key v now window prev =
     (case v of
        None \<Rightarrow> (0, prev)
      | Some x \<Rightarrow>
          (let buf = (case map_of prev key of None \<Rightarrow> [] | Some b \<Rightarrow> b);
               buf = rate_trim now (rate_window window) (buf @ [(now, x)]);
               prev = AList.update key buf prev
           in if length buf < 2 then (0, prev)
              else (let dt = fst (last buf) - fst (hd buf)
                    in if dt < 1 then (0, prev) else (max ((snd (last buf) - snd (hd buf)) / dt) 0, prev))))"

section \<open>Prometheus texts\<close>

definition name_start :: "char \<Rightarrow> bool" where
  \<comment> \<open>\<open>[a-zA-Z_:]\<close>\<close>
  "name_start c \<longleftrightarrow> is_letter c \<or> c = CHR ''_'' \<or> c = CHR '':''"

definition name_char :: "char \<Rightarrow> bool" where
  \<comment> \<open>\<open>[\w:]\<close>, ASCII\<close>
  "name_char c \<longleftrightarrow> name_start c \<or> is_digit c"

definition value_char :: "char \<Rightarrow> bool" where
  \<comment> \<open>\<open>[-\d.eE+]\<close>\<close>
  "value_char c \<longleftrightarrow> is_digit c \<or> c \<in> set ''-.eE+''"

definition take_labels :: "string \<Rightarrow> string \<times> string" where
  \<comment> \<open>the optional \<open>{[^}]*}\<close> and the rest; an unclosed brace is not taken\<close>
  "take_labels s = (case s of
     [] \<Rightarrow> ([], [])
   | c # r \<Rightarrow>
       if c = CHR ''{'' \<and> CHR ''}'' \<in> set r
       then (c # takeWhile (\<lambda>x. x \<noteq> CHR ''}'') r @ [CHR ''}''], tl (dropWhile (\<lambda>x. x \<noteq> CHR ''}'') r))
       else ([], s))"

definition match_metric :: "string \<Rightarrow> (string \<times> string \<times> string) option" where
  \<comment> \<open>\<open>_METRIC.match\<close>: name, labels (empty when absent) and value text\<close>
  "match_metric s =
     (let name = takeWhile name_char s; (labels, rest) = take_labels (dropWhile name_char s);
          val = dropWhile is_space rest
      in if name \<noteq> [] \<and> name_start (hd name) \<and> rest \<noteq> [] \<and> is_space (hd rest) \<and> val \<noteq> [] \<and> list_all value_char val
         then Some (name, labels, val) else None)"

definition exp10 :: "int \<Rightarrow> rat" where
  "exp10 n = (if 0 \<le> n then 10 ^ nat n else 1 / 10 ^ nat (- n))"

definition parse_number :: "string \<Rightarrow> rat option" where
  \<comment> \<open>\<open>float(val)\<close> of a text of value characters\<close>
  "parse_number s =
     (let m = takeWhile (\<lambda>c. c \<notin> set ''eE'') s; r = dropWhile (\<lambda>c. c \<notin> set ''eE'') s
      in case r of
           [] \<Rightarrow> parse_float m
         | _ # e \<Rightarrow> (case (parse_float m, parse_int e) of (Some x, Some n) \<Rightarrow> Some (x * exp10 n) | _ \<Rightarrow> None))"

type_synonym metrics = "(string \<times> rat) list"

definition add_metric :: "string \<Rightarrow> rat \<Rightarrow> metrics \<Rightarrow> metrics" where
  \<comment> \<open>\<open>out[k] = out.get(k, 0.0) + v\<close>\<close>
  "add_metric k v out = AList.update k ((case map_of out k of None \<Rightarrow> 0 | Some x \<Rightarrow> x) + v) out"

definition prom_line :: "string \<Rightarrow> metrics \<Rightarrow> metrics" where
  "prom_line line out =
     (if line = [] \<or> hd line = CHR ''#'' then out
      else (case match_metric (strip_ws line) of
          None \<Rightarrow> out
        | Some (name, labels, val) \<Rightarrow>
            (case parse_number val of
               None \<Rightarrow> out
             | Some v \<Rightarrow>
                 (let out = add_metric name v out
                  in if labels \<noteq> [] then AList.update (name @ labels) v out else out))))"

definition prom :: "string list option \<Rightarrow> metrics" where
  \<comment> \<open>the lines of the reply, \<open>None\<close> when the request raises\<close>
  "prom reply = (case reply of None \<Rightarrow> [] | Some lines \<Rightarrow> fold prom_line lines [])"

definition merge_metrics :: "metrics \<Rightarrow> metrics \<Rightarrow> metrics" where
  "merge_metrics m merged = fold (\<lambda>(k, v). add_metric k v) m merged"

definition prom_all :: "string list option list \<Rightarrow> metrics \<times> nat \<times> nat" where
  \<comment> \<open>one reply for each address of the service: the merged metrics, the replicas up, and all\<close>
  "prom_all replies =
     (let ms = filter (\<lambda>m. m \<noteq> []) (map prom replies)
      in (fold merge_metrics ms [], length ms, length replies))"

definition metric :: "metrics \<Rightarrow> string \<Rightarrow> rat" where
  \<comment> \<open>\<open>m.get(k, 0.0)\<close>\<close>
  "metric m k = (case map_of m k of None \<Rightarrow> 0 | Some v \<Rightarrow> v)"

fun infix_of :: "string \<Rightarrow> string \<Rightarrow> bool" where
  \<comment> \<open>\<open>s in t\<close>\<close>
  "infix_of s [] = (s = [])"
| "infix_of s (c # t) = (take (length s) (c # t) = s \<or> infix_of s t)"

definition starts_with :: "string \<Rightarrow> string \<Rightarrow> bool" where
  "starts_with s t \<longleftrightarrow> take (length s) t = s"

definition quote :: string where "quote = [char_of (34 :: nat)]"

definition label_sum :: "metrics \<Rightarrow> string \<Rightarrow> string \<Rightarrow> string \<Rightarrow> rat" where
  "label_sum m name label v =
     (\<Sum>(k, x)\<leftarrow>filter (\<lambda>(k, x). starts_with (name @ ''{'') k \<and> infix_of (label @ ''='' @ quote @ v @ quote) k) m. x)"

section \<open>The collector and the outbox\<close>

fun after :: "string \<Rightarrow> string \<Rightarrow> string option" where
  \<comment> \<open>the text after the first occurrence of the first argument\<close>
  "after s [] = None"
| "after s (c # t) = (if take (length s) (c # t) = s then Some (drop (length s) (c # t)) else after s t)"

fun before :: "string \<Rightarrow> string \<Rightarrow> string" where
  \<comment> \<open>\<open>t.split(s)[0]\<close>\<close>
  "before s [] = []"
| "before s (c # t) = (if take (length s) (c # t) = s then [] else c # before s t)"

definition reason_of :: "string \<Rightarrow> string result" where
  \<comment> \<open>\<open>k.split('reason="')[1].split('"')[0]\<close>\<close>
  "reason_of k = (case after (''reason='' @ quote) k of
     None \<Rightarrow> Inl IndexError | Some r \<Rightarrow> Inr (before quote (before (''reason='' @ quote) r)))"

fun by_reason :: "metrics \<Rightarrow> (string \<times> int) list result" where
  "by_reason [] = Inr []"
| "by_reason ((k, v) # m) =
     (if starts_with ''collector_events_invalid_total{'' k
      then rbind (reason_of k) (\<lambda>r. rbind (by_reason m) (\<lambda>d. Inr ((r, py_int v) # d)))
      else by_reason m)"

definition dict_of :: "('k \<times> 'v) list \<Rightarrow> ('k \<times> 'v) list" where
  \<comment> \<open>a dictionary display: a later pair replaces the value of an earlier one\<close>
  "dict_of ps = fold (\<lambda>(k, v). AList.update k v) ps []"

record ingest =
  ig_up :: bool
  ig_replicas :: nat
  ig_replicas_up :: nat
  ig_received :: int
  ig_received_rate :: rat
  ig_invalid :: int
  ig_invalid_rate :: rat
  ig_dlq :: int
  ig_dlq_rate :: rat
  ig_fallback :: int
  ig_fallback_pending :: int
  ig_kafka_errors :: int
  ig_by_reason :: "(string \<times> int) list"

definition sample_ingest :: "string list option list \<Rightarrow> rat \<Rightarrow> buffers \<Rightarrow> ingest result \<times> buffers" where
  "sample_ingest replies now prev =
     (let (m, alive, total) = prom_all replies;
          recv = metric m ''collector_events_received_total''; inval = metric m ''collector_events_invalid_total'';
          dlq = metric m ''collector_dlq_total''; fb = metric m ''collector_events_fallback_total'';
          (r1, prev) = rate ''recv'' (Some recv) now None prev;
          (r2, prev) = rate ''inval'' (Some inval) now None prev;
          (r3, prev) = rate ''dlq'' (Some dlq) now None prev
      in (rbind (by_reason m) (\<lambda>rs. Inr
            \<lparr>ig_up = (m \<noteq> []), ig_replicas = total, ig_replicas_up = alive, ig_received = py_int recv,
             ig_received_rate = py_round 1 r1, ig_invalid = py_int inval, ig_invalid_rate = py_round 2 r2,
             ig_dlq = py_int dlq, ig_dlq_rate = py_round 2 r3, ig_fallback = py_int fb,
             ig_fallback_pending = py_int (metric m ''collector_fallback_pending''),
             ig_kafka_errors = py_int (metric m ''collector_kafka_publish_errors_total''),
             ig_by_reason = dict_of rs\<rparr>), prev))"

record outbox =
  ob_up :: bool
  ob_unpublished :: int
  ob_lag_seconds :: int
  ob_published :: int
  ob_published_rate :: rat
  ob_republished :: int
  ob_update_skipped :: int
  ob_fill :: int
  ob_nofill :: int

definition sample_outbox :: "string list option \<Rightarrow> rat \<Rightarrow> buffers \<Rightarrow> outbox \<times> buffers" where
  "sample_outbox reply now prev =
     (let m = prom reply; pub = metric m ''outbox_published_total'';
          (r, prev) = rate ''outbox_pub'' (Some pub) now None prev
      in (\<lparr>ob_up = (m \<noteq> []), ob_unpublished = py_int (metric m ''outbox_unpublished''),
           ob_lag_seconds = py_int (metric m ''outbox_lag_seconds''), ob_published = py_int pub,
           ob_published_rate = py_round 1 r, ob_republished = py_int (metric m ''outbox_republished_total''),
           ob_update_skipped = py_int (metric m ''outbox_update_skipped_total''),
           ob_fill = py_int (label_sum m ''addecision_requests_total'' ''fill'' ''true''),
           ob_nofill = py_int (label_sum m ''addecision_requests_total'' ''fill'' ''false'')\<rparr>, prev))"

section \<open>Kafka\<close>

record kafka_in =
  ki_topics :: "(string \<times> int list) list option"
  ki_high :: "string \<Rightarrow> int \<Rightarrow> int option"
  ki_over :: "string \<Rightarrow> int \<Rightarrow> bool"
  ki_groups :: "string list"
  ki_committed :: "string \<Rightarrow> (string \<times> int \<times> int option) list option"
  \<comment> \<open>the topics, \<open>None\<close> when the listing raises; an end offset; whether the time budget is spent before
     a partition is read; the groups that exist; a group's committed offsets, \<open>None\<close> when it raises\<close>

record topic_row =
  tp_topic :: string
  tp_produced :: int
  tp_rate :: rat

record kafka_snap =
  kf_topics :: "topic_row list"
  kf_groups :: "(string \<times> int option \<times> nat) list"

definition CONSUMER_GROUPS :: "string list" where
  "CONSUMER_GROUPS = [''flink-rt'', ''flink-archive'', ''redis-writer'']"

definition own_topics :: "(string \<times> int list) list \<Rightarrow> (string \<times> int list) list" where
  \<comment> \<open>not Kafka's internal ones\<close>
  "own_topics = filter (\<lambda>(t, ps). \<not> starts_with ''__'' t)"

fun topic_ends :: "kafka_in \<Rightarrow> string \<Rightarrow> int list \<Rightarrow> ((string \<times> int) \<times> int) list" where
  \<comment> \<open>the end offsets read of a topic's partitions\<close>
  "topic_ends ki t [] = []"
| "topic_ends ki t (p # ps) =
     (if ki_over ki t p then []
      else (case ki_high ki t p of None \<Rightarrow> topic_ends ki t ps | Some hi \<Rightarrow> ((t, p), hi) # topic_ends ki t ps))"

definition all_ends :: "kafka_in \<Rightarrow> (string \<times> int list) list \<Rightarrow> ((string \<times> int) \<times> int) list" where
  "all_ends ki topics = concat (map (\<lambda>(t, ps). topic_ends ki t ps) (own_topics topics))"

definition produced :: "kafka_in \<Rightarrow> (string \<times> int list) list \<Rightarrow> string \<Rightarrow> int" where
  \<comment> \<open>\<open>ends.get(t, 0)\<close>: the sum of a topic's end offsets\<close>
  "produced ki topics t = (case map_of (own_topics topics) t of None \<Rightarrow> 0 | Some ps \<Rightarrow> (\<Sum>e\<leftarrow>topic_ends ki t ps. snd e))"

fun topic_rows :: "(string \<Rightarrow> int) \<Rightarrow> rat \<Rightarrow> string list \<Rightarrow> buffers \<Rightarrow> topic_row list \<times> buffers" where
  "topic_rows f now [] prev = ([], prev)"
| "topic_rows f now (t # ts) prev =
     (let (r, prev) = rate (''topic:'' @ t) (Some (of_int (f t))) now None prev;
          (rows, prev) = topic_rows f now ts prev
      in (\<lparr>tp_topic = t, tp_produced = f t, tp_rate = py_round 1 r\<rparr> # rows, prev))"

definition group_lags :: "((string \<times> int) \<times> int) list \<Rightarrow> (string \<times> int \<times> int option) list \<Rightarrow> int list" where
  \<comment> \<open>the lag of each partition with a committed offset and a known end\<close>
  "group_lags ends tps = concat (map (\<lambda>(t, p, off). case off of
       None \<Rightarrow> []
     | Some n \<Rightarrow> if n < 0 then [] else (case map_of ends (t, p) of None \<Rightarrow> [] | Some hi \<Rightarrow> [max (hi - n) 0])) tps)"

definition group_row :: "kafka_in \<Rightarrow> ((string \<times> int) \<times> int) list \<Rightarrow> string \<Rightarrow> string \<times> int option \<times> nat" where
  "group_row ki ends g =
     (if g \<notin> set (ki_groups ki) then (g, None, 0)
      else (case ki_committed ki g of
          None \<Rightarrow> (g, None, 0)
        | Some tps \<Rightarrow> (let ls = group_lags ends tps in (g, Some (sum_list ls), length ls))))"

definition sample_kafka :: "kafka_in \<Rightarrow> rat \<Rightarrow> buffers \<Rightarrow> kafka_snap \<times> buffers" where
  "sample_kafka ki now prev =
     (case ki_topics ki of
        None \<Rightarrow> (\<lparr>kf_topics = [], kf_groups = []\<rparr>, prev)
      | Some topics \<Rightarrow>
          (let ends = all_ends ki topics;
               (rows, prev) = topic_rows (produced ki topics) now (sort (map fst (own_topics topics))) prev
           in (\<lparr>kf_topics = rows, kf_groups = map (group_row ki ends) CONSUMER_GROUPS\<rparr>, prev)))"

section \<open>Flink\<close>

record vertex =
  vx_name :: string
  vx_in :: int
  vx_out :: int

record job =
  jb_name :: string
  jb_state :: string
  jb_running :: "int option"
  jb_total :: "int option"
  jb_vertices :: "vertex list option"
  jb_checkpoints :: "(int option \<times> int option \<times> int \<times> int option) option"
  \<comment> \<open>the vertices with their records read and written, \<open>None\<close> when the call raises; checkpoints
     completed, failed, state size and duration, \<open>None\<close> when the call raises\<close>

record flink =
  fl_jobs :: "(string \<times> string \<times> int option \<times> int option) list"
  fl_input :: int
  fl_dedup_in :: int
  fl_dedup_out :: int
  fl_dedup_removed :: int
  fl_late_out :: int
  fl_agg_out :: int
  fl_checkpoints :: "(int option \<times> int option \<times> rat \<times> int option) option"
  fl_input_rate :: "rat option"
  fl_late_rate :: "rat option"

definition flink_init :: flink where
  "flink_init = \<lparr>fl_jobs = [], fl_input = 0, fl_dedup_in = 0, fl_dedup_out = 0, fl_dedup_removed = 0,
     fl_late_out = 0, fl_agg_out = 0, fl_checkpoints = None, fl_input_rate = None, fl_late_rate = None\<rparr>"

definition flink_vertex :: "string \<Rightarrow> vertex \<Rightarrow> flink \<Rightarrow> flink" where
  "flink_vertex job_name v out =
     (let name = vx_name v;
          out = (if starts_with ''Source:'' name \<and> job_name = ''ott-ads-realtime''
                 then out\<lparr>fl_input := fl_input out + vx_out v\<rparr> else out);
          out = (if starts_with ''Deduplicate'' name
                 then out\<lparr>fl_dedup_in := fl_dedup_in out + vx_in v, fl_dedup_out := fl_dedup_out out + vx_out v\<rparr> else out);
          out = (if starts_with ''late_events_sink'' name \<and> infix_of ''Writer'' name
                 then out\<lparr>fl_late_out := fl_late_out out + vx_in v\<rparr> else out)
      in if starts_with ''agg_minute_sink'' name \<and> infix_of ''Writer'' name
         then out\<lparr>fl_agg_out := fl_agg_out out + vx_in v\<rparr> else out)"

definition flink_job :: "job \<Rightarrow> flink \<Rightarrow> flink" where
  "flink_job j out =
     (let out = out\<lparr>fl_jobs := fl_jobs out @ [(jb_name j, jb_state j, jb_running j, jb_total j)]\<rparr> in
      if jb_state j \<noteq> ''RUNNING'' then out
      else (case jb_vertices j of
          None \<Rightarrow> out
        | Some vs \<Rightarrow>
            (let out = fold (flink_vertex (jb_name j)) vs out in
             if jb_name j = ''ott-ads-realtime'' then
               (case jb_checkpoints j of
                  None \<Rightarrow> out
                | Some (a, b, sz, d) \<Rightarrow> out\<lparr>fl_checkpoints := Some (a, b, py_round 1 (of_int sz / 1024), d)\<rparr>)
             else out)))"

definition sample_flink :: "job list option \<Rightarrow> rat \<Rightarrow> buffers \<Rightarrow> flink \<times> buffers" where
  "sample_flink overview now prev =
     (case overview of
        None \<Rightarrow> (flink_init, prev)
      | Some jobs \<Rightarrow>
          (let out = fold flink_job jobs flink_init;
               out = out\<lparr>fl_dedup_removed := max (fl_dedup_in out - fl_dedup_out out) 0\<rparr>;
               (r1, prev) = rate ''flink_in'' (Some (of_int (fl_input out))) now (Some RATE_WINDOW_FLINK) prev;
               (r2, prev) = rate ''flink_late'' (Some (of_int (fl_late_out out))) now (Some RATE_WINDOW_FLINK) prev
           in (out\<lparr>fl_input_rate := Some (py_round 1 r1), fl_late_rate := Some (py_round 2 r2)\<rparr>, prev)))"

section \<open>Realtime\<close>

record rt_total =
  rt_counts :: "string \<Rightarrow> int"
  rt_name :: string

record realtime =
  rl_series :: "(string \<times> (int \<times> int) list) list"
  rl_totals :: "(string \<times> rt_total) list"
  rl_alerts :: "pyval list"
  rl_late_total :: int
  rl_alerts_total :: int

fun total_fields :: "string list \<Rightarrow> (string \<times> string) list \<Rightarrow> (string \<Rightarrow> int) \<Rightarrow> (string \<Rightarrow> int) result" where
  "total_fields [] h c = Inr c"
| "total_fields (f # fs) h c = rbind (num_field h f) (\<lambda>n. total_fields fs h (c(f := c f + n)))"

definition rt_row :: "int \<Rightarrow> (string \<times> string) list \<Rightarrow> (string \<times> (int \<times> int) list) list \<times> (string \<times> rt_total) list \<Rightarrow>
    ((string \<times> (int \<times> int) list) list \<times> (string \<times> rt_total) list) result" where
  \<comment> \<open>one hash with its score\<close>
  "rt_row score h st =
     (case hash_cid h of
        None \<Rightarrow> Inr st
      | Some cid \<Rightarrow>
          rbind (num_field h ''impressions'') (\<lambda>n.
            (let series = AList.update cid (AList.update score n (case map_of (fst st) cid of None \<Rightarrow> [] | Some m \<Rightarrow> m)) (fst st);
                 t = (case map_of (snd st) cid of
                        Some t \<Rightarrow> t
                      | None \<Rightarrow> \<lparr>rt_counts = (\<lambda>_. 0),
                          rt_name = (case map_of h ''campaign_name'' of None \<Rightarrow> cid | Some x \<Rightarrow> if x = [] then cid else x)\<rparr>)
             in rbind (total_fields SUM_FIELDS h (rt_counts t)) (\<lambda>c.
                  Inr (series, AList.update cid (t\<lparr>rt_counts := c\<rparr>) (snd st))))))"

fun rt_rows :: "(int \<times> (string \<times> string) list) list \<Rightarrow> (string \<times> (int \<times> int) list) list \<times> (string \<times> rt_total) list \<Rightarrow>
    ((string \<times> (int \<times> int) list) list \<times> (string \<times> rt_total) list) result" where
  "rt_rows [] st = Inr st"
| "rt_rows ((score, h) # rows) st = rbind (rt_row score h st) (rt_rows rows)"

fun load_all :: "(string \<Rightarrow> pyval option) \<Rightarrow> string list \<Rightarrow> pyval list result" where
  "load_all loads [] = Inr []"
| "load_all loads (x # xs) = (case loads x of None \<Rightarrow> Inl ValueError
     | Some v \<Rightarrow> rbind (load_all loads xs) (\<lambda>vs. Inr (v # vs)))"

definition minute_floor :: "rat \<Rightarrow> int" where
  \<comment> \<open>\<open>int(time.time() // 60 * 60)\<close>\<close>
  "minute_floor now = \<lfloor>now / 60\<rfloor> * 60"

definition sample_realtime :: "rview \<Rightarrow> (string \<Rightarrow> pyval option) \<Rightarrow> int \<Rightarrow> rat \<Rightarrow> realtime result" where
  \<comment> \<open>an exception gives the empty sample with the error's text\<close>
  "sample_realtime v loads chart now =
     (let now_m = minute_floor now; start = now_m - chart * 60;
          keys = zrangebyscore (rv_zset v ''agg:index'') start (now_m + 60)
      in rbind (rt_rows (map (\<lambda>(k, score). (score, rv_hash v k)) keys) ([], [])) (\<lambda>(series, totals).
         rbind (load_all loads (list_range 0 9 (rv_list v ''alerts:recent''))) (\<lambda>alerts.
           Inr \<lparr>rl_series = series, rl_totals = totals, rl_alerts = alerts,
                rl_late_total = num_or_0 (rv_num v ''late:total''), rl_alerts_total = num_or_0 (rv_num v ''alerts:total'')\<rparr>)))"

section \<open>PostgreSQL\<close>

record daily_row =
  dr_dt :: string
  dr_cid :: string
  dr_counts :: "int list"
  dr_amount :: "rat option"

record recon_out =
  ro_cid :: string
  ro_realtime :: int
  ro_batch :: int
  ro_diff :: int
  ro_rate :: "rat option"
  ro_cause :: string
  ro_run_at :: "string option"
  ro_scope :: "string option"

text \<open>Each query returns its rows or raises with a text; the connection may fail.\<close>

record pg_in =
  gi_connect :: "string option"
  gi_minute :: "(string \<times> int \<times> int) list option"
  gi_daily :: "string + daily_row list"
  gi_recon :: "string + recon_out list"
  gi_outbox :: "string + int \<times> int"

record pg_snap =
  gs_minute :: "(string \<times> (int \<times> int) list) list"
  gs_daily :: "daily_row list"
  gs_recon :: "recon_out list"
  gs_outbox :: "(int \<times> int) option"
  gs_error :: "string option"

definition pg_empty :: pg_snap where
  "pg_empty = \<lparr>gs_minute = [], gs_daily = [], gs_recon = [], gs_outbox = None, gs_error = None\<rparr>"

definition minute_points :: "(string \<times> int \<times> int) list \<Rightarrow> (string \<times> (int \<times> int) list) list" where
  \<comment> \<open>\<open>out["minute"].setdefault(cid, {})[ts] = imp\<close>\<close>
  "minute_points rows = fold (\<lambda>(cid, ts, imp) m.
     AList.update cid (AList.update ts imp (case map_of m cid of None \<Rightarrow> [] | Some d \<Rightarrow> d)) m) rows []"

definition zero_amount :: "rat option \<Rightarrow> rat option" where
  \<comment> \<open>\<open>float(x or 0)\<close>\<close>
  "zero_amount x = Some (case x of None \<Rightarrow> 0 | Some y \<Rightarrow> y)"

definition sample_postgres :: "pg_in \<Rightarrow> pg_snap" where
  \<comment> \<open>a failed minute query is rolled back and skipped; a later failure ends the sample with its text\<close>
  "sample_postgres g =
     (case gi_connect g of
        Some e \<Rightarrow> pg_empty\<lparr>gs_error := Some e\<rparr>
      | None \<Rightarrow>
          (let out = (case gi_minute g of None \<Rightarrow> pg_empty | Some rows \<Rightarrow> pg_empty\<lparr>gs_minute := minute_points rows\<rparr>) in
           case gi_daily g of
             Inl e \<Rightarrow> out\<lparr>gs_error := Some e\<rparr>
           | Inr daily \<Rightarrow>
               (let out = out\<lparr>gs_daily := map (\<lambda>r. r\<lparr>dr_amount := zero_amount (dr_amount r)\<rparr>) daily\<rparr> in
                case gi_recon g of
                  Inl e \<Rightarrow> out\<lparr>gs_error := Some e\<rparr>
                | Inr recon \<Rightarrow>
                    (let out = out\<lparr>gs_recon := map (\<lambda>r. r\<lparr>ro_rate := zero_amount (ro_rate r)\<rparr>) recon\<rparr> in
                     case gi_outbox g of
                       Inl e \<Rightarrow> out\<lparr>gs_error := Some e\<rparr>
                     | Inr c \<Rightarrow> out\<lparr>gs_outbox := Some c\<rparr>))))"

section \<open>The sampler\<close>

record dash_in =
  di_now :: rat
  di_collector :: "string list option list"
  di_addecision :: "string list option"
  di_flink :: "job list option"
  di_view :: rview
  di_loads :: "string \<Rightarrow> pyval option"
  di_clock :: rat
  di_pg :: pg_in
  di_kafka :: kafka_in

record snapped =
  sp_ts :: rat
  sp_ingest :: ingest
  sp_outbox :: outbox
  sp_flink :: flink
  sp_kafka :: kafka_snap
  sp_realtime :: "realtime result"
  sp_batch :: pg_snap
  sp_chart :: int

record dash =
  da_prev :: buffers
  da_tick :: nat
  da_kafka :: kafka_snap
  da_snap :: "snapped option"
  da_error :: bool
  \<comment> \<open>\<open>None\<close>: not ready; whether \<open>SNAP\<close> holds an error text\<close>

definition dash_init :: dash where
  "dash_init = \<lparr>da_prev = [], da_tick = 0, da_kafka = \<lparr>kf_topics = [], kf_groups = []\<rparr>, da_snap = None, da_error = False\<rparr>"

definition sampler_tick :: "int \<Rightarrow> dash_in \<Rightarrow> dash \<Rightarrow> dash" where
  \<comment> \<open>one turn of \<open>sampler\<close>; a failed ingest sample leaves the snapshot and notes the error\<close>
  "sampler_tick chart i d =
     (let now = di_now i; (ig, prev) = sample_ingest (di_collector i) now (da_prev d) in
      case ig of
        Inl x \<Rightarrow> d\<lparr>da_prev := prev, da_tick := Suc (da_tick d), da_error := True\<rparr>
      | Inr ingest \<Rightarrow>
          (let (outbox, prev) = sample_outbox (di_addecision i) now prev;
               (flink, prev) = sample_flink (di_flink i) now prev;
               rt = sample_realtime (di_view i) (di_loads i) chart (di_clock i);
               pg = sample_postgres (di_pg i);
               (kafka, prev) = (if da_tick d mod 3 = 0 then sample_kafka (di_kafka i) now prev else (da_kafka d, prev))
           in \<lparr>da_prev = prev, da_tick = Suc (da_tick d), da_kafka = kafka,
                da_snap = Some \<lparr>sp_ts = now, sp_ingest = ingest, sp_outbox = outbox, sp_flink = flink, sp_kafka = kafka,
                  sp_realtime = rt, sp_batch = pg, sp_chart = chart\<rparr>, da_error = False\<rparr>))"

definition dash_ready :: "dash \<Rightarrow> bool" where
  "dash_ready d \<longleftrightarrow> da_snap d \<noteq> None"

section \<open>Lemmas\<close>

subsection \<open>Rates\<close>

lemma rate_trim_suffix: "\<exists>n. rate_trim now w bs = drop n bs"
proof (induction now w bs rule: rate_trim.induct)
  case (1 now w b0 b1 b2 bs)
  show ?case
  proof (cases "now - fst b0 > w")
    case True
    then obtain n where "rate_trim now w (b0 # b1 # b2 # bs) = drop n (b1 # b2 # bs)" using 1 by auto
    then have "rate_trim now w (b0 # b1 # b2 # bs) = drop (Suc n) (b0 # b1 # b2 # bs)" by simp
    then show ?thesis by blast
  next
    case False
    then have "rate_trim now w (b0 # b1 # b2 # bs) = drop 0 (b0 # b1 # b2 # bs)" by simp
    then show ?thesis by blast
  qed
qed (rule exI [of _ 0], simp)+

lemma rate_trim_keeps: "2 \<le> length bs \<Longrightarrow> 2 \<le> length (rate_trim now w bs) \<and> last (rate_trim now w bs) = last bs"
  by (induction now w bs rule: rate_trim.induct) auto

text \<open>What the loop leaves: two samples, or an oldest one inside the window.\<close>

lemma rate_trim_window: "2 < length (rate_trim now w bs) \<Longrightarrow> now - fst (hd (rate_trim now w bs)) \<le> w"
  by (induction now w bs rule: rate_trim.induct) auto

lemma rate_nonneg: "0 \<le> fst (rate key v now window prev)"
  by (simp add: rate_def Let_def split: option.splits)

subsection \<open>Metrics\<close>

lemma metric_add: "metric (add_metric k v m) k' = metric m k' + (if k' = k then v else 0)"
  by (simp add: metric_def add_metric_def update_conv' split: option.splits)

lemma keys_add: "distinct (map fst m) \<Longrightarrow> distinct (map fst (add_metric k v m))"
  by (simp add: add_metric_def distinct_update)

lemma metric_merge: "metric (merge_metrics m merged) k = metric merged k + (\<Sum>(k', v)\<leftarrow>m. if k' = k then v else 0)"
  by (induction m arbitrary: merged) (auto simp: merge_metrics_def metric_add)

lemma metric_sum: "distinct (map fst m) \<Longrightarrow> (\<Sum>(k', v)\<leftarrow>m. if k' = k then v else 0) = metric m k"
proof (induction m)
  case (Cons p m)
  obtain a b where p: "p = (a, b)" by (cases p)
  show ?case
  proof (cases "a = k")
    case True
    then have "map_of m k = None" using Cons.prems by (simp add: p map_of_eq_None_iff)
    then have "metric m k = 0" by (simp add: metric_def)
    with True Cons show ?thesis by (simp add: p metric_def)
  next
    case False
    with Cons show ?thesis by (simp add: p metric_def)
  qed
qed (simp add: metric_def)

lemma prom_line_keys: "distinct (map fst m) \<Longrightarrow> distinct (map fst (prom_line line m))"
  by (auto simp: prom_line_def keys_add distinct_update Let_def split: option.splits)

lemma prom_keys: "distinct (map fst (prom reply))"
proof -
  have "distinct (map fst m) \<Longrightarrow> distinct (map fst (fold prom_line ls m))" for ls m
    by (induction ls arbitrary: m) (simp_all add: prom_line_keys)
  then show ?thesis by (simp add: prom_def split: option.splits)
qed

lemma metric_prom_all: "metric (fst (prom_all replies)) k = (\<Sum>r\<leftarrow>replies. metric (prom r) k)"
proof -
  have fold: "(\<And>m. m \<in> set ms \<Longrightarrow> distinct (map fst m)) \<Longrightarrow>
      metric (fold merge_metrics ms acc) k = metric acc k + (\<Sum>m\<leftarrow>ms. metric m k)" for ms acc
    by (induction ms arbitrary: acc) (simp_all add: metric_merge metric_sum)
  have "(\<Sum>m\<leftarrow>filter (\<lambda>m. m \<noteq> []) ms. metric m k) = (\<Sum>m\<leftarrow>ms. metric m k)" for ms
    by (induction ms) (auto simp: metric_def)
  with fold [of "filter (\<lambda>m. m \<noteq> []) (map prom replies)" "[]"] prom_keys show ?thesis
    by (auto simp: prom_all_def Let_def metric_def [of "[]"] comp_def)
qed

definition line_value :: "string \<Rightarrow> string \<Rightarrow> rat" where
  \<comment> \<open>what a line adds to a name\<close>
  "line_value name line =
     (if line = [] \<or> hd line = CHR ''#'' then 0
      else (case match_metric (strip_ws line) of
          None \<Rightarrow> 0
        | Some (n, labels, val) \<Rightarrow> if n = name then (case parse_number val of None \<Rightarrow> 0 | Some v \<Rightarrow> v) else 0))"

lemma metric_update: "metric (AList.update k v m) k' = (if k' = k then v else metric m k')"
  by (simp add: metric_def update_conv')

lemma take_labels_brace: "take_labels s = (labels, rest) \<Longrightarrow> labels \<noteq> [] \<Longrightarrow> CHR ''{'' \<in> set labels"
  by (auto simp: take_labels_def split: list.splits if_splits)

lemma match_labels_brace: "match_metric s = Some (n, labels, val) \<Longrightarrow> labels \<noteq> [] \<Longrightarrow> CHR ''{'' \<in> set (n @ labels)"
  by (auto simp: match_metric_def Let_def dest: take_labels_brace split: prod.splits if_splits)

lemma metric_prom_line:
  assumes "CHR ''{'' \<notin> set name"
  shows "metric (prom_line line m) name = metric m name + line_value name line"
proof (cases "match_metric (strip_ws line)")
  case (Some p)
  obtain n labels val where p: "p = (n, labels, val)" by (cases p)
  have ne: "name \<noteq> n @ labels" if "labels \<noteq> []"
    using match_labels_brace [of "strip_ws line" n labels val] that Some assms by (auto simp: p)
  with Some show ?thesis
    by (auto simp: prom_line_def line_value_def p Let_def metric_add metric_update split: option.splits)
qed (simp add: prom_line_def line_value_def)

lemma metric_prom:
  assumes "CHR ''{'' \<notin> set name"
  shows "metric (prom reply) name = (case reply of None \<Rightarrow> 0 | Some lines \<Rightarrow> (\<Sum>l\<leftarrow>lines. line_value name l))"
proof -
  have "metric (fold prom_line ls m) name = metric m name + (\<Sum>l\<leftarrow>ls. line_value name l)" for ls m
    by (induction ls arbitrary: m) (simp_all add: metric_prom_line [OF assms])
  then show ?thesis by (simp add: prom_def metric_def [of "[]"] split: option.splits)
qed

subsection \<open>Realtime totals and the writer's sums\<close>

definition same_counts :: "(string \<times> tally) list \<Rightarrow> (string \<times> rt_total) list \<Rightarrow> bool" where
  "same_counts out totals \<longleftrightarrow> (\<forall>c. map_option sm_count (map_of out c) = map_option rt_counts (map_of totals c))"

lemma add_fields_total:
  "add_fields fs h acc = (case total_fields fs h (sm_count acc) of Inl x \<Rightarrow> Inl x | Inr c \<Rightarrow> Inr (acc\<lparr>sm_count := c\<rparr>))"
proof (induction fs arbitrary: acc)
  case (Cons f fs)
  show ?case by (cases acc; cases "num_field h f") (simp_all add: Cons.IH fun_upd_def split: sum.split)
qed simp

lemma total_fields_needs: "total_fields fs h c = Inr c' \<Longrightarrow> f \<in> set fs \<Longrightarrow> \<exists>n. num_field h f = Inr n"
proof (induction fs arbitrary: c)
  case (Cons g fs)
  then show ?case by (cases "num_field h g") auto
qed simp

lemma rt_row_writer:
  assumes "same_counts out (snd st)"
  shows "case sum_hash h out of
      Inl x \<Rightarrow> isl (rt_row score h st)
    | Inr out' \<Rightarrow> \<exists>st'. rt_row score h st = Inr st' \<and> same_counts out' (snd st')"
proof (cases "hash_cid h")
  case None
  with assms show ?thesis by (simp add: sum_hash_def rt_row_def)
next
  case (Some cid)
  define acc where "acc = (case map_of out cid of Some a \<Rightarrow> a | None \<Rightarrow> \<lparr>sm_count = (\<lambda>_. 0), sm_minutes = 0,
      sm_advertiser = (case map_of h ''advertiser'' of None \<Rightarrow> [] | Some x \<Rightarrow> x),
      sm_name = (case map_of h ''campaign_name'' of None \<Rightarrow> [] | Some x \<Rightarrow> x)\<rparr>)"
  define t where "t = (case map_of (snd st) cid of Some t \<Rightarrow> t | None \<Rightarrow> \<lparr>rt_counts = (\<lambda>_. 0),
      rt_name = (case map_of h ''campaign_name'' of None \<Rightarrow> cid | Some x \<Rightarrow> if x = [] then cid else x)\<rparr>)"
  have same: "map_option sm_count (map_of out c) = map_option rt_counts (map_of (snd st) c)" for c
    using assms by (simp add: same_counts_def)
  have "sm_count acc = rt_counts t"
    using same [of cid] by (cases "map_of out cid"; cases "map_of (snd st) cid") (simp_all add: acc_def t_def)
  then have sum: "sum_hash h out = (case total_fields SUM_FIELDS h (rt_counts t) of Inl x \<Rightarrow> Inl x
      | Inr c \<Rightarrow> Inr (AList.update cid (acc\<lparr>sm_count := c, sm_minutes := sm_minutes acc + 1\<rparr>) out))"
    by (simp add: sum_hash_def Some acc_def [symmetric] Let_def add_fields_total split: sum.splits)
  show ?thesis
  proof (cases "total_fields SUM_FIELDS h (rt_counts t)")
    case (Inl x)
    then show ?thesis
      by (cases "num_field h ''impressions''") (simp_all add: sum rt_row_def Some t_def [symmetric] Let_def)
  next
    case (Inr c)
    obtain n where n: "num_field h ''impressions'' = Inr n"
      using total_fields_needs [OF Inr, of "''impressions''"] by (auto simp: SUM_FIELDS_def)
    show ?thesis
      using same by (simp add: sum Inr rt_row_def Some n t_def [symmetric] Let_def same_counts_def update_conv')
  qed
qed

lemma rt_rows_writer:
  "same_counts out (snd st) \<Longrightarrow>
    (case sum_hashes (map snd rows) out of
      Inl x \<Rightarrow> isl (rt_rows rows st)
    | Inr out' \<Rightarrow> \<exists>st'. rt_rows rows st = Inr st' \<and> same_counts out' (snd st'))"
proof (induction rows arbitrary: out st)
  case (Cons r rows)
  obtain score h where r: "r = (score, h)" by (cases r)
  show ?case
  proof (cases "sum_hash h out")
    case (Inl x)
    then obtain y where "rt_row score h st = Inl y"
      using rt_row_writer [OF Cons.prems, where h = h and score = score] by (cases "rt_row score h st") simp_all
    with Inl show ?thesis by (simp add: r)
  next
    case (Inr out')
    then obtain st' where "rt_row score h st = Inr st'" "same_counts out' (snd st')"
      using rt_row_writer [OF Cons.prems, where h = h and score = score] by auto
    with Cons.IH [of out' st'] Inr show ?thesis by (simp add: r split: sum.splits)
  qed
qed simp

section \<open>Properties\<close>

text \<open>C26: the dashboard's totals are the writer's. Over the minutes the chart shows, the realtime sample
  fails exactly when the writer's sum over the same scores fails or a stored alert is no JSON; when it
  succeeds it has the writer's campaigns with the writer's counts, and the writer's late and alert
  totals.\<close>

theorem dashboard_totals_are_the_writers:
  "let lo = minute_floor now - chart * 60; hi = minute_floor now + 60;
       alerts = load_all loads (list_range 0 9 (rv_list v ''alerts:recent'')) in
   case sample_realtime v loads chart now of
     Inl x \<Rightarrow> isl (sum_range v lo hi) \<or> isl alerts
   | Inr s \<Rightarrow> (case sum_range v lo hi of
         Inl x \<Rightarrow> False
       | Inr out \<Rightarrow> same_counts out (rl_totals s)) \<and> alerts = Inr (rl_alerts s) \<and>
       rl_late_total s = num_or_0 (rv_num v ''late:total'') \<and> rl_alerts_total s = num_or_0 (rv_num v ''alerts:total'')"
proof -
  let ?lo = "minute_floor now - chart * 60" and ?hi = "minute_floor now + 60"
  let ?keys = "zrangebyscore (rv_zset v ''agg:index'') ?lo ?hi"
  let ?rows = "map (\<lambda>(k, score). (score, rv_hash v k)) ?keys"
  let ?alerts = "load_all loads (list_range 0 9 (rv_list v ''alerts:recent''))"
  have rows: "map snd ?rows = map (\<lambda>(k, s). rv_hash v k) ?keys" by (simp add: case_prod_beta comp_def)
  have sum: "sum_range v ?lo ?hi = sum_hashes (map snd ?rows) []" unfolding sum_range_def rows ..
  have "same_counts [] (snd ([], []))" by (simp add: same_counts_def)
  note run = rt_rows_writer [OF this, of ?rows, folded sum]
  have sample: "sample_realtime v loads chart now = rbind (rt_rows ?rows ([], [])) (\<lambda>(series, totals). rbind ?alerts (\<lambda>alerts.
      Inr \<lparr>rl_series = series, rl_totals = totals, rl_alerts = alerts,
        rl_late_total = num_or_0 (rv_num v ''late:total''), rl_alerts_total = num_or_0 (rv_num v ''alerts:total'')\<rparr>))"
    by (simp only: sample_realtime_def Let_def)
  show ?thesis
  proof (cases "rt_rows ?rows ([], [])")
    case (Inl x)
    then have "isl (sum_range v ?lo ?hi)" using run by (cases "sum_range v ?lo ?hi") auto
    with Inl show ?thesis by (simp add: sample Let_def)
  next
    case (Inr st)
    then obtain out where "sum_range v ?lo ?hi = Inr out" "same_counts out (snd st)"
      using run by (cases "sum_range v ?lo ?hi") auto
    with Inr show ?thesis by (cases ?alerts; cases st) (simp_all add: sample Let_def)
  qed
qed

text \<open>A counter on the dashboard is the sum over the service's replicas. For a plain metric name, the
  merged value is the sum, over the replies received, of the values of the lines with that name,
  whatever labels they carry; replicas that do not answer and lines that do not parse add nothing.\<close>

theorem scraped_counters_add_up:
  assumes "CHR ''{'' \<notin> set name"
  shows "metric (fst (prom_all replies)) name =
    (\<Sum>r\<leftarrow>replies. case r of None \<Rightarrow> 0 | Some lines \<Rightarrow> (\<Sum>l\<leftarrow>lines. line_value name l))"
  unfolding metric_prom_all metric_prom [OF assms] ..

theorem scraped_counters_add_up_witness:
  "metric (fst (prom_all [Some [''# HELP x'', ''x_total{a=b} 2.0'', ''x_total{a=c} 3''], None, Some [''x_total 1e1'', ''y 4'']])) ''x_total'' = 15"
proof -
  have v: "line_value ''x_total'' ''# HELP x'' = 0" "line_value ''x_total'' ''x_total{a=b} 2.0'' = 2"
    "line_value ''x_total'' ''x_total{a=c} 3'' = 3" "line_value ''x_total'' ''x_total 1e1'' = 10" "line_value ''x_total'' ''y 4'' = 0"
    by code_simp+
  show ?thesis by (subst scraped_counters_add_up) (simp_all add: v)
qed

end
