(* ===== verification/Viewer.thy ===== *)
theory Viewer
  imports Py_Service
begin

text \<open>
  The virtual viewers of the generator (\<open>generator/users.py\<close>): a session over one content, its ad
  breaks, and the events of one ad.

  A viewer's actions are a log: the events it hands to the emitter, with their pixel permission, and
  the sleeps of its clock in content seconds.  Its random generator is a stream of draws in [0, 1),
  one for each call; uuids, clock readings, the checks of the stop event and the answers of
  ad-decision are numbered in the order they are taken.
\<close>

section \<open>State\<close>

datatype viewer_act = Emit event bool | Sleep rat

record behavior =
  bc_abandon :: rat
  bc_ad_abandon :: rat
  bc_click_rate :: rat
  bc_drop_impression :: rat

record viewer_env =
  ve_uid :: string
  ve_cfg :: behavior
  ve_hex :: "nat \<Rightarrow> string"
  ve_now :: "nat \<Rightarrow> int"
  ve_stop :: "nat \<Rightarrow> bool"
  ve_decide :: "(nat \<Rightarrow> dict option) option"
  \<comment> \<open>\<open>None\<close>: the generator decides itself\<close>

record viewer =
  vw_device :: string
  vw_session :: "string option"
  vw_content :: "content option"
  vw_log :: "viewer_act list"
  vw_rng :: "rat stream"
  vw_uuid :: nat
  vw_time :: nat
  vw_checks :: nat
  vw_asked :: nat

section \<open>Draws\<close>

definition draw :: "viewer \<Rightarrow> rat \<times> viewer" where
  "draw v = (shd (vw_rng v), v\<lparr>vw_rng := stl (vw_rng v)\<rparr>)"

definition draw_uniform :: "rat \<Rightarrow> rat \<Rightarrow> viewer \<Rightarrow> rat \<times> viewer" where
  "draw_uniform a b v = (let (u, v) = draw v in (a + (b - a) * u, v))"

definition draw_choice :: "'a list \<Rightarrow> viewer \<Rightarrow> 'a \<times> viewer" where
  \<comment> \<open>\<open>rng.choice(xs)\<close>\<close>
  "draw_choice xs v = (let (u, v) = draw v in (xs ! nat \<lfloor>u * of_nat (length xs)\<rfloor>, v))"

fun pick :: "('a \<times> rat) list \<Rightarrow> rat \<Rightarrow> 'a \<Rightarrow> 'a" where
  \<comment> \<open>the first item whose cumulated weight exceeds \<open>x\<close>; the last item when none does\<close>
  "pick [] x z = z"
| "pick ((a, w) # ps) x z = (if x < w then a else pick ps (x - w) a)"

definition draw_choices :: "('a \<times> rat) list \<Rightarrow> viewer \<Rightarrow> 'a \<times> viewer" where
  \<comment> \<open>\<open>rng.choices(items, weights)[0]\<close>\<close>
  "draw_choices ps v = (let (u, v) = draw v in (pick ps (u * (\<Sum>p\<leftarrow>ps. snd p)) (fst (hd ps)), v))"

definition draw_randint :: "int \<Rightarrow> int \<Rightarrow> viewer \<Rightarrow> int \<times> viewer" where
  "draw_randint a b v = (let (u, v) = draw v in (a + \<lfloor>u * of_int (b - a + 1)\<rfloor>, v))"

definition viewer_hex :: "viewer_env \<Rightarrow> nat \<Rightarrow> viewer \<Rightarrow> string \<times> viewer" where
  "viewer_hex env n v = (take n (ve_hex env (vw_uuid v)), v\<lparr>vw_uuid := Suc (vw_uuid v)\<rparr>)"

definition new_viewer :: "rat stream \<Rightarrow> viewer" where
  \<comment> \<open>\<open>__init__\<close>: draws the device\<close>
  "new_viewer rng =
     (let v = \<lparr>vw_device = [], vw_session = None, vw_content = None, vw_log = [], vw_rng = rng, vw_uuid = 0,
            vw_time = 0, vw_checks = 0, vw_asked = 0\<rparr>;
          (d, v) = draw_choices DEVICES v
      in v\<lparr>vw_device := d\<rparr>)"

definition stopped :: "viewer_env \<Rightarrow> viewer \<Rightarrow> bool \<times> viewer" where
  \<comment> \<open>\<open>stop_event.is_set()\<close>\<close>
  "stopped env v = (ve_stop env (vw_checks v), v\<lparr>vw_checks := Suc (vw_checks v)\<rparr>)"

definition act :: "viewer_act \<Rightarrow> viewer \<Rightarrow> viewer" where
  "act a v = v\<lparr>vw_log := vw_log v @ [a]\<rparr>"

definition clock_sleep :: "rat \<Rightarrow> viewer \<Rightarrow> viewer" where
  "clock_sleep s v = act (Sleep s) v"

section \<open>Events\<close>

definition str_or_none :: "string option \<Rightarrow> pyval" where
  "str_or_none s = (case s of None \<Rightarrow> PNone | Some x \<Rightarrow> PStr x)"

definition base :: "viewer_env \<Rightarrow> string \<Rightarrow> dict \<Rightarrow> viewer \<Rightarrow> event \<times> viewer" where
  "base env event_type extra v =
     (let (h, v) = viewer_hex env 16 v; now = ve_now env (vw_time v); v = v\<lparr>vw_time := Suc (vw_time v)\<rparr>;
          ev = [(''event_id'', PStr (''evt-'' @ h)), (''event_type'', PStr event_type), (''event_time'', PInt now),
                (''user_id'', PStr (ve_uid env)), (''session_id'', str_or_none (vw_session v)), (''device'', PStr (vw_device v)),
                (''content_id'', str_or_none (map_option ct_id (vw_content v))), (''source'', PStr ''client'')]
      in (dmerge ev extra, v))"

definition emit_base :: "viewer_env \<Rightarrow> string \<Rightarrow> dict \<Rightarrow> bool \<Rightarrow> viewer \<Rightarrow> viewer" where
  \<comment> \<open>\<open>await self.em.emit(self._base(event_type, **extra), allow_pixel)\<close>\<close>
  "emit_base env event_type extra allow_pixel v =
     (let (ev, v) = base env event_type extra v in act (Emit ev allow_pixel) v)"

section \<open>One ad\<close>

datatype decided = NoAd | BadAd exn | Ad pyval pyval pyval
  \<comment> \<open>campaign, creative and length\<close>

definition decide :: "viewer_env \<Rightarrow> viewer \<Rightarrow> decided \<times> viewer" where
  \<comment> \<open>step 2\<close>
  "decide env v =
     (case ve_decide env of
        Some answer \<Rightarrow>
          (let d = answer (vw_asked v); v = v\<lparr>vw_asked := Suc (vw_asked v)\<rparr> in
           case d of
             None \<Rightarrow> (NoAd, v)
           | Some d \<Rightarrow>
               if \<not> truthy (dget d ''fill'') then (NoAd, v)
               else (case dsub d ''campaign_id'' of
                   Inl x \<Rightarrow> (BadAd x, v)
                 | Inr campaign \<Rightarrow>
                     if \<not> truthy (dget d ''creative_id'') \<and> \<not> hashable campaign then (BadAd TypeError, v)
                     else
                       (let (creative, v) = (if truthy (dget d ''creative_id'') then (dget d ''creative_id'', v)
                              else (let (c, v) = draw_choice (case campaign of
                                        PStr s \<Rightarrow> (case map_of CREATIVES s of Some cs \<Rightarrow> cs | None \<Rightarrow> [''crt-unknown''])
                                      | _ \<Rightarrow> [''crt-unknown'']) v in (PStr c, v)));
                            (len, v) = (if truthy (dget d ''ad_duration_s'') then (dget d ''ad_duration_s'', v)
                              else (let (n, v) = draw_choice AD_LENGTHS v in (PInt n, v)))
                        in (Ad campaign creative len, v))))
      | None \<Rightarrow>
          (let (campaign, v) = draw_choices CAMPAIGNS v;
               (creative, v) = draw_choice (the (map_of CREATIVES campaign)) v;
               (n, v) = draw_choice AD_LENGTHS v
           in (Ad (PStr campaign) (PStr creative) (PInt n), v)))"

fun quartiles :: "viewer_env \<Rightarrow> dict \<Rightarrow> rat \<Rightarrow> int option \<Rightarrow> int \<Rightarrow> (string \<times> rat) list \<Rightarrow> rat \<Rightarrow> int \<Rightarrow> viewer \<Rightarrow> int \<times> viewer" where
  \<comment> \<open>the loop of step 4, from index \<open>i\<close>: the last quartile reached\<close>
  "quartiles env common ad_len drop_from i [] prev reached v = (reached, v)"
| "quartiles env common ad_len drop_from i ((name, fr) # qs) prev reached v =
     (if (case drop_from of None \<Rightarrow> False | Some d \<Rightarrow> d \<le> i) then (reached, v)
      else (let v = clock_sleep ((fr - prev) * ad_len) v;
                v = emit_base env ''quartile'' ((''quartile'', PStr name) # common) True v
            in quartiles env common ad_len drop_from (i + 1) qs fr i v))"

definition ad_common :: "pyval \<Rightarrow> string \<Rightarrow> pyval \<Rightarrow> string \<Rightarrow> int \<Rightarrow> pyval \<Rightarrow> int \<Rightarrow> dict" where
  "ad_common campaign arid creative pod slot ad_len playhead =
     [(''campaign_id'', campaign), (''ad_request_id'', PStr arid), (''creative_id'', creative),
      (''ad_pod_id'', PStr pod), (''ad_slot'', PInt slot), (''ad_duration_s'', ad_len), (''playhead_s'', PInt playhead)]"

definition ad_play :: "viewer_env \<Rightarrow> dict \<Rightarrow> pyval \<Rightarrow> viewer \<Rightarrow> exn option \<times> viewer" where
  \<comment> \<open>steps 3 to 5; a length that is no number raises in the first turn of the quartile loop, which always runs\<close>
  "ad_play env common len v =
     (let v = (if ve_decide env = None then emit_base env ''ad_response'' ((''fill'', PBool True) # common) False v else v);
          (s, v) = draw_uniform (1 / 10) (4 / 10) v;
          v = clock_sleep s v;
          v = emit_base env ''impression'' common True v;
          (u, v) = draw v;
          (drop_from, v) = (if u < bc_ad_abandon (ve_cfg env) then (let (n, v) = draw_randint 1 4 v in (Some n, v)) else (None, v))
      in case number_of len of
           None \<Rightarrow> (Some TypeError, v)
         | Some ad_len \<Rightarrow>
             (let (reached, v) = quartiles env common ad_len drop_from 0 QUARTILES 0 0 v
              in if 2 \<le> reached
                 then (let (u, v) = draw v in
                       (None, if u < bc_click_rate (ve_cfg env) then emit_base env ''click'' common True v else v))
                 else (None, v)))"

definition ad_requested :: "viewer_env \<Rightarrow> string \<Rightarrow> int \<Rightarrow> int \<Rightarrow> viewer \<Rightarrow> string \<times> viewer" where
  \<comment> \<open>step 1: the request, and its id\<close>
  "ad_requested env pod_id slot playhead v =
     (let (h, v) = viewer_hex env 16 v; arid = ''req-'' @ h
      in (arid, emit_base env ''ad_request'' [(''campaign_id'', PStr ''pending''), (''ad_request_id'', PStr arid),
           (''ad_pod_id'', PStr pod_id), (''ad_slot'', PInt slot), (''playhead_s'', PInt playhead)] False v))"

definition one_ad :: "viewer_env \<Rightarrow> string \<Rightarrow> int \<Rightarrow> int \<Rightarrow> viewer \<Rightarrow> exn option \<times> viewer" where
  "one_ad env pod_id slot playhead v =
     (let (arid, v) = ad_requested env pod_id slot playhead v;
          (d, v) = decide env v
      in case d of
           NoAd \<Rightarrow> (None, v)
         | BadAd x \<Rightarrow> (Some x, v)
         | Ad campaign creative len \<Rightarrow>
             (let (u, v) = draw v in
              if u < bc_drop_impression (ve_cfg env) then (None, v)
              else ad_play env (ad_common campaign arid creative pod_id slot len playhead) len v))"

section \<open>A session\<close>

fun pod :: "viewer_env \<Rightarrow> string \<Rightarrow> int \<Rightarrow> int list \<Rightarrow> viewer \<Rightarrow> exn option \<times> viewer" where
  \<comment> \<open>the slots of a pod\<close>
  "pod env pod_id playhead [] v = (None, v)"
| "pod env pod_id playhead (slot # slots) v =
     (let (s, v) = stopped env v in
      if s then (None, v)
      else (case one_ad env pod_id slot playhead v of
          (Some x, v) \<Rightarrow> (Some x, v)
        | (None, v) \<Rightarrow> pod env pod_id playhead slots v))"

definition ad_break :: "viewer_env \<Rightarrow> int \<Rightarrow> viewer \<Rightarrow> exn option \<times> viewer" where
  "ad_break env playhead v =
     (let (n, v) = draw_choices [(1, 45 / 100), (2, 40 / 100), (3, 15 / 100)] v;
          (h, v) = viewer_hex env 10 v
      in pod env (''pod-'' @ h) playhead (map int [0..<n]) v)"

definition PROGRESS_INTERVAL_S :: int where "PROGRESS_INTERVAL_S = 30"

definition marks :: "content \<Rightarrow> (int \<times> string) list" where
  \<comment> \<open>progress pings and ad breaks as one timeline\<close>
  "marks c = sort (remdups
     (map (\<lambda>p. (p, ''ping'')) (py_range PROGRESS_INTERVAL_S (ct_duration c) PROGRESS_INTERVAL_S) @
      map (\<lambda>b. (b, ''break'')) (ct_breaks c)))"

datatype loop_end = Raised exn | Abandoned | Over
  \<comment> \<open>left by an exception, by the return of an abandoned session, or at the end or by \<open>break\<close>\<close>

definition session_end_abandon :: "viewer_env \<Rightarrow> rat \<Rightarrow> viewer \<Rightarrow> viewer" where
  "session_end_abandon env a v = emit_base env ''session_end'' [(''campaign_id'', PStr ''none''),
     (''playhead_s'', PFloat (py_round 1 a)), (''reason'', PStr ''abandon'')] False v"

definition at_mark :: "viewer_env \<Rightarrow> int \<Rightarrow> string \<Rightarrow> rat \<Rightarrow> viewer \<Rightarrow> exn option \<times> viewer" where
  "at_mark env m kind p v =
     (let v = clock_sleep (of_int m - p) v in
      if kind = ''ping''
      then (None, emit_base env ''progress'' [(''campaign_id'', PStr ''none''), (''playhead_s'', PInt m)] False v)
      else ad_break env m v)"

fun timeline :: "viewer_env \<Rightarrow> rat \<Rightarrow> rat option \<Rightarrow> (int \<times> string) list \<Rightarrow> rat \<Rightarrow> viewer \<Rightarrow> loop_end \<times> viewer" where
  \<comment> \<open>the loop over the marks, at playback position \<open>p\<close>\<close>
  "timeline env start_pos abandon_at [] p v = (Over, v)"
| "timeline env start_pos abandon_at ((m, kind) # ms) p v =
     (if of_int m < start_pos then timeline env start_pos abandon_at ms p v
      else (let (s, v) = stopped env v in
        if s then (Over, v)
        else if (case abandon_at of None \<Rightarrow> False | Some a \<Rightarrow> a < of_int m)
        then (Abandoned, session_end_abandon env (the abandon_at) v)
        else (case at_mark env m kind p v of
            (Some x, v) \<Rightarrow> (Raised x, v)
          | (None, v) \<Rightarrow> timeline env start_pos abandon_at ms (of_int m) v)))"

definition draw_start :: "content \<Rightarrow> viewer \<Rightarrow> rat \<times> viewer" where
  "draw_start c v =
     (if ct_kind c = ''live'' then draw_uniform 0 (of_int (ct_duration c) * (9 / 10)) v
      else (let (u, v) = draw v in
        if u < 6 / 10 then draw_uniform 0 (of_int (ct_duration c) * (8 / 10)) v else (0, v)))"

definition draw_abandon :: "viewer_env \<Rightarrow> content \<Rightarrow> rat \<Rightarrow> viewer \<Rightarrow> rat option \<times> viewer" where
  "draw_abandon env c start_pos v =
     (let (u, v) = draw v in
      if u < bc_abandon (ve_cfg env)
      then (let (a, v) = draw_uniform start_pos (of_int (ct_duration c)) v in (Some a, v)) else (None, v))"

definition session_start :: "viewer_env \<Rightarrow> content \<Rightarrow> rat \<Rightarrow> viewer \<Rightarrow> viewer" where
  "session_start env c start_pos v = emit_base env ''session_start'' [(''campaign_id'', PStr ''none''),
     (''content_kind'', PStr (ct_kind c)), (''playhead_s'', PFloat (py_round 1 start_pos))] False v"

definition content_over :: "viewer_env \<Rightarrow> content \<Rightarrow> viewer \<Rightarrow> viewer" where
  \<comment> \<open>after the loop\<close>
  "content_over env c v =
     (let (s, v) = stopped env v in
      if s then v
      else emit_base env ''session_end'' [(''campaign_id'', PStr ''none''), (''reason'', PStr ''completed'')] False
        (emit_base env ''content_end'' [(''campaign_id'', PStr ''none''), (''playhead_s'', PInt (ct_duration c))] False v))"

definition begin_session :: "viewer_env \<Rightarrow> viewer \<Rightarrow> content \<times> viewer" where
  "begin_session env v =
     (let (c, v) = draw_choice CATALOG v; (h, v) = viewer_hex env 12 v
      in (c, v\<lparr>vw_content := Some c, vw_session := Some (''sess-'' @ h)\<rparr>))"

definition watch :: "viewer_env \<Rightarrow> viewer \<Rightarrow> loop_end \<times> viewer" where
  "watch env v =
     (let (c, v) = begin_session env v;
          (start_pos, v) = draw_start c v;
          (abandon_at, v) = draw_abandon env c start_pos v;
          v = session_start env c start_pos v;
          (e, v) = timeline env start_pos abandon_at (marks c) start_pos v
      in case e of Over \<Rightarrow> (e, content_over env c v) | _ \<Rightarrow> (e, v))"

fun run_sessions :: "nat \<Rightarrow> viewer_env \<Rightarrow> viewer \<Rightarrow> exn option \<times> viewer" where
  \<comment> \<open>the loop of \<open>run\<close>, for at most that many sessions; an exception ends the viewer's task\<close>
  "run_sessions 0 env v = (None, v)"
| "run_sessions (Suc n) env v =
     (let (s, v) = stopped env v in
      if s then (None, v)
      else (case watch env v of
          (Raised x, v) \<Rightarrow> (Some x, v)
        | (_, v) \<Rightarrow> (let (s, v) = draw_uniform 5 60 v in run_sessions n env (clock_sleep s v))))"

definition viewer_run :: "nat \<Rightarrow> viewer_env \<Rightarrow> viewer \<Rightarrow> exn option \<times> viewer" where
  \<comment> \<open>\<open>run\<close>; the first sleep is in real seconds, and the log holds sleeps of the content clock only\<close>
  "viewer_run n env v = (let (s, v) = draw_uniform 0 3 v in run_sessions n env v)"

section \<open>Lemmas\<close>

definition emitted :: "viewer \<Rightarrow> event list" where
  "emitted v = concat (map (\<lambda>a. case a of Emit ev _ \<Rightarrow> [ev] | Sleep s \<Rightarrow> []) (vw_log v))"

definition type_of :: "event \<Rightarrow> string" where
  "type_of ev = (case dget ev ''event_type'' of PStr t \<Rightarrow> t | _ \<Rightarrow> [])"

lemma emitted_frame [simp]:
  "emitted (v\<lparr>vw_rng := r\<rparr>) = emitted v" "emitted (v\<lparr>vw_uuid := n\<rparr>) = emitted v" "emitted (v\<lparr>vw_time := n\<rparr>) = emitted v"
  "emitted (v\<lparr>vw_checks := n\<rparr>) = emitted v" "emitted (v\<lparr>vw_asked := n\<rparr>) = emitted v"
  "emitted (v\<lparr>vw_content := c\<rparr>) = emitted v" "emitted (v\<lparr>vw_session := s\<rparr>) = emitted v"
  by (simp_all add: emitted_def)

lemma emitted_act [simp]:
  "emitted (act (Emit ev ap) v) = emitted v @ [ev]" "emitted (clock_sleep s v) = emitted v"
  by (simp_all add: emitted_def act_def clock_sleep_def)

text \<open>Draws emit nothing.\<close>

lemma draws_silent:
  "draw v = (u, v') \<Longrightarrow> emitted v' = emitted v"
  "draw_uniform a b v = (u, v') \<Longrightarrow> emitted v' = emitted v"
  "draw_choice xs v = (x, v') \<Longrightarrow> emitted v' = emitted v"
  "draw_choices ps v = (y, v') \<Longrightarrow> emitted v' = emitted v"
  "draw_randint i j v = (k, v') \<Longrightarrow> emitted v' = emitted v"
  "viewer_hex env n v = (h, v') \<Longrightarrow> emitted v' = emitted v"
  "stopped env v = (s, v') \<Longrightarrow> emitted v' = emitted v"
  by (auto simp: draw_def draw_uniform_def draw_choice_def draw_choices_def draw_randint_def viewer_hex_def
      stopped_def split: prod.splits)

lemma draw_randint_range: "draw_randint 1 4 v = (k, v') \<Longrightarrow> 0 \<le> shd (vw_rng v) \<Longrightarrow> 1 \<le> k"
  by (auto simp: draw_randint_def draw_def split: prod.splits)

lemma decide_silent: "decide env v = (d, v') \<Longrightarrow> emitted v' = emitted v"
  by (auto simp: decide_def Let_def dest!: draws_silent split: option.splits sum.splits if_splits prod.splits)

text \<open>Only \<open>watch\<close> changes the session.\<close>

lemma session_frame [simp]:
  "vw_session (act a v) = vw_session v" "vw_session (clock_sleep s v) = vw_session v"
  "vw_session (emit_base env t extra ap v) = vw_session v"
  by (simp_all add: act_def clock_sleep_def emit_base_def base_def viewer_hex_def Let_def)

lemma draws_session:
  "draw v = (u, v') \<Longrightarrow> vw_session v' = vw_session v"
  "draw_uniform a b v = (u, v') \<Longrightarrow> vw_session v' = vw_session v"
  "draw_choice xs v = (x, v') \<Longrightarrow> vw_session v' = vw_session v"
  "draw_choices ps v = (y, v') \<Longrightarrow> vw_session v' = vw_session v"
  "draw_randint i j v = (k, v') \<Longrightarrow> vw_session v' = vw_session v"
  "viewer_hex env n v = (h, v') \<Longrightarrow> vw_session v' = vw_session v"
  "stopped env v = (s, v') \<Longrightarrow> vw_session v' = vw_session v"
  by (auto simp: draw_def draw_uniform_def draw_choice_def draw_choices_def draw_randint_def viewer_hex_def
      stopped_def split: prod.splits)

lemma decide_session: "decide env v = (d, v') \<Longrightarrow> vw_session v' = vw_session v"
  by (auto simp: decide_def Let_def dest!: draws_session split: option.splits sum.splits if_splits prod.splits)

text \<open>The draws left are among the draws there were.\<close>

lemma rng_frame [simp]:
  "vw_rng (act a v) = vw_rng v" "vw_rng (clock_sleep s v) = vw_rng v" "vw_rng (emit_base env t extra ap v) = vw_rng v"
  by (simp_all add: act_def clock_sleep_def emit_base_def base_def viewer_hex_def Let_def)

lemma draws_rng:
  "draw v = (u, v') \<Longrightarrow> sset (vw_rng v') \<subseteq> sset (vw_rng v)"
  "draw_uniform a b v = (u, v') \<Longrightarrow> sset (vw_rng v') \<subseteq> sset (vw_rng v)"
  "draw_choice xs v = (x, v') \<Longrightarrow> sset (vw_rng v') \<subseteq> sset (vw_rng v)"
  "draw_choices ps v = (y, v') \<Longrightarrow> sset (vw_rng v') \<subseteq> sset (vw_rng v)"
  by (auto simp: draw_def draw_uniform_def draw_choice_def draw_choices_def stl_sset split: prod.splits)

lemma decide_rng: "decide env v = (d, v') \<Longrightarrow> sset (vw_rng v') \<subseteq> sset (vw_rng v)"
  unfolding decide_def Let_def
  by (auto dest!: draws_rng split: option.splits sum.splits if_splits prod.splits)

definition built :: "viewer_env \<Rightarrow> viewer \<Rightarrow> string \<Rightarrow> dict \<Rightarrow> event" where
  "built env v t extra = fst (base env t extra v)"

lemma emitted_base [simp]: "emitted (emit_base env t extra ap v) = emitted v @ [built env v t extra]"
  by (auto simp: emit_base_def built_def base_def viewer_hex_def Let_def)

definition built0 :: "viewer_env \<Rightarrow> viewer \<Rightarrow> string \<Rightarrow> event" where
  "built0 env v t = built env v t []"

lemma map_of_built:
  assumes "distinct (map fst extra)"
  shows "map_of (built env v t extra) k = (case map_of extra k of Some x \<Rightarrow> Some x | None \<Rightarrow> map_of (built0 env v t) k)"
  using map_of_dmerge [OF assms]
  by (simp add: built0_def built_def base_def viewer_hex_def Let_def dmerge_def [of _ "[]"] split: option.splits)

lemma map_of_built0:
  "map_of (built0 env v t) ''event_type'' = Some (PStr t)" "\<exists>h. map_of (built0 env v t) ''event_id'' = Some (PStr (''evt-'' @ h))"
  "\<exists>n. map_of (built0 env v t) ''event_time'' = Some (PInt n)" "map_of (built0 env v t) ''source'' = Some (PStr ''client'')"
  "map_of (built0 env v t) ''session_id'' = Some (str_or_none (vw_session v))"
  by (simp_all add: built0_def built_def base_def viewer_hex_def Let_def dmerge_def)

text \<open>What a step adds to the log: events with a property.\<close>

definition grows :: "(event \<Rightarrow> bool) \<Rightarrow> viewer \<Rightarrow> viewer \<Rightarrow> bool" where
  "grows P v v' \<longleftrightarrow> (\<exists>es. emitted v' = emitted v @ es \<and> list_all P es)"

lemma grows_silent: "emitted v' = emitted v \<Longrightarrow> grows P v v'"
  by (simp add: grows_def)

lemma grows_from: "emitted v1 = emitted v \<Longrightarrow> grows P v1 v' \<Longrightarrow> grows P v v'"
  by (simp add: grows_def)

lemma grows_trans [trans]: "grows P v v1 \<Longrightarrow> grows P v1 v2 \<Longrightarrow> grows P v v2"
  by (auto simp: grows_def)

lemma grows_emit: "P (built env v t extra) \<Longrightarrow> grows P v (emit_base env t extra ap v)"
  by (simp add: grows_def)

lemma grows_emits: "grows P v0 v \<Longrightarrow> P (built env v t extra) \<Longrightarrow> grows P v0 (emit_base env t extra ap v)"
  by (rule grows_trans [OF _ grows_emit])

definition client_event :: "event \<Rightarrow> bool" where
  \<comment> \<open>every field the collector requires, a type it routes, and the source the settlement prefers less\<close>
  "client_event ev \<longleftrightarrow> well_formed ev \<and> list_all (\<lambda>k. map_of ev k \<noteq> None) REQUIRED_FIELDS \<and>
     topic_for (type_of ev) \<noteq> None \<and> dget ev ''source'' = PStr ''client''"

definition in_session :: "string option \<Rightarrow> event \<Rightarrow> bool" where
  "in_session sid ev \<longleftrightarrow> client_event ev \<and> dget ev ''session_id'' = str_or_none sid"

definition kinds :: "string list" where
  "kinds = [''session_start'', ''progress'', ''session_end'', ''content_end'', ''ad_request'', ''ad_response'',
     ''impression'', ''quartile'', ''click'']"

lemma kinds_routed: "t \<in> set kinds \<Longrightarrow> topic_for t \<noteq> None"
proof -
  have "list_all (\<lambda>t. topic_for t \<noteq> None) kinds" by code_simp
  then show "t \<in> set kinds \<Longrightarrow> topic_for t \<noteq> None" by (simp add: list_all_iff)
qed

definition plain_extra :: "dict \<Rightarrow> bool" where
  "plain_extra extra \<longleftrightarrow> distinct (map fst extra) \<and> map_of extra ''campaign_id'' \<noteq> None \<and>
     map_of extra ''event_type'' = None \<and> map_of extra ''event_id'' = None \<and> map_of extra ''event_time'' = None \<and>
     map_of extra ''source'' = None \<and> map_of extra ''session_id'' = None"

lemma plain_extra_fields:
  assumes "plain_extra extra"
  shows "map_of (built env v t extra) ''event_type'' = Some (PStr t)" "type_of (built env v t extra) = t"
    "\<exists>h. map_of (built env v t extra) ''event_id'' = Some (PStr (''evt-'' @ h))"
    "\<exists>n. map_of (built env v t extra) ''event_time'' = Some (PInt n)"
    "map_of (built env v t extra) ''source'' = Some (PStr ''client'')"
    "\<exists>c. map_of (built env v t extra) ''campaign_id'' = Some c"
    "map_of (built env v t extra) ''session_id'' = Some (str_or_none (vw_session v))"
  using assms map_of_built0 [of env v t] by (auto simp: type_of_def dget_def plain_extra_def map_of_built split: option.split)

lemma built_client:
  assumes "plain_extra extra" "t \<in> set kinds"
  shows "in_session (vw_session v) (built env v t extra)"
proof -
  note f = plain_extra_fields [OF assms(1), of env v t]
  obtain h n c where "map_of (built env v t extra) ''event_id'' = Some (PStr (''evt-'' @ h))"
    "map_of (built env v t extra) ''event_time'' = Some (PInt n)" "map_of (built env v t extra) ''campaign_id'' = Some c"
    using f(3,4,6) by iprover
  with f(1,2,5,7) kinds_routed [OF assms(2)] show ?thesis
    by (simp add: in_session_def client_event_def well_formed_def REQUIRED_FIELDS_def dget_def)
qed

lemma ad_common_plain:
  "plain_extra (ad_common c a cr p s l ph)" "plain_extra ((''fill'', x) # ad_common c a cr p s l ph)"
  "plain_extra ((''quartile'', x) # ad_common c a cr p s l ph)"
  by (simp_all add: plain_extra_def ad_common_def)

section \<open>The events of one ad\<close>

definition of_ad :: "string option \<Rightarrow> string \<Rightarrow> string \<times> pyval \<Rightarrow> event \<Rightarrow> bool" where
  \<comment> \<open>an event of a session and ad request with this type and quartile\<close>
  "of_ad sid arid tq ev \<longleftrightarrow> in_session sid ev \<and> type_of ev = fst tq \<and> dget ev ''quartile'' = snd tq \<and>
     dget ev ''ad_request_id'' = PStr arid"

definition ad_types :: "bool \<Rightarrow> nat \<Rightarrow> bool \<Rightarrow> (string \<times> pyval) list" where
  \<comment> \<open>a filled ad played to its \<open>k\<close>-th quartile, with or without a click\<close>
  "ad_types own k click = (''ad_request'', PNone) # (if own then [(''ad_response'', PNone)] else []) @ (''impression'', PNone) #
     map (\<lambda>q. (''quartile'', PStr (fst q))) (take k QUARTILES) @ (if click then [(''click'', PNone)] else [])"

lemma built_of_ad:
  assumes "plain_extra extra" "t \<in> set kinds" "map_of extra ''ad_request_id'' = Some (PStr arid)"
    "vw_session v = sid" "q = (case map_of extra ''quartile'' of None \<Rightarrow> PNone | Some x \<Rightarrow> x)"
  shows "of_ad sid arid (t, q) (built env v t extra)"
proof -
  have "map_of (built0 env v t) ''quartile'' = None"
    by (simp add: built0_def built_def base_def viewer_hex_def Let_def dmerge_def)
  moreover have "distinct (map fst extra)" using assms(1) by (simp add: plain_extra_def)
  ultimately show ?thesis
    using assms built_client [OF assms(1,2), of v env] plain_extra_fields(2) [OF assms(1), of env v t]
    by (simp add: of_ad_def dget_def map_of_built split: option.split)
qed

lemma common_of_ad:
  "vw_session v = sid \<Longrightarrow> t \<in> set kinds \<Longrightarrow> of_ad sid arid (t, PNone) (built env v t (ad_common c arid cr p s l ph))"
  "vw_session v = sid \<Longrightarrow> of_ad sid arid (''ad_response'', PNone) (built env v ''ad_response'' ((''fill'', x) # ad_common c arid cr p s l ph))"
  "vw_session v = sid \<Longrightarrow> of_ad sid arid (''quartile'', y) (built env v ''quartile'' ((''quartile'', y) # ad_common c arid cr p s l ph))"
proof -
  show "vw_session v = sid \<Longrightarrow> t \<in> set kinds \<Longrightarrow> of_ad sid arid (t, PNone) (built env v t (ad_common c arid cr p s l ph))"
    by (rule built_of_ad [OF ad_common_plain(1)]) (simp_all add: ad_common_def)
  show "vw_session v = sid \<Longrightarrow> of_ad sid arid (''ad_response'', PNone) (built env v ''ad_response'' ((''fill'', x) # ad_common c arid cr p s l ph))"
    by (rule built_of_ad [OF ad_common_plain(2)]) (simp_all add: ad_common_def kinds_def)
  show "vw_session v = sid \<Longrightarrow> of_ad sid arid (''quartile'', y) (built env v ''quartile'' ((''quartile'', y) # ad_common c arid cr p s l ph))"
    by (rule built_of_ad [OF ad_common_plain(3)]) (simp_all add: ad_common_def kinds_def)
qed

lemma quartiles_session:
  "quartiles env common ad_len drop_from i qs prev reached v = (r, v') \<Longrightarrow> vw_session v' = vw_session v"
  by (induction qs arbitrary: i prev reached v) (auto simp: Let_def split: if_splits)

lemma quartiles_log:
  assumes "quartiles env (ad_common c arid cr p s l ph) ad_len drop_from i qs prev reached v = (r, v')" "vw_session v = sid"
  shows "\<exists>es k. emitted v' = emitted v @ es \<and> k \<le> length qs \<and> r = (if k = 0 then reached else i + int k - 1) \<and>
    list_all2 (of_ad sid arid) (map (\<lambda>q. (''quartile'', PStr (fst q))) (take k qs)) es \<and>
    (k = 0 \<longrightarrow> qs = [] \<or> (\<exists>d. drop_from = Some d \<and> d \<le> i))"
  using assms
proof (induction qs arbitrary: i prev reached v)
  case Nil
  then show ?case by simp
next
  case (Cons q qs)
  obtain name fr where q: "q = (name, fr)" by force
  show ?case
  proof (cases "case drop_from of None \<Rightarrow> False | Some d \<Rightarrow> d \<le> i")
    case True
    then show ?thesis using Cons.prems by (auto simp: q split: option.splits intro!: exI [of _ 0])
  next
    case False
    let ?v = "emit_base env ''quartile'' ((''quartile'', PStr name) # ad_common c arid cr p s l ph) True
      (clock_sleep ((fr - prev) * ad_len) v)"
    from Cons.prems(2) have sid: "vw_session ?v = sid" by simp
    from False Cons.prems(1) have "quartiles env (ad_common c arid cr p s l ph) ad_len drop_from (i + 1) qs fr i ?v = (r, v')"
      by (simp add: q Let_def)
    from Cons.IH [OF this sid] obtain es k where es: "emitted v' = emitted ?v @ es" "k \<le> length qs"
      "r = (if k = 0 then i else i + 1 + int k - 1)"
      "list_all2 (of_ad sid arid) (map (\<lambda>q. (''quartile'', PStr (fst q))) (take k qs)) es" by blast
    have e: "of_ad sid arid (''quartile'', PStr name) (built env (clock_sleep ((fr - prev) * ad_len) v) ''quartile''
        ((''quartile'', PStr name) # ad_common c arid cr p s l ph))"
      by (rule common_of_ad) (simp add: Cons.prems(2))
    let ?e = "built env (clock_sleep ((fr - prev) * ad_len) v) ''quartile'' ((''quartile'', PStr name) # ad_common c arid cr p s l ph)"
    have "emitted v' = emitted v @ ?e # es" using es(1) by simp
    moreover have "Suc k \<le> length (q # qs)" "r = (if Suc k = 0 then reached else i + int (Suc k) - 1)" using es(2,3) by simp_all
    moreover have "list_all2 (of_ad sid arid) (map (\<lambda>q. (''quartile'', PStr (fst q))) (take (Suc k) (q # qs))) (?e # es)"
      unfolding q take_Suc_Cons list.map list_all2_Cons fst_conv using e es(4) by (rule conjI)
    ultimately show ?thesis by blast
  qed
qed

lemma ad_play_log:
  assumes "ad_play env (ad_common c arid cr p s l ph) len v = (x, v')" and sid: "vw_session v = sid"
  shows "\<exists>es k cl. emitted v' = emitted v @ es \<and> k \<le> length QUARTILES \<and> (cl \<longrightarrow> 3 \<le> k) \<and>
    (x = None \<longrightarrow> sset (vw_rng v) \<subseteq> {0..} \<longrightarrow> 1 \<le> k) \<and>
    list_all2 (of_ad sid arid) (tl (ad_types (ve_decide env = None) k cl)) es"
proof -
  let ?c = "ad_common c arid cr p s l ph"
  define v1 where "v1 = (if ve_decide env = None then emit_base env ''ad_response'' ((''fill'', PBool True) # ?c) False v else v)"
  obtain s1 v2 where d2: "draw_uniform (1 / 10) (4 / 10) v1 = (s1, v2)" by force
  define v3 where "v3 = emit_base env ''impression'' ?c True (clock_sleep s1 v2)"
  obtain u v4 where d4: "draw v3 = (u, v4)" by force
  obtain df v5 where d5: "(if u < bc_ad_abandon (ve_cfg env) then (let (n, v) = draw_randint 1 4 v4 in (Some n, v))
    else (None, v4)) = (df, v5)" by force
  have df: "emitted v5 = emitted v3"
    using d5 draws_silent(1) [OF d4] by (auto split: if_splits prod.splits dest: draws_silent(5))
  have "vw_session v1 = sid" using sid by (simp add: v1_def)
  moreover have "vw_session v4 = vw_session v3" "vw_session v3 = vw_session v2" "vw_session v2 = vw_session v1"
    using draws_session(2) [OF d2] draws_session(1) [OF d4] by (simp_all add: v3_def)
  moreover have "vw_session v5 = vw_session v4" using d5 by (auto split: if_splits prod.splits dest: draws_session(5))
  ultimately have sess: "vw_session v2 = sid" "vw_session v5 = sid" by simp_all
  obtain e1 where e1: "list_all2 (of_ad sid arid) (if ve_decide env = None then [(''ad_response'', PNone)] else []) e1"
    "emitted v1 = emitted v @ e1"
  proof (cases "ve_decide env = None")
    case True
    then show thesis
      by (intro that [of "[built env v ''ad_response'' ((''fill'', PBool True) # ?c)]"])
        (simp_all add: v1_def common_of_ad sid)
  qed (use that [of "[]"] in \<open>simp add: v1_def\<close>)
  have e3: "emitted v5 = emitted v @ e1 @ [built env (clock_sleep s1 v2) ''impression'' ?c]"
    using df draws_silent(2) [OF d2] e1(2) by (simp add: v3_def)
  have i: "of_ad sid arid (''impression'', PNone) (built env (clock_sleep s1 v2) ''impression'' ?c)"
    by (rule common_of_ad) (simp_all add: kinds_def sess)
  have run: "(case number_of len of None \<Rightarrow> (Some TypeError, v5)
      | Some ad_len \<Rightarrow> (let (reached, v) = quartiles env ?c ad_len df 0 QUARTILES 0 0 v5
        in if 2 \<le> reached then (let (u, v) = draw v in
             (None, if u < bc_click_rate (ve_cfg env) then emit_base env ''click'' ?c True v else v)) else (None, v))) = (x, v')"
    using assms(1) d2 d4 d5 by (simp add: ad_play_def Let_def v1_def v3_def split: prod.splits)
  show ?thesis
  proof (cases "number_of len")
    case None
    with run have r: "x = Some TypeError" "v' = v5" by simp_all
    show ?thesis
      by (intro exI [of _ "e1 @ [built env (clock_sleep s1 v2) ''impression'' ?c]"] exI [of _ 0] exI [of _ False] conjI)
        (use e1 e3 i r in \<open>simp_all add: ad_types_def list_all2_appendI\<close>)
  next
    case (Some ad_len)
    obtain reached v6 where q: "quartiles env ?c ad_len df 0 QUARTILES 0 0 v5 = (reached, v6)" by force
    obtain es k where es: "emitted v6 = emitted v5 @ es" "k \<le> length QUARTILES" "reached = (if k = 0 then 0 else int k - 1)"
      "list_all2 (of_ad sid arid) (map (\<lambda>q. (''quartile'', PStr (fst q))) (take k QUARTILES)) es"
      "k = 0 \<longrightarrow> QUARTILES = [] \<or> (\<exists>d. df = Some d \<and> d \<le> 0)"
      using quartiles_log [OF q sess(2)] by auto
    have k: "1 \<le> k" if "sset (vw_rng v) \<subseteq> {0..}"
    proof -
      have "sset (vw_rng v4) \<subseteq> sset (vw_rng v)"
        using draws_rng(1) [OF d4] draws_rng(2) [OF d2] by (auto simp: v3_def v1_def split: if_splits)
      with that have "0 \<le> shd (vw_rng v4)" using shd_sset [of "vw_rng v4"] by auto
      then show ?thesis
        using es(5) d5 draw_randint_range [of v4] by (cases k) (auto simp: QUARTILES_def split: if_splits prod.splits)
    qed
    define cl where "cl = (2 \<le> reached \<and> fst (draw v6) < bc_click_rate (ve_cfg env))"
    have x: "x = None" using run by (auto simp: Some q split: if_splits prod.splits)
    obtain e7 where e7: "emitted v' = emitted v6 @ e7" "list_all2 (of_ad sid arid) (if cl then [(''click'', PNone)] else []) e7"
    proof (cases cl)
      case True
      obtain u v7 where d7: "draw v6 = (u, v7)" by force
      have "v' = emit_base env ''click'' ?c True v7" using run True by (simp add: Some q cl_def d7)
      moreover have "of_ad sid arid (''click'', PNone) (built env v7 ''click'' ?c)"
        by (rule common_of_ad) (simp_all add: kinds_def draws_session(1) [OF d7] quartiles_session [OF q] sess)
      ultimately show thesis
        using draws_silent(1) [OF d7]
        by (intro that [of "[built env v7 ''click'' ?c]"]) (simp_all add: True)
    next
      case False
      then show thesis
        using run by (intro that [of "[]"]) (auto simp: Some q cl_def split: if_splits prod.splits dest: draws_silent(1))
    qed
    have "3 \<le> k" if cl using that es(3) by (simp add: cl_def split: if_splits)
    then show ?thesis
      by (intro exI [of _ "e1 @ [built env (clock_sleep s1 v2) ''impression'' ?c] @ es @ e7"] exI [of _ k] exI [of _ cl] conjI)
        (use e1 e3 i es(1,2,4) e7 x k in \<open>simp_all add: ad_types_def list_all2_appendI\<close>)
  qed
qed

lemma ad_requested_session: "ad_requested env pod_id slot ph v = (arid, v1) \<Longrightarrow> vw_session v1 = vw_session v"
  by (auto simp: ad_requested_def Let_def viewer_hex_def)

lemma ad_requested_log:
  assumes "ad_requested env pod_id slot ph v = (arid, v1)" "vw_session v = sid"
  shows "\<exists>e. emitted v1 = emitted v @ [e] \<and> of_ad sid arid (''ad_request'', PNone) e" "vw_rng v1 = vw_rng v"
proof -
  obtain h v0 where h: "viewer_hex env 16 v = (h, v0)" by force
  have "of_ad sid arid (''ad_request'', PNone) (built env v0 ''ad_request'' [(''campaign_id'', PStr ''pending''),
      (''ad_request_id'', PStr arid), (''ad_pod_id'', PStr pod_id), (''ad_slot'', PInt slot), (''playhead_s'', PInt ph)])"
    by (rule built_of_ad) (simp_all add: plain_extra_def kinds_def draws_session(6) [OF h] assms(2))
  then show "\<exists>e. emitted v1 = emitted v @ [e] \<and> of_ad sid arid (''ad_request'', PNone) e" "vw_rng v1 = vw_rng v"
    using assms(1) draws_silent(6) [OF h] h by (auto simp: ad_requested_def Let_def viewer_hex_def)
qed

lemma one_ad_log:
  assumes run: "one_ad env pod_id slot playhead v = (x, v')"
    and req: "ad_requested env pod_id slot playhead v = (arid, v1)" and dec: "decide env v1 = (d, v2)"
  shows "\<exists>es. emitted v' = emitted v @ es \<and>
    (if (\<exists>campaign creative len. d = Ad campaign creative len) \<and> bc_drop_impression (ve_cfg env) \<le> fst (draw v2)
     then \<exists>k click. list_all2 (of_ad (vw_session v) arid) (ad_types (ve_decide env = None) k click) es \<and>
       k \<le> length QUARTILES \<and> (click \<longrightarrow> 3 \<le> k) \<and> (x = None \<longrightarrow> sset (vw_rng v) \<subseteq> {0..} \<longrightarrow> 1 \<le> k)
     else list_all2 (of_ad (vw_session v) arid) [(''ad_request'', PNone)] es)"
proof -
  obtain e where e: "emitted v1 = emitted v @ [e]" "of_ad (vw_session v) arid (''ad_request'', PNone) e"
    using ad_requested_log(1) [OF req refl] by blast
  obtain u v3 where u: "draw v2 = (u, v3)" by force
  have e3: "emitted v3 = emitted v @ [e]" "emitted v2 = emitted v @ [e]"
    using draws_silent(1) [OF u] decide_silent [OF dec] e(1) by simp_all
  show ?thesis
  proof (cases "(\<exists>campaign creative len. d = Ad campaign creative len) \<and> bc_drop_impression (ve_cfg env) \<le> fst (draw v2)")
    case False
    then have "emitted v' = emitted v @ [e]"
      using run e3 by (auto simp: one_ad_def req dec u split: decided.splits if_splits)
    then show ?thesis using False e(2) by auto
  next
    case True
    then obtain c cr l where d: "d = Ad c cr l" by blast
    have p: "ad_play env (ad_common c arid cr pod_id slot l playhead) l v3 = (x, v')"
      using run True by (simp add: one_ad_def req dec u d)
    have r: "sset (vw_rng v3) \<subseteq> sset (vw_rng v)"
      using draws_rng(1) [OF u] decide_rng [OF dec] ad_requested_log(2) [OF req refl] by simp
    have "vw_session v3 = vw_session v"
      using draws_session(1) [OF u] decide_session [OF dec] ad_requested_session [OF req] by simp
    from ad_play_log [OF p this] obtain es k click where es: "emitted v' = emitted v3 @ es" "k \<le> length QUARTILES"
      "click \<longrightarrow> 3 \<le> k" "x = None \<longrightarrow> sset (vw_rng v3) \<subseteq> {0..} \<longrightarrow> 1 \<le> k"
      "list_all2 (of_ad (vw_session v) arid) (tl (ad_types (ve_decide env = None) k click)) es" by blast
    have "\<exists>k click. list_all2 (of_ad (vw_session v) arid) (ad_types (ve_decide env = None) k click) (e # es) \<and>
       k \<le> length QUARTILES \<and> (click \<longrightarrow> 3 \<le> k) \<and> (x = None \<longrightarrow> sset (vw_rng v) \<subseteq> {0..} \<longrightarrow> 1 \<le> k)"
      by (rule exI [of _ k], rule exI [of _ click]) (use es r e(2) in \<open>auto simp: ad_types_def\<close>)
    then show ?thesis using True e3 es(1) by (intro exI [of _ "e # es"]) simp
  qed
qed

section \<open>The events of a session\<close>

definition inner :: "string option \<Rightarrow> event \<Rightarrow> bool" where
  "inner sid ev \<longleftrightarrow> in_session sid ev \<and> type_of ev \<notin> {''session_start'', ''session_end'', ''content_end''}"

lemma ad_play_session: "ad_play env common len v = (x, v') \<Longrightarrow> vw_session v' = vw_session v"
  by (auto simp: ad_play_def Let_def dest!: draws_session quartiles_session split: option.splits prod.splits if_splits)

lemma one_ad_session:
  assumes "one_ad env pod_id slot ph v = (x, v')"
  shows "vw_session v' = vw_session v"
  using assms
  by (auto simp: one_ad_def Let_def dest!: ad_requested_session decide_session draws_session ad_play_session
      split: prod.splits decided.splits if_splits)

lemma of_ad_inner:
  assumes "list_all2 (of_ad sid arid) tqs es" "set (map fst tqs) \<inter> {''session_start'', ''session_end'', ''content_end''} = {}"
  shows "list_all (inner sid) es"
  using assms by (induction rule: list_all2_induct) (auto simp: inner_def of_ad_def)

lemma ad_types_inner: "set (map fst (ad_types own k c)) \<inter> {''session_start'', ''session_end'', ''content_end''} = {}"
proof -
  have "fst ` (\<lambda>q. (''quartile'', PStr (fst q))) ` set (take k QUARTILES) \<subseteq> {''quartile''}" by auto
  then show ?thesis by (auto simp: ad_types_def)
qed

lemma one_ad_grows:
  assumes "one_ad env pod_id slot ph v = (x, v')"
  shows "grows (inner (vw_session v)) v v'"
proof -
  obtain arid v1 where req: "ad_requested env pod_id slot ph v = (arid, v1)" by force
  obtain d v2 where dec: "decide env v1 = (d, v2)" by force
  have "list_all (inner (vw_session v)) es" if "list_all2 (of_ad (vw_session v) arid) [(''ad_request'', PNone)] es" for es
    by (rule of_ad_inner [OF that]) simp
  moreover have "list_all (inner (vw_session v)) es" if "list_all2 (of_ad (vw_session v) arid) (ad_types own k c) es" for es own k c
    by (rule of_ad_inner [OF that ad_types_inner])
  ultimately show ?thesis
    using one_ad_log [OF assms req dec] unfolding grows_def by metis
qed

lemma pod_grows:
  "pod env pod_id ph slots v = (x, v') \<Longrightarrow> grows (inner (vw_session v)) v v' \<and> vw_session v' = vw_session v"
proof (induction slots arbitrary: v)
  case Nil
  then show ?case by (simp add: grows_silent)
next
  case (Cons slot slots)
  obtain s v1 where s: "stopped env v = (s, v1)" by force
  note s' = draws_silent(7) [OF s] draws_session(7) [OF s]
  obtain y v2 where o: "one_ad env pod_id slot ph v1 = (y, v2)" by force
  note o' = one_ad_grows [OF o] one_ad_session [OF o]
  have o1: "grows (inner (vw_session v)) v v2" "vw_session v2 = vw_session v"
    using grows_from [OF s'(1) o'(1)] o'(2) s'(2) by simp_all
  show ?case
  proof (cases "s \<or> y \<noteq> None")
    case True
    then have "v' = v1 \<or> v' = v2" using Cons.prems by (auto simp: s o split: if_splits)
    then show ?thesis using s' o1 grows_silent [OF s'(1)] by auto
  next
    case False
    then have "pod env pod_id ph slots v2 = (x, v')" using Cons.prems by (simp add: s o)
    from Cons.IH [OF this] show ?thesis using o1 grows_trans [OF o1(1)] by simp
  qed
qed

lemma ad_break_grows:
  "ad_break env ph v = (x, v') \<Longrightarrow> grows (inner (vw_session v)) v v' \<and> vw_session v' = vw_session v"
proof -
  assume run: "ad_break env ph v = (x, v')"
  obtain n v1 where d1: "draw_choices [(1 :: nat, 45 / 100), (2, 40 / 100), (3, 15 / 100)] v = (n, v1)" by force
  obtain h v2 where d2: "viewer_hex env 10 v1 = (h, v2)" by force
  have "pod env (''pod-'' @ h) ph (map int [0..<n]) v2 = (x, v')" using run by (simp only: ad_break_def d1 d2 prod.case Let_def)
  note p = pod_grows [OF this]
  have v: "emitted v2 = emitted v" "vw_session v2 = vw_session v"
    using draws_silent(4) [OF d1] draws_silent(6) [OF d2] draws_session(4) [OF d1] draws_session(6) [OF d2] by simp_all
  show ?thesis using p grows_from [OF v(1)] by (simp add: v(2))
qed

lemma at_mark_grows:
  assumes "at_mark env m kind p v = (x, v')"
  shows "grows (inner (vw_session v)) v v' \<and> vw_session v' = vw_session v"
proof (cases "kind = ''ping''")
  case True
  let ?extra = "[(''campaign_id'', PStr ''none''), (''playhead_s'', PInt m)]" and ?v = "clock_sleep (of_int m - p) v"
  have e: "plain_extra ?extra" by (simp add: plain_extra_def)
  have "in_session (vw_session ?v) (built env ?v ''progress'' ?extra)"
    by (rule built_client [OF e]) (simp add: kinds_def)
  then have "inner (vw_session v) (built env ?v ''progress'' ?extra)"
    by (simp add: inner_def plain_extra_fields(2) [OF e])
  then show ?thesis using assms True by (auto simp: at_mark_def grows_def)
next
  case False
  then have "ad_break env m (clock_sleep (of_int m - p) v) = (x, v')" using assms by (simp add: at_mark_def)
  from ad_break_grows [OF this] show ?thesis
    using grows_from [of "clock_sleep (of_int m - p) v" v] by simp
qed

text \<open>How a session ends: the end of the loop over the marks, and the events that follow the inner ones.\<close>

definition closing :: "string option \<Rightarrow> loop_end \<Rightarrow> event list \<Rightarrow> bool" where
  "closing sid e fin \<longleftrightarrow> list_all (in_session sid) fin \<and>
     (case e of
        Raised x \<Rightarrow> fin = []
      | Abandoned \<Rightarrow> map type_of fin = [''session_end''] \<and> dget (hd fin) ''reason'' = PStr ''abandon''
      | Over \<Rightarrow> fin = [] \<or> (map type_of fin = [''content_end'', ''session_end''] \<and> dget (fin ! 1) ''reason'' = PStr ''completed''))"

lemma session_end_log:
  "\<exists>f. emitted (session_end_abandon env a v) = emitted v @ [f] \<and> closing (vw_session v) Abandoned [f]"
  "vw_session (session_end_abandon env a v) = vw_session v"
proof -
  let ?extra = "[(''campaign_id'', PStr ''none''), (''playhead_s'', PFloat (py_round 1 a)), (''reason'', PStr ''abandon'')]"
  have e: "plain_extra ?extra" by (simp add: plain_extra_def)
  have "in_session (vw_session v) (built env v ''session_end'' ?extra)"
    by (rule built_client [OF e]) (simp add: kinds_def)
  moreover have "dget (built env v ''session_end'' ?extra) ''reason'' = PStr ''abandon''" by (simp add: dget_def map_of_built)
  ultimately show "\<exists>f. emitted (session_end_abandon env a v) = emitted v @ [f] \<and> closing (vw_session v) Abandoned [f]"
    by (simp del: One_nat_def add: session_end_abandon_def closing_def plain_extra_fields(2) [OF e])
qed (simp add: session_end_abandon_def)

lemma content_over_log:
  "\<exists>fin. emitted (content_over env c v) = emitted v @ fin \<and> closing (vw_session v) Over fin"
proof -
  obtain s v1 where s: "stopped env v = (s, v1)" by force
  note v1 = draws_silent(7) [OF s] draws_session(7) [OF s]
  let ?x1 = "[(''campaign_id'', PStr ''none''), (''playhead_s'', PInt (ct_duration c))]"
  let ?x2 = "[(''campaign_id'', PStr ''none''), (''reason'', PStr ''completed'')]"
  let ?v2 = "emit_base env ''content_end'' ?x1 False v1"
  have e: "plain_extra ?x1" "plain_extra ?x2" by (simp_all add: plain_extra_def)
  have "in_session (vw_session v1) (built env v1 ''content_end'' ?x1)"
    by (rule built_client [OF e(1)]) (simp add: kinds_def)
  moreover have "in_session (vw_session ?v2) (built env ?v2 ''session_end'' ?x2)"
    by (rule built_client [OF e(2)]) (simp add: kinds_def)
  moreover have "dget (built env ?v2 ''session_end'' ?x2) ''reason'' = PStr ''completed''" by (simp add: dget_def map_of_built)
  ultimately have "closing (vw_session v) Over [built env v1 ''content_end'' ?x1, built env ?v2 ''session_end'' ?x2]"
    by (simp add: closing_def plain_extra_fields(2) [OF e(1)] plain_extra_fields(2) [OF e(2)] v1)
  then show ?thesis by (cases s) (auto simp: content_over_def s v1 closing_def)
qed

definition left_by :: "string option \<Rightarrow> rat \<Rightarrow> rat option \<Rightarrow> int set \<Rightarrow> loop_end \<Rightarrow> event list \<Rightarrow> bool" where
  \<comment> \<open>what the loop over the marks \<open>ms\<close> emits on leaving\<close>
  "left_by sid st ab ms e fin \<longleftrightarrow>
     (if e = Abandoned then closing sid Abandoned fin \<and> (\<exists>a m. ab = Some a \<and> m \<in> ms \<and> st \<le> of_int m \<and> a < of_int m)
      else fin = [])"

lemma left_by_mono: "left_by sid st ab ms e fin \<Longrightarrow> ms \<subseteq> ms' \<Longrightarrow> left_by sid st ab ms' e fin"
  unfolding left_by_def by (auto split: if_splits)

lemma content_over_session: "vw_session (content_over env c v) = vw_session v"
  by (auto simp: content_over_def dest: draws_session(7) split: prod.splits)

lemma timeline_log:
  assumes "timeline env st ab ms p v = (e, v')" "vw_session v = sid"
  shows "vw_session v' = sid \<and> (\<exists>mid fin. emitted v' = emitted v @ mid @ fin \<and> list_all (inner sid) mid \<and>
    left_by sid st ab (fst ` set ms) e fin)"
  using assms
proof (induction ms arbitrary: p v)
  case Nil
  then show ?case by (auto simp: left_by_def)
next
  case (Cons mk ms)
  obtain m kind where mk: "mk = (m, kind)" by force
  obtain s v1 where s: "stopped env v = (s, v1)" by force
  have v1: "emitted v1 = emitted v" "vw_session v1 = sid" using draws_silent(7) [OF s] draws_session(7) [OF s] Cons.prems(2) by simp_all
  have up: "fst ` set ms \<subseteq> fst ` set (mk # ms)" by auto
  show ?case
  proof (cases "of_int m < st")
    case True
    with Cons.prems have "timeline env st ab ms p v = (e, v')" by (simp add: mk)
    from Cons.IH [OF this Cons.prems(2)] show ?thesis using left_by_mono [OF _ up] by blast
  next
    case early: False
    show ?thesis
    proof (cases "s \<or> (case ab of None \<Rightarrow> False | Some a \<Rightarrow> a < of_int m)")
      case True
      show ?thesis
      proof (cases s)
        case True
        then have "v' = v1" "e = Over" using Cons.prems(1) early by (simp_all add: mk s)
        then show ?thesis using v1 by (auto simp: left_by_def)
      next
        case False
        with True obtain a where a: "ab = Some a" "a < of_int m" by (auto split: option.splits)
        then have r: "e = Abandoned" "v' = session_end_abandon env a v1"
          using Cons.prems(1) early False by (simp_all add: mk s)
        obtain f where f: "emitted v' = emitted v @ [] @ [f]" "closing sid Abandoned [f]"
          using session_end_log(1) [of env a v1] by (auto simp: r v1)
        have "left_by sid st ab (fst ` set (mk # ms)) e [f]"
          using a early f(2) r by (auto simp: left_by_def mk)
        moreover have "vw_session v' = sid" by (simp add: r v1 session_end_log(2))
        ultimately show ?thesis using f(1) list.pred_inject(1) by blast
      qed
    next
      case go: False
      obtain y v2 where y: "at_mark env m kind p v1 = (y, v2)" by force
      note g = at_mark_grows [OF y, unfolded v1(2)]
      have "grows (inner sid) v v2" using grows_from [OF v1(1)] g by blast
      then obtain es where es: "emitted v2 = emitted v @ es" "list_all (inner sid) es" by (auto simp: grows_def)
      show ?thesis
      proof (cases y)
        case (Some x)
        then have "e = Raised x" "v' = v2" using Cons.prems early go y by (simp_all add: mk s)
        then show ?thesis using es g by (auto simp: left_by_def)
      next
        case None
        then have "timeline env st ab ms (of_int m) v2 = (e, v')" using Cons.prems early go y by (simp add: mk s)
        from Cons.IH [OF this] g obtain mid fin where m': "vw_session v' = sid" "emitted v' = emitted v2 @ mid @ fin"
          "list_all (inner sid) mid" "left_by sid st ab (fst ` set ms) e fin" by blast
        have "emitted v' = emitted v @ (es @ mid) @ fin" "list_all (inner sid) (es @ mid)" using m' es by simp_all
        then show ?thesis using m'(1) left_by_mono [OF m'(4) up] by blast
      qed
    qed
  qed
qed

lemma draw_start_keeps: "draw_start c v = (st, v') \<Longrightarrow> emitted v' = emitted v \<and> vw_session v' = vw_session v"
  by (auto simp: draw_start_def draw_uniform_def draw_def split: if_splits)

lemma draw_abandon_keeps:
  "draw_abandon env c st v = (ab, v') \<Longrightarrow> emitted v' = emitted v \<and> vw_session v' = vw_session v"
  by (auto simp: draw_abandon_def draw_uniform_def draw_def split: if_splits)

lemma watch_log:
  assumes "watch env v = (e, v')"
  shows "vw_session v' = Some (''sess-'' @ take 12 (ve_hex env (vw_uuid v))) \<and>
    (\<exists>s0 mid fin. emitted v' = emitted v @ s0 # mid @ fin \<and> in_session (vw_session v') s0 \<and> type_of s0 = ''session_start'' \<and>
      list_all (inner (vw_session v')) mid \<and> closing (vw_session v') e fin)"
proof -
  define sid where "sid = Some (''sess-'' @ take 12 (ve_hex env (vw_uuid v)))"
  obtain c v1 where b: "begin_session env v = (c, v1)" by force
  have v1: "emitted v1 = emitted v" "vw_session v1 = sid"
    using b by (auto simp: begin_session_def draw_choice_def draw_def viewer_hex_def sid_def split: prod.splits)
  obtain st v2 where d2: "draw_start c v1 = (st, v2)" by force
  have v2: "emitted v2 = emitted v" "vw_session v2 = sid"
    using draw_start_keeps [OF d2] v1 by simp_all
  obtain ab v3 where d3: "draw_abandon env c st v2 = (ab, v3)" by force
  have v3: "emitted v3 = emitted v" "vw_session v3 = sid"
    using draw_abandon_keeps [OF d3] v2 by simp_all
  define v4 where "v4 = session_start env c st v3"
  let ?x = "[(''campaign_id'', PStr ''none''), (''content_kind'', PStr (ct_kind c)), (''playhead_s'', PFloat (py_round 1 st))]"
  let ?s0 = "built env v3 ''session_start'' ?x"
  have x: "plain_extra ?x" by (simp add: plain_extra_def)
  have s0: "in_session sid ?s0" "type_of ?s0 = ''session_start''"
    using built_client [OF x, of "''session_start''" v3 env] v3(2) plain_extra_fields(2) [OF x] by (simp_all add: kinds_def)
  have v4: "emitted v4 = emitted v @ [?s0]" "vw_session v4 = sid" by (simp_all add: v4_def session_start_def v3)
  obtain e' v5 where t: "timeline env st ab (marks c) st v4 = (e', v5)" by force
  from timeline_log [OF t v4(2)] obtain mid fin where
    v5: "vw_session v5 = sid" "emitted v5 = emitted v @ ?s0 # mid @ fin" "list_all (inner sid) mid"
      "left_by sid st ab (fst ` set (marks c)) e' fin"
    using v4(1) by auto
  have w: "watch env v = (case e' of Over \<Rightarrow> (e', content_over env c v5) | _ \<Rightarrow> (e', v5))"
    by (simp add: watch_def b d2 d3 v4_def [symmetric] t)
  then have e: "e = e'" "v' = (if e' = Over then content_over env c v5 else v5)" using assms by (simp_all split: loop_end.splits)
  have "vw_session v' = sid \<and> (\<exists>fin. emitted v' = emitted v @ ?s0 # mid @ fin \<and> closing sid e fin)"
  proof (cases "e' = Over")
    case True
    with v5(4) have "fin = []" by (simp add: left_by_def)
    with True show ?thesis using content_over_log [of env c v5] content_over_session [of env c v5] e v5 by auto
  next
    case False
    then show ?thesis using e v5 by (cases e') (auto simp: left_by_def closing_def)
  qed
  with s0 v5(3) show ?thesis unfolding sid_def [symmetric] by blast
qed

lemma in_session_client: "in_session sid ev \<Longrightarrow> client_event ev"
  by (simp add: in_session_def)

lemma watch_client: "watch env v = (e, v') \<Longrightarrow> grows client_event v v'"
  using watch_log [of env v e v']
  by (fastforce simp: grows_def inner_def closing_def list_all_iff in_session_def)

lemma run_sessions_client: "run_sessions n env v = (x, v') \<Longrightarrow> grows client_event v v'"
proof (induction n arbitrary: v)
  case 0
  then show ?case by (simp add: grows_silent)
next
  case (Suc n)
  obtain s v1 where s: "stopped env v = (s, v1)" by force
  obtain e v2 where w: "watch env v1 = (e, v2)" by force
  obtain d v3 where d: "draw_uniform 5 60 v2 = (d, v3)" by force
  have 2: "grows client_event v v2" using grows_from [OF draws_silent(7) [OF s] watch_client [OF w]] .
  have 3: "emitted (clock_sleep d v3) = emitted v2" using draws_silent(2) [OF d] by simp
  show ?case
  proof (cases "s \<or> (\<exists>y. e = Raised y)")
    case True
    then show ?thesis using Suc.prems 2 draws_silent(7) [OF s] by (auto simp: s w grows_silent split: if_splits)
  next
    case False
    then have "run_sessions n env (clock_sleep d v3) = (x, v')" using Suc.prems by (cases e) (simp_all add: s w d)
    from grows_trans [OF 2 grows_from [OF 3 Suc.IH [OF this]]] show ?thesis .
  qed
qed

text \<open>C18: the events of one ad.  Everything one call of \<open>one_ad\<close> emits carries the same new ad request id.
  Without a decision, with a no-fill, or when the player drops the ad, that is the request alone.  Otherwise it is the
  request, the response where the generator decides itself, one impression, the quartiles in their order up to the
  \<open>k\<close>-th, and at most one click, which needs the midpoint.  The start quartile always plays.\<close>

theorem one_ad_one_story:
  assumes run: "one_ad env pod_id slot playhead v = (x, v')"
    and req: "ad_requested env pod_id slot playhead v = (arid, v1)" and dec: "decide env v1 = (d, v2)"
  shows "\<exists>es. emitted v' = emitted v @ es \<and>
    (if (\<exists>campaign creative len. d = Ad campaign creative len) \<and> bc_drop_impression (ve_cfg env) \<le> fst (draw v2)
     then \<exists>k click. list_all2 (of_ad (vw_session v) arid) (ad_types (ve_decide env = None) k click) es \<and>
       k \<le> length QUARTILES \<and> (click \<longrightarrow> 3 \<le> k) \<and> (x = None \<longrightarrow> sset (vw_rng v) \<subseteq> {0..} \<longrightarrow> 1 \<le> k)
     else list_all2 (of_ad (vw_session v) arid) [(''ad_request'', PNone)] es)"
  by (rule one_ad_log [OF run req dec])

lemma viewer_events_client:
  "list_all client_event (emitted (snd (viewer_run n env (new_viewer rng))))"
proof -
  have "emitted (new_viewer rng) = []"
    by (simp add: new_viewer_def emitted_def draw_choices_def draw_def)
  moreover obtain d v where d: "draw_uniform 0 3 (new_viewer rng) = (d, v)" by force
  moreover obtain x v' where r: "run_sessions n env v = (x, v')" by force
  ultimately show ?thesis
    using run_sessions_client [OF r] draws_silent(2) [OF d] by (auto simp: grows_def viewer_run_def)
qed

text \<open>C21: whatever the draws, the clock, the stop event and the answers of ad-decision are, every event a viewer hands
  to the emitter has every field the collector requires, an integer time, a type the collector routes, and the source
  \<open>client\<close>.\<close>

theorem viewer_events_well_formed:
  "list_all client_event (emitted (snd (viewer_run n env (new_viewer rng))))"
  by (rule viewer_events_client)


text \<open>A viewer who leaves after the last mark is treated like one who stays to the end: the session is reported as
  completed.\<close>

theorem abandonment_after_last_mark_is_ignored:
  assumes "list_all (\<lambda>(m, kind). of_int m \<le> a) ms"
  shows "timeline env st (Some a) ms p v = timeline env st None ms p v"
  using assms
  by (induction ms arbitrary: p v) (auto split: prod.splits option.splits)

section \<open>Witnesses\<close>

definition demo_viewer_env :: viewer_env where
  "demo_viewer_env = \<lparr>ve_uid = ''user-000000'',
     ve_cfg = \<lparr>bc_abandon = 20 / 100, bc_ad_abandon = 8 / 100, bc_click_rate = 10 / 100, bc_drop_impression = 0\<rparr>,
     ve_hex = (\<lambda>n. ''0123456789abcdef''), ve_now = (\<lambda>n. 1000 * int n), ve_stop = (\<lambda>n. 8 \<le> n), ve_decide = None\<rparr>"

definition demo_viewer :: viewer where
  "demo_viewer = new_viewer (sconst (1 / 2))"

lemma demo_viewer_env [simp]:
  "ve_decide demo_viewer_env = None" "ve_hex demo_viewer_env n = ''0123456789abcdef''" "bc_drop_impression (ve_cfg demo_viewer_env) = 0"
  by (simp_all add: demo_viewer_env_def)

lemma one_ad_one_story_witness:
  "\<exists>es k click. emitted (snd (one_ad demo_viewer_env ''pod-1'' 0 600 demo_viewer)) = emitted demo_viewer @ es \<and>
     k \<le> 5 \<and> list_all2 (of_ad (vw_session demo_viewer) ''req-0123456789abcdef'') (ad_types True k click) es"
proof -
  obtain x v' where run: "one_ad demo_viewer_env ''pod-1'' 0 600 demo_viewer = (x, v')" by force
  obtain arid v1 where req: "ad_requested demo_viewer_env ''pod-1'' 0 600 demo_viewer = (arid, v1)" by force
  have v1: "arid = ''req-0123456789abcdef''" "vw_rng v1 = sconst (1 / 2)"
    using req by (auto simp: ad_requested_def viewer_hex_def Let_def demo_viewer_def new_viewer_def draw_choices_def draw_def)
  obtain d v2 where dec: "decide demo_viewer_env v1 = (d, v2)" by force
  have d: "\<exists>campaign creative len. d = Ad campaign creative len" "vw_rng v2 = sconst (1 / 2)"
    using dec v1(2) by (auto simp: decide_def draw_choices_def draw_choice_def draw_def Let_def)
  have q: "length QUARTILES = 5" by (simp add: QUARTILES_def)
  obtain es where es: "emitted v' = emitted demo_viewer @ es" "\<exists>k click. list_all2 (of_ad (vw_session demo_viewer) arid)
      (ad_types True k click) es \<and> k \<le> length QUARTILES"
    using one_ad_one_story [OF run req dec] d by (auto simp: draw_def)
  obtain k click where "list_all2 (of_ad (vw_session demo_viewer) arid) (ad_types True k click) es" "k \<le> 5"
    using es(2) unfolding q by iprover
  then show ?thesis
    unfolding v1(1) run snd_conv using es(1) by iprover
qed


end
