(* ===== verification/Traffic.thy ===== *)
theory Traffic
  imports Viewer
begin

text \<open>
  The traffic simulator's main program (\<open>generator/main.py\<close>): its options, the control of the playback speed that
  follows the target rate, the burst cycle, and the viewers working on one emitter.

  A second of the reporter is the list of what the counters recorded in it.  A turn of the burst cycle is three answers:
  whether the stop event was set at the loop's test, during the wait of the sending phase, and during the wait of the
  pause.
\<close>

section \<open>Options\<close>

definition MODE_EPS :: "(string \<times> int) list" where
  "MODE_EPS = [(''normal'', 200), (''live'', 2000), (''burst'', 200)]"

definition EPS_PER_USER_PER_CONTENT_SEC :: rat where
  "EPS_PER_USER_PER_CONTENT_SEC = 55 / 1000"

definition BehaviorConfig :: behavior where
  \<comment> \<open>the defaults\<close>
  "BehaviorConfig = \<lparr>bc_abandon = 20 / 100, bc_ad_abandon = 8 / 100, bc_click_rate = 10 / 100, bc_drop_impression = 0\<rparr>"

record args =
  ar_mode :: string
  ar_users :: int
  ar_duration :: int
  ar_eps :: int
  ar_late :: rat
  ar_dup :: rat
  ar_bad :: rat
  ar_forge :: rat
  ar_ssai :: rat
  ar_abandon :: rat
  ar_ad_abandon :: rat
  ar_click_rate :: rat
  ar_drop_impression :: rat
  ar_pixel_ratio :: rat
  ar_batch_size :: int
  ar_flush_ms :: int
  ar_burst_pause :: int
  ar_burst_period :: int

definition default_args :: args where
  "default_args = \<lparr>ar_mode = ''normal'', ar_users = 200, ar_duration = 60, ar_eps = 0, ar_late = 10 / 100, ar_dup = 5 / 100,
     ar_bad = 1 / 100, ar_forge = 1 / 100, ar_ssai = 3 / 100, ar_abandon = 20 / 100, ar_ad_abandon = 8 / 100,
     ar_click_rate = 10 / 100, ar_drop_impression = 0, ar_pixel_ratio = 15 / 100, ar_batch_size = 200, ar_flush_ms = 100,
     ar_burst_pause = 10, ar_burst_period = 30\<rparr>"

definition target_eps :: "args \<Rightarrow> int result" where
  "target_eps a = (if ar_eps a \<noteq> 0 then Inr (ar_eps a)
     else (case map_of MODE_EPS (ar_mode a) of None \<Rightarrow> Inl (KeyError (ar_mode a)) | Some n \<Rightarrow> Inr n))"

definition initial_speed :: "args \<Rightarrow> int \<Rightarrow> rat" where
  "initial_speed a target =
     max (of_int target / max (of_int (ar_users a) * EPS_PER_USER_PER_CONTENT_SEC) (1 / 100)) (1 / 10)"

definition viewer_config :: "args \<Rightarrow> behavior" where
  "viewer_config a = \<lparr>bc_abandon = ar_abandon a, bc_ad_abandon = ar_ad_abandon a, bc_click_rate = ar_click_rate a,
     bc_drop_impression = ar_drop_impression a\<rparr>"

definition emitter_config :: "args \<Rightarrow> (nat \<Rightarrow> string) \<Rightarrow> config" where
  "emitter_config a hex =
     \<lparr>cf_anom = \<lparr>an_late = ar_late a, an_dup = ar_dup a, an_bad = ar_bad a, an_forge = ar_forge a, an_ssai = ar_ssai a\<rparr>,
      cf_pixel_ratio = ar_pixel_ratio a, cf_batch_size = ar_batch_size a, cf_hex = hex\<rparr>"

definition viewer_uid :: "nat \<Rightarrow> string" where
  \<comment> \<open>\<open>f"user-{i:06d}"\<close>\<close>
  "viewer_uid i = ''user-'' @ replicate (6 - length (dec_nat i)) (CHR ''0'') @ dec_nat i"

definition viewers :: "args \<Rightarrow> (nat \<Rightarrow> nat \<Rightarrow> string) \<Rightarrow> (nat \<Rightarrow> nat \<Rightarrow> int) \<Rightarrow> (nat \<Rightarrow> nat \<Rightarrow> bool) \<Rightarrow>
    (nat \<Rightarrow> nat \<Rightarrow> dict option) option \<Rightarrow> viewer_env list" where
  \<comment> \<open>each viewer with the uuids, readings, checks and answers it gets\<close>
  "viewers a hex now stop decider =
     map (\<lambda>i. \<lparr>ve_uid = viewer_uid i, ve_cfg = viewer_config a, ve_hex = hex i, ve_now = now i, ve_stop = stop i,
         ve_decide = map_option (\<lambda>d. d i) decider\<rparr>)
       [0..<nat (ar_users a)]"

section \<open>Speed control\<close>

definition real_sleep :: "rat \<Rightarrow> rat \<Rightarrow> rat" where
  \<comment> \<open>seconds the clock sleeps for content seconds\<close>
  "real_sleep speed content_seconds = content_seconds / max speed (1 / 100)"

definition corrected_speed :: "int \<Rightarrow> int \<Rightarrow> rat \<Rightarrow> rat" where
  "corrected_speed target sent speed =
     (let actual = max sent 1;
          ratio = of_int target / of_int actual;
          ratio = min (max ratio (1 / 2)) 2
      in min (max (speed * (1 + 35 / 100 * (ratio - 1))) (5 / 100)) 5000)"

record reporter =
  rp_tick :: nat
  rp_speed :: rat
  rp_stats :: stats

definition report_turn :: "int \<Rightarrow> reporter \<Rightarrow> (counter \<times> int \<times> rat result) \<times> reporter" where
  \<comment> \<open>one second without a stop: what the line shows, and the new state\<close>
  "report_turn target r =
     (let tick = Suc (rp_tick r); sent_this_sec = st_window (rp_stats r) ''sent'';
          (shown, st) = stats_line (rp_stats r)
      in (shown, \<lparr>rp_tick = tick,
            rp_speed = (if 2 < tick then corrected_speed target sent_this_sec (rp_speed r) else rp_speed r),
            rp_stats = st\<rparr>))"

fun reporter_loop :: "int \<Rightarrow> stats_op list list \<Rightarrow> reporter \<Rightarrow> reporter" where
  \<comment> \<open>the seconds before the stop\<close>
  "reporter_loop target [] r = r"
| "reporter_loop target (ops # secs) r =
     reporter_loop target secs (snd (report_turn target (r\<lparr>rp_stats := snd (stats_run ops (rp_stats r))\<rparr>)))"

section \<open>Burst cycle\<close>

definition burst_run_s :: "args \<Rightarrow> int" where
  "burst_run_s a = max (ar_burst_period a - ar_burst_pause a) 1"

fun burst_cycle :: "args \<Rightarrow> (bool \<times> bool \<times> bool) list \<Rightarrow> emitter \<Rightarrow> (int \<times> bool) list \<times> emitter" where
  \<comment> \<open>the waits, each with the emitter's paused flag, and the emitter\<close>
  "burst_cycle a [] e = ([], e)"
| "burst_cycle a ((set_now, stop_run, stop_pause) # turns) e =
     (if set_now then ([], e)
      else if stop_run then ([(burst_run_s a, em_paused e)], e)
      else (let p = em_pause e in
        if stop_pause then ([(burst_run_s a, em_paused e), (ar_burst_pause a, True)], p)
        else (let (ws, e') = burst_cycle a turns (em_resume p)
              in ((burst_run_s a, em_paused e) # (ar_burst_pause a, True) # ws, e'))))"

section \<open>Lemmas\<close>

lemma target_eps_default: "target_eps default_args = Inr 200" "initial_speed default_args 200 = 200 / 11"
  by (simp_all add: target_eps_def default_args_def MODE_EPS_def initial_speed_def EPS_PER_USER_PER_CONTENT_SEC_def)

lemma default_viewers: "viewer_config default_args = BehaviorConfig"
  by (simp add: viewer_config_def default_args_def BehaviorConfig_def)

lemma undec_pad: "undec (replicate k (CHR ''0'') @ s) = undec s"
  by (induction k) (simp_all add: undec_def digit_val_def)

lemma viewer_uid_inj: "viewer_uid i = viewer_uid j \<Longrightarrow> i = j"
  using undec_pad by (metis viewer_uid_def undec_dec_nat append_same_eq same_append_eq)

lemma viewers_distinct: "distinct (map ve_uid (viewers a hex now stop decider))"
  by (auto simp: viewers_def distinct_map inj_on_def dest: viewer_uid_inj)

text \<open>The burst cycle only toggles the flag, and pauses exactly in every second wait.\<close>

lemma burst_cycle_waits:
  "burst_cycle a turns e = (ws, e') \<Longrightarrow> \<not> em_paused e \<Longrightarrow>
     (\<exists>b. e' = e\<lparr>em_paused := b\<rparr>) \<and>
     ws = take (length ws) (concat (replicate (length turns) [(burst_run_s a, False), (ar_burst_pause a, True)]))"
proof (induction turns arbitrary: ws e e')
  case Nil
  then have "e' = e\<lparr>em_paused := em_paused e\<rparr>" by simp
  with Nil show ?case by auto
next
  case (Cons turn turns)
  obtain n r p where turn: "turn = (n, r, p)" by (cases turn)
  show ?case
  proof (cases "n \<or> r \<or> p")
    case True
    then have "e' = e\<lparr>em_paused := em_paused e\<rparr> \<or> e' = e\<lparr>em_paused := True\<rparr>"
      using Cons.prems(1) by (auto simp: turn em_pause_def split: if_splits)
    then have "\<exists>b. e' = e\<lparr>em_paused := b\<rparr>" by (elim disjE) (rule exI, assumption)+
    moreover have "ws = take (length ws) (concat (replicate (length (turn # turns)) [(burst_run_s a, False), (ar_burst_pause a, True)]))"
      using True Cons.prems by (auto simp: turn em_pause_def split: if_splits)
    ultimately show ?thesis by (rule conjI)
  next
    case False
    obtain ws1 e1 where b: "burst_cycle a turns (em_resume (em_pause e)) = (ws1, e1)" by force
    have "\<not> em_paused (em_resume (em_pause e))" by (simp add: em_resume_def)
    from Cons.IH [OF b this] False Cons.prems b show ?thesis
      by (auto simp: turn em_resume_def em_pause_def)
  qed
qed

definition speed_ratio :: "int \<Rightarrow> int \<Rightarrow> rat" where
  \<comment> \<open>target over what was sent\<close>
  "speed_ratio target sent = of_int target / of_int (max sent 1)"

lemma corrected_speed_eq:
  "corrected_speed t sent s =
     min (max (s * (1 + 35 / 100 * (min (max (speed_ratio t sent) (1 / 2)) 2 - 1))) (5 / 100)) 5000"
  by (simp add: corrected_speed_def speed_ratio_def Let_def)

lemma corrected_speed_range: "1 / 20 \<le> corrected_speed t sent s" "corrected_speed t sent s \<le> 5000"
  by (simp_all add: corrected_speed_eq)

text \<open>One correction moves the speed over 35 percent of the way to the speed that would have met the target.\<close>

lemma corrected_speed_gap:
  assumes best: "1 / 20 \<le> best" "best \<le> 5000" and r: "1 / 2 \<le> speed_ratio t sent" "speed_ratio t sent \<le> 2"
    and est: "\<bar>s * speed_ratio t sent - best\<bar> \<le> d"
  shows "\<bar>corrected_speed t sent s - best\<bar> \<le> 65 / 100 * \<bar>s - best\<bar> + 35 / 100 * d"
proof -
  define q where "q = s * speed_ratio t sent"
  define s' where "s' = s * (1 + 35 / 100 * (speed_ratio t sent - 1))"
  have "s' - best = 65 / 100 * (s - best) + 35 / 100 * (q - best)"
    by (simp add: s'_def q_def field_simps)
  then have "\<bar>s' - best\<bar> \<le> \<bar>65 / 100 * (s - best)\<bar> + \<bar>35 / 100 * (q - best)\<bar>"
    by (simp only: abs_triangle_ineq)
  then have "\<bar>s' - best\<bar> \<le> 65 / 100 * \<bar>s - best\<bar> + 35 / 100 * \<bar>q - best\<bar>" unfolding abs_mult by simp
  moreover have "\<bar>q - best\<bar> \<le> d" using est by (simp add: q_def)
  ultimately have 1: "\<bar>s' - best\<bar> \<le> 65 / 100 * \<bar>s - best\<bar> + 35 / 100 * d" by simp
  have "corrected_speed t sent s = min (max s' (1 / 20)) 5000"
    unfolding corrected_speed_eq max_absorb1 [OF r(1)] min_absorb1 [OF r(2)] s'_def by simp
  then have "\<bar>corrected_speed t sent s - best\<bar> \<le> \<bar>s' - best\<bar>"
    using best by (auto simp: min_def max_def)
  from this 1 show ?thesis by (rule order_trans)
qed

definition second_done :: "stats_op list \<Rightarrow> reporter \<Rightarrow> reporter" where
  "second_done ops r = r\<lparr>rp_stats := snd (stats_run ops (rp_stats r))\<rparr>"

definition second_ratio :: "int \<Rightarrow> stats_op list \<Rightarrow> reporter \<Rightarrow> rat" where
  "second_ratio target ops r = speed_ratio target (st_window (rp_stats (second_done ops r)) ''sent'')"

lemma report_turn_speed:
  "rp_speed (snd (report_turn t (second_done ops r))) =
     (if 2 \<le> rp_tick r then corrected_speed t (st_window (rp_stats (second_done ops r)) ''sent'') (rp_speed r) else rp_speed r)"
  "rp_tick (snd (report_turn t (second_done ops r))) = Suc (rp_tick r)"
  by (auto simp: report_turn_def second_done_def Let_def split: prod.splits)

lemma reporter_loop_Cons:
  "reporter_loop t (ops # secs) r = reporter_loop t secs (snd (report_turn t (second_done ops r)))"
  by (simp add: second_done_def)

lemma reporter_loop_range:
  "1 / 20 \<le> rp_speed r \<and> rp_speed r \<le> 5000 \<Longrightarrow>
     1 / 20 \<le> rp_speed (reporter_loop t secs r) \<and> rp_speed (reporter_loop t secs r) \<le> 5000"
proof (induction secs arbitrary: r)
  case (Cons ops secs)
  have "1 / 20 \<le> rp_speed (snd (report_turn t (second_done ops r))) \<and> rp_speed (snd (report_turn t (second_done ops r))) \<le> 5000"
    using Cons.prems corrected_speed_range by (simp add: report_turn_speed)
  from Cons.IH [OF this] show ?case by (simp only: reporter_loop_Cons)
qed simp

fun on_track :: "int \<Rightarrow> rat \<Rightarrow> rat \<Rightarrow> stats_op list list \<Rightarrow> reporter \<Rightarrow> bool" where
  \<comment> \<open>in each second the rate is within a factor two of the target, and the speed the count calls for is within \<open>d\<close> of
    \<open>best\<close>\<close>
  "on_track t best d [] r = True"
| "on_track t best d (ops # secs) r =
     (1 / 2 \<le> second_ratio t ops r \<and> second_ratio t ops r \<le> 2 \<and> \<bar>rp_speed r * second_ratio t ops r - best\<bar> \<le> d \<and>
      on_track t best d secs (snd (report_turn t (second_done ops r))))"

lemma reporter_loop_settles:
  assumes "1 / 20 \<le> best" "best \<le> 5000" "2 \<le> rp_tick r" "on_track target best d secs r"
  shows "\<bar>rp_speed (reporter_loop target secs r) - best\<bar> \<le>
    (65 / 100) ^ length secs * \<bar>rp_speed r - best\<bar> + (1 - (65 / 100) ^ length secs) * d"
  using assms(3,4)
proof (induction secs arbitrary: r)
  case (Cons ops secs)
  let ?r = "snd (report_turn target (second_done ops r))" and ?k = "(65 / 100) ^ length secs :: rat"
  have "\<bar>rp_speed ?r - best\<bar> \<le> 65 / 100 * \<bar>rp_speed r - best\<bar> + 35 / 100 * d"
    using Cons.prems corrected_speed_gap [OF assms(1,2)] by (simp add: report_turn_speed second_ratio_def)
  then have "?k * \<bar>rp_speed ?r - best\<bar> \<le> ?k * (65 / 100 * \<bar>rp_speed r - best\<bar> + 35 / 100 * d)"
    by (rule mult_left_mono) simp
  moreover have "\<bar>rp_speed (reporter_loop target secs ?r) - best\<bar> \<le> ?k * \<bar>rp_speed ?r - best\<bar> + (1 - ?k) * d"
    using Cons.IH [of ?r] Cons.prems by (simp add: report_turn_speed(2))
  moreover have "?k * (65 / 100 * \<bar>rp_speed r - best\<bar> + 35 / 100 * d) + (1 - ?k) * d =
      (65 / 100) ^ length (ops # secs) * \<bar>rp_speed r - best\<bar> + (1 - (65 / 100) ^ length (ops # secs)) * d"
    by (simp add: field_simps)
  ultimately show ?case by (simp only: reporter_loop_Cons)
qed simp

text \<open>C39: the reporter steers the playback speed to the speed that meets the target rate: if in every second the count
  asks for a speed within \<open>d\<close> of \<open>best\<close>, the distance to \<open>best\<close> shrinks by the factor 0.65 a second down to \<open>d\<close>.
  Whatever is counted, the speed stays within 0.05 and 5000.\<close>

theorem reporter_settles:
  assumes "2 \<le> rp_tick r" "1 / 20 \<le> best" "best \<le> 5000" "on_track target best d secs r"
    and "1 / 20 \<le> rp_speed r" "rp_speed r \<le> 5000"
  shows "\<bar>rp_speed (reporter_loop target secs r) - best\<bar> \<le>
      (65 / 100) ^ length secs * \<bar>rp_speed r - best\<bar> + (1 - (65 / 100) ^ length secs) * d \<and>
    1 / 20 \<le> rp_speed (reporter_loop target secs r) \<and> rp_speed (reporter_loop target secs r) \<le> 5000"
  using reporter_loop_settles [OF assms(2,3,1,4)] reporter_loop_range [of r target secs] assms(5,6) by blast

definition demo_reporter :: reporter where
  "demo_reporter = \<lparr>rp_tick = 2, rp_speed = 10, rp_stats = stats_init\<rparr>"

lemma reporter_settles_witness:
  "\<bar>rp_speed (reporter_loop 200 [[Bump ''sent'' 125], [Bump ''sent'' 150, Bump ''fail'' 1]] demo_reporter) - 16\<bar> \<le>
     249 / 80"
proof -
  have "on_track 200 16 1 [[Bump ''sent'' 125], [Bump ''sent'' 150, Bump ''fail'' 1]] demo_reporter"
    by (simp add: demo_reporter_def second_ratio_def second_done_def speed_ratio_def report_turn_def stats_line_def
        snapshot_def stats_init_def bump_def counter_add_def corrected_speed_def Let_def max_def min_def)
  moreover have "2 \<le> rp_tick demo_reporter" "rp_speed demo_reporter = 10" by (simp_all add: demo_reporter_def)
  ultimately show ?thesis
    using reporter_settles [of demo_reporter 16 200 1 "[[Bump ''sent'' 125], [Bump ''sent'' 150, Bump ''fail'' 1]]"]
    by (simp del: reporter_loop.simps on_track.simps)
qed

section \<open>Viewers and the emitter\<close>

text \<open>Nothing a viewer emits can raise in the emitter, in whatever state the other tasks left it, so a viewer's task
  ends by its own exceptions only.\<close>

theorem viewers_never_break_the_emitter:
  "list_all (\<lambda>ev. fst (emit cfg ev allow_pixel e) = None) (emitted (snd (viewer_run n env (new_viewer rng))))"
proof -
  have "fst (emit cfg ev allow_pixel e) = None" if "client_event ev" for ev
  proof -
    obtain x e' where r: "emit cfg ev allow_pixel e = (x, e')" by force
    have "well_formed ev" using that by (simp add: client_event_def)
    from emit_cases [OF this r] show ?thesis using r by auto
  qed
  then show ?thesis
    using viewer_events_client [of n env rng] by (rule list.pred_mono_strong [rotated]) blast
qed

end
