(* ===== verification/Simulator.thy ===== *)
theory Simulator
  imports Traffic
begin

text \<open>
  The run of the traffic simulator (\<open>main\<close> of \<open>generator/main.py\<close>): the tasks it starts on one emitter, in any
  interleaving, then the stop, and the closing of the emitter.

  A step is what one task does between two awaits.  A viewer's task is the list of what it still hands to the emitter,
  from the draw that seeds its generator; when it sees the stop event is among its inputs, so its list may be longer or
  shorter than the run.  The viewer's sleeps and the flush interval only decide the interleaving, which is left open.
\<close>

section \<open>State\<close>

record simulation =
  sm_args :: args
  sm_hex :: "nat \<Rightarrow> string"
  sm_seeded :: "rat \<Rightarrow> rat stream"
  sm_sessions :: nat
  sm_viewer_hex :: "nat \<Rightarrow> nat \<Rightarrow> string"
  sm_now :: "nat \<Rightarrow> nat \<Rightarrow> int"
  sm_stopped :: "nat \<Rightarrow> nat \<Rightarrow> bool"
  sm_decider :: "(nat \<Rightarrow> nat \<Rightarrow> dict option) option"
  \<comment> \<open>options, the emitter's uuids, the generator of a seed, the sessions observed of a viewer; each viewer's uuids,
     clock readings, checks of the stop event, and answers of ad-decision\<close>

datatype phase = Running | Draining | Failed exn | Ended

record traffic =
  tf_em :: emitter
  tf_tick :: nat
  tf_speed :: rat
  tf_flushing :: bool
  tf_stop :: bool
  tf_started :: nat
  tf_todo :: "nat \<Rightarrow> (event \<times> bool) list"
  tf_phase :: phase
  tf_handed :: "(nat \<times> event) list"
  tf_dropped :: nat
  \<comment> \<open>the last two serve the statements: what the viewers handed over, and the retransmissions waiting at the stop\<close>

definition sim_cfg :: "simulation \<Rightarrow> config" where
  "sim_cfg sim = emitter_config (sm_args sim) (sm_hex sim)"

definition sim_users :: "simulation \<Rightarrow> viewer_env list" where
  "sim_users sim = viewers (sm_args sim) (sm_viewer_hex sim) (sm_now sim) (sm_stopped sim) (sm_decider sim)"

definition traffic_init :: "simulation \<Rightarrow> int \<Rightarrow> rat stream \<Rightarrow> traffic" where
  "traffic_init sim target rng =
     \<lparr>tf_em = em_init rng, tf_tick = 0, tf_speed = initial_speed (sm_args sim) target, tf_flushing = True, tf_stop = False,
      tf_started = 0, tf_todo = (\<lambda>i. []), tf_phase = Running, tf_handed = [], tf_dropped = 0\<rparr>"

section \<open>Steps\<close>

definition handings :: "viewer \<Rightarrow> (event \<times> bool) list" where
  \<comment> \<open>the calls of \<open>emit\<close>, in order\<close>
  "handings v = concat (map (\<lambda>a. case a of Emit ev ap \<Rightarrow> [(ev, ap)] | Sleep s \<Rightarrow> []) (vw_log v))"

definition viewer_task :: "simulation \<Rightarrow> nat \<Rightarrow> rat \<Rightarrow> (event \<times> bool) list" where
  "viewer_task sim i seed =
     handings (snd (viewer_run (sm_sessions sim) (sim_users sim ! i) (new_viewer (sm_seeded sim seed))))"

definition start_viewer :: "simulation \<Rightarrow> traffic \<Rightarrow> traffic" where
  \<comment> \<open>\<open>random.Random(rng.random())\<close> draws from the emitter's generator\<close>
  "start_viewer sim t =
     (let i = tf_started t; (u, e) = rand (tf_em t)
      in t\<lparr>tf_em := e, tf_started := Suc i, tf_todo := (tf_todo t)(i := viewer_task sim i u)\<rparr>)"

definition hand_over :: "simulation \<Rightarrow> nat \<Rightarrow> traffic \<Rightarrow> traffic" where
  \<comment> \<open>an exception ends the viewer's task\<close>
  "hand_over sim i t =
     (case tf_todo t i of
        [] \<Rightarrow> t
      | (ev, ap) # rest \<Rightarrow>
          (let (x, e) = emit (sim_cfg sim) ev ap (tf_em t)
           in t\<lparr>tf_em := e, tf_todo := (tf_todo t)(i := (if x = None then rest else [])),
                tf_handed := tf_handed t @ [(i, ev)]\<rparr>))"

definition flush_turn :: "simulation \<Rightarrow> traffic \<Rightarrow> traffic" where
  \<comment> \<open>a turn of \<open>flush_loop\<close>; an exception ends its task\<close>
  "flush_turn sim t =
     (let (x, e) = em_flush (sim_cfg sim) False (tf_em t) in t\<lparr>tf_em := e, tf_flushing := (x = None)\<rparr>)"

definition report :: "int \<Rightarrow> traffic \<Rightarrow> traffic" where
  "report target t =
     (let (shown, r) = report_turn target \<lparr>rp_tick = tf_tick t, rp_speed = tf_speed t, rp_stats = em_stats (tf_em t)\<rparr>
      in t\<lparr>tf_em := (tf_em t)\<lparr>em_stats := rp_stats r\<rparr>, tf_tick := rp_tick r, tf_speed := rp_speed r\<rparr>)"

definition ask_ad :: "http_reply \<Rightarrow> rat \<Rightarrow> traffic \<Rightarrow> traffic" where
  "ask_ad reply ms t =
     t\<lparr>tf_em := (tf_em t)\<lparr>em_stats := snd (ad_decision_request reply ms (em_stats (tf_em t)))\<rparr>\<rparr>"

definition is_copy :: "task \<Rightarrow> bool" where
  "is_copy k = (case k of DelayedTask ev ap \<Rightarrow> True | _ \<Rightarrow> False)"

definition waiting_copies :: "emitter \<Rightarrow> nat" where
  "waiting_copies e = length (filter is_copy (em_inflight e))"

definition close_down :: "simulation \<Rightarrow> traffic \<Rightarrow> traffic" where
  \<comment> \<open>all tasks are cancelled, then \<open>em.close()\<close> up to its wait; what it raises leaves \<open>main\<close>\<close>
  "close_down sim t =
     (let (x, e) = em_close (sim_cfg sim) (tf_em t)
      in t\<lparr>tf_em := e, tf_phase := (case x of None \<Rightarrow> Draining | Some x \<Rightarrow> Failed x), tf_dropped := waiting_copies (tf_em t)\<rparr>)"

inductive traffic_step :: "simulation \<Rightarrow> int \<Rightarrow> traffic \<Rightarrow> traffic \<Rightarrow> bool" for sim target where
  viewer: "tf_phase t = Running \<Longrightarrow> tf_started t < length (sim_users sim) \<Longrightarrow> traffic_step sim target t (start_viewer sim t)"
| event: "tf_phase t = Running \<Longrightarrow> tf_todo t i \<noteq> [] \<Longrightarrow> traffic_step sim target t (hand_over sim i t)"
| ad_call: "tf_phase t = Running \<Longrightarrow> sm_decider sim \<noteq> None \<Longrightarrow> traffic_step sim target t (ask_ad reply ms t)"
| flush: "tf_phase t = Running \<Longrightarrow> tf_flushing t \<Longrightarrow> traffic_step sim target t (flush_turn sim t)"
| complete: "tf_phase t \<in> {Running, Draining} \<Longrightarrow> em_complete (sim_cfg sim) (tf_em t) e \<Longrightarrow>
     traffic_step sim target t (t\<lparr>tf_em := e\<rparr>)"
| report: "tf_phase t = Running \<Longrightarrow> \<not> tf_stop t \<Longrightarrow> traffic_step sim target t (report target t)"
| pause: "tf_phase t = Running \<Longrightarrow> ar_mode (sm_args sim) = ''burst'' \<Longrightarrow> \<not> tf_stop t \<Longrightarrow> \<not> em_paused (tf_em t) \<Longrightarrow>
     traffic_step sim target t (t\<lparr>tf_em := em_pause (tf_em t)\<rparr>)"
| resume: "tf_phase t = Running \<Longrightarrow> ar_mode (sm_args sim) = ''burst'' \<Longrightarrow> \<not> tf_stop t \<Longrightarrow> em_paused (tf_em t) \<Longrightarrow>
     traffic_step sim target t (t\<lparr>tf_em := em_resume (tf_em t)\<rparr>)"
| stop: "tf_phase t = Running \<Longrightarrow> traffic_step sim target t (t\<lparr>tf_stop := True\<rparr>)"
| close: "tf_phase t = Running \<Longrightarrow> tf_stop t \<Longrightarrow> tf_started t = length (sim_users sim) \<Longrightarrow>
     traffic_step sim target t (close_down sim t)"
| ended: "tf_phase t = Draining \<Longrightarrow> em_inflight (tf_em t) = [] \<Longrightarrow> traffic_step sim target t (t\<lparr>tf_phase := Ended\<rparr>)"

inductive simulated :: "simulation \<Rightarrow> int \<Rightarrow> rat stream \<Rightarrow> traffic \<Rightarrow> bool" for sim target rng where
  start: "target_eps (sm_args sim) = Inr target \<Longrightarrow> simulated sim target rng (traffic_init sim target rng)"
| step: "simulated sim target rng t \<Longrightarrow> traffic_step sim target t t' \<Longrightarrow> simulated sim target rng t'"

section \<open>The balance of retransmissions\<close>

definition em_balance :: "emitter \<Rightarrow> int" where
  \<comment> \<open>the routed events that are neither twins nor copies\<close>
  "em_balance e = em_total e ''sent'' - em_total e ''a.ssai'' - em_total e ''a.dup'' + int (waiting_copies e)"

lemma is_copy_simps [simp]: "is_copy (DelayedTask ev ap)" "\<not> is_copy (PostTask b)" "\<not> is_copy (PixelTask ev f)"
  by (simp_all add: is_copy_def)

lemma waiting_frame [simp]:
  "waiting_copies (em_bump k n e) = waiting_copies e" "waiting_copies (em_latency x e) = waiting_copies e"
  "waiting_copies (route cfg ev ap forge e) = waiting_copies e"
  by (simp_all add: waiting_copies_def)

lemma balance_emit:
  assumes "well_formed ev"
  shows "em_balance (snd (emit cfg ev ap e)) = em_balance e + 1" "fst (emit cfg ev ap e) = None"
proof -
  obtain x e' where run: "emit cfg ev ap e = (x, e')" by force
  show "em_balance (snd (emit cfg ev ap e)) = em_balance e + 1" "fst (emit cfg ev ap e) = None"
    unfolding run
  proof (atomize (full), rule emit_cases [OF assms run])
    fix e1 ev1 e2 u e3 ev2 e4
    assume s: "emit_ssai cfg ev e = (None, e1)" "emit_late cfg ev e1 = (Inr ev1, e2)" "rand e2 = (u, e3)"
      "emit_bad cfg ev1 e3 = (ev2, e4)" and x: "x = None"
      and e': "e' = emit_dup cfg ev2 ap (route cfg ev2 ap (u < an_forge (cf_anom cfg)) e4)"
    let ?r = "route cfg ev2 ap (u < an_forge (cf_anom cfg)) e4"
    have same: "em_total e4 k = em_total e1 k" if "k \<noteq> ''a.late''" "k \<noteq> ''a.bad''" for k
      using emit_late_frame(3) [OF that(1), of cfg ev e1] emit_bad_frame(3) [OF that(2), of cfg ev1 e3]
        em_total_rand [of e2 k] s by simp
    have "em_inflight e4 = em_inflight e1"
      using emit_late_frame(2) [of cfg ev e1] emit_bad_frame(2) [of cfg ev1 e3] rand_frame(2) [of e2] s by simp
    then have "em_balance ?r = em_balance e + 1"
      using same emit_ssai_well_formed [OF assms s(1)] by (simp add: em_balance_def waiting_copies_def route_total)
    moreover have "em_balance (emit_dup cfg ev2 ap ?r) = em_balance ?r"
      by (simp add: em_balance_def emit_dup_def Let_def rand_def uniform_def waiting_copies_def)
    ultimately show "em_balance (snd (x, e')) = em_balance e + 1 \<and> fst (x, e') = None" by (simp add: e' x)
  qed
qed

lemma balance_flush: "em_balance (snd (em_flush cfg force e)) = em_balance e"
  by (auto simp: em_flush_def Let_def em_balance_def em_total_def waiting_copies_def filter_empty_conv split: sum.splits)

lemma waiting_done:
  assumes "k \<in> set (em_inflight e)"
  shows "int (waiting_copies (task_done k e)) = int (waiting_copies e) - (if is_copy k then 1 else 0)"
proof (cases "is_copy k")
  case True
  with assms have k: "k \<in> set (filter is_copy (em_inflight e))" by simp
  then have "0 < waiting_copies e" unfolding waiting_copies_def by (rule length_pos_if_in_set)
  moreover have "waiting_copies (task_done k e) = waiting_copies e - 1"
    using k by (simp add: waiting_copies_def task_done_def filter_remove1 length_remove1)
  ultimately show ?thesis using True by auto
next
  case False
  then show ?thesis by (simp add: waiting_copies_def task_done_def filter_remove1 remove1_idem)
qed

lemma total_task_done [simp]: "em_total (task_done k e) = em_total e" "em_closing (task_done k e) = em_closing e"
  by (simp_all add: task_done_def em_total_def fun_eq_iff)

lemma balance_complete: "em_complete cfg e e' \<Longrightarrow> \<not> em_closing e \<Longrightarrow> em_balance e' = em_balance e"
  by (induction rule: em_complete.induct)
    (auto simp: em_balance_def delayed_def route_total post_done_def pixel_done_def waiting_done split: send_reply.splits)

text \<open>Once the emitter is closing, what was routed is fixed.\<close>

definition em_plain :: "emitter \<Rightarrow> int" where
  "em_plain e = em_total e ''sent'' - em_total e ''a.ssai'' - em_total e ''a.dup''"

lemma plain_complete: "em_complete cfg e e' \<Longrightarrow> em_closing e \<Longrightarrow> em_plain e' = em_plain e"
  by (induction rule: em_complete.induct)
    (simp_all add: em_plain_def delayed_def task_done_def post_done_def pixel_done_def split: send_reply.splits)

lemma em_complete_closing: "em_complete cfg e e' \<Longrightarrow> em_closing e' = em_closing e"
  by (induction rule: em_complete.induct)
    (simp_all add: delayed_def task_done_def post_done_def pixel_done_def route_def Let_def rand_def split: send_reply.splits)

lemma route_closing [simp]: "em_closing (route cfg ev ap forge e) = em_closing e"
  by (simp add: route_def Let_def rand_def)

lemma emit_closing [simp]: "em_closing (snd (emit cfg ev ap e)) = em_closing e"
proof -
  have "em_closing (snd (emit_ssai cfg ev e)) = em_closing e" for ev e
    by (auto simp: emit_ssai_def Let_def rand_def hex16_def split: sum.splits)
  moreover have "em_closing (snd (emit_late cfg ev e)) = em_closing e" for ev e
    by (auto simp: emit_late_def Let_def rand_def uniform_def split: sum.splits)
  moreover have "em_closing (snd (emit_bad cfg ev e)) = em_closing e" for ev e
    by (auto simp: emit_bad_def Let_def rand_def choice_def)
  moreover have "em_closing (emit_dup cfg ev ap e) = em_closing e" for ev e
    by (simp add: emit_dup_def Let_def rand_def uniform_def)
  moreover have "em_closing (snd (rand e)) = em_closing e" for e by (simp add: rand_def)
  ultimately show ?thesis
    by (simp add: emit_def split_beta Let_def split: prod.split option.split sum.split) (metis fst_conv snd_conv)
qed

lemma flush_closing [simp]: "em_closing (snd (em_flush cfg force e)) = em_closing e"
  by (simp add: em_flush_def Let_def split: sum.splits)

section \<open>Who handed what\<close>

definition handed_by :: "nat \<Rightarrow> traffic \<Rightarrow> event list" where
  "handed_by i t = map snd (filter (\<lambda>(j, ev). j = i) (tf_handed t))"

lemma handings_events: "map fst (handings v) = emitted v"
  by (auto simp: handings_def emitted_def map_concat intro!: arg_cong [of _ _ concat] split: viewer_act.splits)

lemma viewer_task_client: "(ev, ap) \<in> set (viewer_task sim i seed) \<Longrightarrow> client_event ev"
proof -
  let ?v = "snd (viewer_run (sm_sessions sim) (sim_users sim ! i) (new_viewer (sm_seeded sim seed)))"
  assume "(ev, ap) \<in> set (viewer_task sim i seed)"
  then have "ev \<in> set (map fst (handings ?v))" by (force simp: viewer_task_def)
  then show "client_event ev"
    using viewer_events_client [of "sm_sessions sim" "sim_users sim ! i" "sm_seeded sim seed"]
    by (simp add: handings_events list_all_iff)
qed

definition on_script :: "simulation \<Rightarrow> traffic \<Rightarrow> bool" where
  \<comment> \<open>what a started viewer handed over and still will is its task's list\<close>
  "on_script sim t \<longleftrightarrow>
     (\<forall>i. if i < tf_started t
          then \<exists>seed. handed_by i t @ map fst (tf_todo t i) = map fst (viewer_task sim i seed) \<and>
                 set (tf_todo t i) \<subseteq> set (viewer_task sim i seed)
          else handed_by i t = [] \<and> tf_todo t i = [])"

lemma on_script_same:
  "on_script sim t \<Longrightarrow> tf_started t' = tf_started t \<Longrightarrow> tf_todo t' = tf_todo t \<Longrightarrow> tf_handed t' = tf_handed t \<Longrightarrow>
     on_script sim t'"
proof -
  assume t: "on_script sim t" "tf_started t' = tf_started t" "tf_todo t' = tf_todo t" "tf_handed t' = tf_handed t"
  then have "handed_by i t' = handed_by i t" for i by (simp add: handed_by_def)
  then show "on_script sim t'" using t by (simp add: on_script_def)
qed

lemma on_script_viewer:
  assumes "on_script sim t"
  shows "on_script sim (start_viewer sim t)"
  unfolding on_script_def
proof (intro allI)
  fix i
  let ?t = "start_viewer sim t" and ?i = "tf_started t"
  have t: "tf_started ?t = Suc ?i" "handed_by i ?t = handed_by i t"
    "tf_todo ?t = (tf_todo t)(?i := viewer_task sim ?i (fst (rand (tf_em t))))"
    by (simp_all add: start_viewer_def handed_by_def Let_def split_beta)
  show "if i < tf_started ?t
      then \<exists>seed. handed_by i ?t @ map fst (tf_todo ?t i) = map fst (viewer_task sim i seed) \<and>
             set (tf_todo ?t i) \<subseteq> set (viewer_task sim i seed)
      else handed_by i ?t = [] \<and> tf_todo ?t i = []"
  proof (cases "i = ?i")
    case True
    with assms have "handed_by i t = []" by (simp add: on_script_def)
    then show ?thesis unfolding t using True by auto
  next
    case False
    then show ?thesis unfolding t using assms [unfolded on_script_def, rule_format, of i] by (auto split: if_splits)
  qed
qed

lemma hand_over_client:
  assumes "on_script sim t" "tf_todo t i = (ev, ap) # rest"
  shows "client_event ev" "i < tf_started t"
proof -
  note i = assms(1) [unfolded on_script_def, rule_format, of i]
  then show "i < tf_started t" using assms(2) by (auto split: if_splits)
  with i obtain seed where "set (tf_todo t i) \<subseteq> set (viewer_task sim i seed)" by auto
  then show "client_event ev" using assms(2) by (auto intro: viewer_task_client)
qed

lemma hand_over_eq:
  assumes "on_script sim t" "tf_todo t i = (ev, ap) # rest"
  shows "hand_over sim i t = t\<lparr>tf_em := snd (emit (sim_cfg sim) ev ap (tf_em t)), tf_todo := (tf_todo t)(i := rest),
    tf_handed := tf_handed t @ [(i, ev)]\<rparr>"
proof -
  have "fst (emit (sim_cfg sim) ev ap (tf_em t)) = None"
    using hand_over_client(1) [OF assms] by (intro balance_emit(2)) (simp add: client_event_def)
  then show ?thesis by (simp add: hand_over_def assms(2) Let_def split_beta)
qed

lemma on_script_event:
  assumes "on_script sim t" "tf_todo t i = (ev, ap) # rest"
  shows "on_script sim (hand_over sim i t)"
  unfolding on_script_def
proof (intro allI)
  fix j
  let ?t = "hand_over sim i t"
  have t: "tf_started ?t = tf_started t" "handed_by j ?t = handed_by j t @ (if j = i then [ev] else [])"
    "tf_todo ?t j = (if j = i then rest else tf_todo t j)"
    by (simp_all add: hand_over_eq [OF assms] handed_by_def)
  show "if j < tf_started ?t
      then \<exists>seed. handed_by j ?t @ map fst (tf_todo ?t j) = map fst (viewer_task sim j seed) \<and>
             set (tf_todo ?t j) \<subseteq> set (viewer_task sim j seed)
      else handed_by j ?t = [] \<and> tf_todo ?t j = []"
    unfolding t using assms(1) [unfolded on_script_def, rule_format, of j] assms(2) hand_over_client(2) [OF assms]
    by (auto split: if_splits)
qed

section \<open>The books of a run\<close>

definition books :: "simulation \<Rightarrow> traffic \<Rightarrow> bool" where
  "books sim t \<longleftrightarrow> em_gap (tf_em t) = 0 \<and> on_script sim t \<and> tf_started t \<le> length (sim_users sim) \<and>
     (case tf_phase t of
        Running \<Rightarrow> \<not> em_closing (tf_em t) \<and> em_balance (tf_em t) = int (length (tf_handed t))
      | Failed x \<Rightarrow> False
      | _ \<Rightarrow> em_closed (tf_em t) \<and> em_plain (tf_em t) = int (length (tf_handed t)) - int (tf_dropped t) \<and>
             (tf_phase t = Ended \<longrightarrow> em_inflight (tf_em t) = []))"

lemma books_init: "books sim (traffic_init sim target rng)"
  by (simp add: books_def traffic_init_def on_script_def handed_by_def em_gap_init)
    (simp add: em_init_def em_balance_def em_total_def stats_init_def waiting_copies_def)

text \<open>A step of a task that works on the emitter alone.\<close>

lemma books_em:
  assumes "books sim t" "tf_phase t = Running" "em_gap e = em_gap (tf_em t)" "em_closing e = em_closing (tf_em t)"
    "em_balance e = em_balance (tf_em t)"
    and same: "tf_started t' = tf_started t" "tf_todo t' = tf_todo t" "tf_handed t' = tf_handed t" "tf_phase t' = tf_phase t"
      "tf_em t' = e"
  shows "books sim t'"
  using assms on_script_same [OF _ same(1-3)] by (simp add: books_def)

lemma balance_stats:
  assumes "\<And>k. k \<notin> {''ad.call'', ''ad.err'', ''ad.fill'', ''ad.nofill''} \<Longrightarrow> st_total st k = em_total e k"
  shows "em_gap (e\<lparr>em_stats := st\<rparr>) = em_gap e" "em_balance (e\<lparr>em_stats := st\<rparr>) = em_balance e"
proof -
  have st: "st_total st ''sent'' = em_total e ''sent''" "st_total st ''http.2xx'' = em_total e ''http.2xx''"
    "st_total st ''http.err'' = em_total e ''http.err''" "st_total st ''a.ssai'' = em_total e ''a.ssai''"
    "st_total st ''a.dup'' = em_total e ''a.dup''"
    by (rule assms, simp)+
  show "em_gap (e\<lparr>em_stats := st\<rparr>) = em_gap e"
    by (rule em_gap_stats) (elim insertE emptyE, simp_all only: st)
  show "em_balance (e\<lparr>em_stats := st\<rparr>) = em_balance e"
    using st by (simp add: em_balance_def waiting_copies_def em_total_def [of "e\<lparr>em_stats := st\<rparr>"])
qed

lemma balance_paused [simp]: "em_balance (e\<lparr>em_paused := b\<rparr>) = em_balance e"
  by (simp add: em_balance_def em_total_def waiting_copies_def)

lemma books_close:
  assumes "books sim t" "tf_phase t = Running" "0 < ar_batch_size (sm_args sim)"
  shows "books sim (close_down sim t)" "tf_phase (close_down sim t) = Draining"
proof -
  let ?cfg = "sim_cfg sim"
  have bs: "0 < cf_batch_size ?cfg" using assms(3) by (simp add: sim_cfg_def emitter_config_def)
  obtain e where e: "em_close ?cfg (tf_em t) = (None, e)"
    using em_close_returns [of ?cfg "tf_em t"] bs by (metis less_irrefl prod.collapse)
  have "em_gap e = em_gap (tf_em t)" using em_gap_step [OF em_step.close bs, of "tf_em t"] e by simp
  moreover have "em_balance (snd (em_close ?cfg (tf_em t))) = em_balance (tf_em t)"
    by (simp add: em_close_def balance_flush) (simp add: em_resume_def em_balance_def em_total_def waiting_copies_def)
  moreover have "em_total e k = em_total (tf_em t) k" for k
  proof -
    have "em_stats (snd (em_close ?cfg (tf_em t))) = em_stats (tf_em t)"
      by (simp add: em_close_def em_flush_def em_resume_def Let_def split: sum.splits)
    then show ?thesis by (simp add: e em_total_def)
  qed
  ultimately show "books sim (close_down sim t)" "tf_phase (close_down sim t) = Draining"
    using assms(1,2) em_close_closed [OF e] on_script_same [of sim t "close_down sim t"]
    by (simp_all add: books_def close_down_def e em_plain_def em_balance_def)
qed

lemma books_step:
  assumes "traffic_step sim target t t'" "books sim t" "0 < ar_batch_size (sm_args sim)"
  shows "books sim t'"
  using assms
proof (induction rule: traffic_step.induct)
  case (viewer t)
  have "tf_em (start_viewer sim t) = snd (rand (tf_em t))" by (simp add: start_viewer_def Let_def split_beta)
  with viewer on_script_viewer [of sim t] show ?case
    by (simp add: books_def start_viewer_def Let_def split_beta rand_def)
      (simp add: em_balance_def em_total_def waiting_copies_def)
next
  case (event t i)
  then obtain ev ap rest where e: "tf_todo t i = (ev, ap) # rest" by (metis list.exhaust surj_pair)
  have s: "on_script sim t" using event by (simp add: books_def)
  have "well_formed ev" using hand_over_client(1) [OF s e] by (simp add: client_event_def)
  then show ?case
    using event on_script_event [OF s e] balance_emit(1) by (simp add: books_def hand_over_eq [OF s e] em_gap_emit)
next
  case (ad_call t reply ms)
  show ?case
    by (rule books_em [OF ad_call(3,1)])
      (use balance_stats [of "snd (ad_decision_request reply ms (em_stats (tf_em t)))" "tf_em t"]
         ad_decision_request_frame(1) [OF surjective_pairing] in \<open>simp_all add: ask_ad_def em_total_def\<close>)
next
  case (flush t)
  have "0 < cf_batch_size (sim_cfg sim)" using flush(4) by (simp add: sim_cfg_def emitter_config_def)
  then show ?case
    by (intro books_em [OF flush(3,1)]) (simp_all add: flush_turn_def split_beta em_gap_flush balance_flush)
next
  case (complete t e)
  show ?case
  proof (cases "tf_phase t = Running")
    case True
    then show ?thesis using complete em_gap_complete balance_complete em_complete_closing
      by (intro books_em [OF complete(3)]) (auto simp: books_def)
  next
    case False
    then show ?thesis
      using complete em_gap_complete [OF complete(2)] em_complete_closed [OF complete(2)] plain_complete [OF complete(2)]
        on_script_same [of sim t "t\<lparr>tf_em := e\<rparr>"] by (auto simp: books_def em_closed_def)
  qed
next
  case (report t)
  show ?case
    by (rule books_em [OF report(3,1)])
      (use balance_stats [of "snd (stats_line (em_stats (tf_em t)))" "tf_em t"] in
        \<open>simp_all add: report_def report_turn_def split_beta stats_line_def em_total_def Let_def\<close>)
next
  case (stop t)
  then show ?case by (intro books_em [OF stop(2,1)]) simp_all
next
  case (close t)
  then show ?case by (intro books_close)
next
  case (ended t)
  then show ?case using on_script_same [of sim t "t\<lparr>tf_phase := Ended\<rparr>"] by (simp add: books_def)
next
  case (pause t)
  then show ?case by (intro books_em [OF pause(5,1)]) (simp_all add: em_pause_def)
next
  case (resume t)
  then show ?case by (intro books_em [OF resume(5,1)]) (simp_all add: em_resume_def)
qed

lemma simulated_books: "simulated sim target rng t \<Longrightarrow> 0 < ar_batch_size (sm_args sim) \<Longrightarrow> books sim t"
  by (induction rule: simulated.induct) (auto intro: books_init books_step)

section \<open>Every run can end\<close>

abbreviation runs_to :: "simulation \<Rightarrow> int \<Rightarrow> traffic \<Rightarrow> traffic \<Rightarrow> bool" where
  "runs_to sim target \<equiv> rtranclp (traffic_step sim target)"

inductive_cases draining_stepE: "traffic_step sim target t t'"

lemma draining_step:
  assumes "traffic_step sim target t t'" "tf_phase t = Draining" "books sim t"
  shows "tf_phase t' = Ended \<or> tf_phase t' = Draining \<and> Suc (length (em_inflight (tf_em t'))) = length (em_inflight (tf_em t))"
  using assms by (elim draining_stepE) (auto simp: books_def dest: em_complete_closed)

lemma draining_ends:
  assumes "tf_phase t = Draining" "books sim t" "0 < ar_batch_size (sm_args sim)"
  shows "\<exists>t'. runs_to sim target t t' \<and> tf_phase t' = Ended"
  using assms
proof (induction "length (em_inflight (tf_em t))" arbitrary: t)
  case 0
  then have "traffic_step sim target t (t\<lparr>tf_phase := Ended\<rparr>)" by (intro traffic_step.ended) simp_all
  then show ?case by (intro exI [of _ "t\<lparr>tf_phase := Ended\<rparr>"]) auto
next
  case (Suc n)
  then have "em_inflight (tf_em t) \<noteq> []" by auto
  then obtain e where e: "em_complete (sim_cfg sim) (tf_em t) e" by (metis em_complete_progress)
  let ?t = "t\<lparr>tf_em := e\<rparr>"
  have step: "traffic_step sim target t ?t" by (rule traffic_step.complete) (use Suc.prems e in simp_all)
  with draining_step [OF step] Suc have "n = length (em_inflight (tf_em ?t))" by simp
  from Suc.hyps(1) [OF this] books_step [OF step] Suc.prems step show ?case
    by (auto intro: converse_rtranclp_into_rtranclp)
qed

lemma viewers_start:
  assumes "tf_phase t = Running"
  shows "\<exists>t'. runs_to sim target t t' \<and> tf_phase t' = Running \<and> length (sim_users sim) \<le> tf_started t'"
  using assms
proof (induction "length (sim_users sim) - tf_started t" arbitrary: t)
  case (Suc n)
  let ?t = "start_viewer sim t"
  have step: "traffic_step sim target t ?t" by (rule traffic_step.viewer) (use Suc in simp_all)
  have "tf_phase ?t = Running" "n = length (sim_users sim) - tf_started ?t"
    using Suc by (simp_all add: start_viewer_def Let_def split_beta)
  from Suc.hyps(1) [OF this(2,1)] step show ?case by (auto intro: converse_rtranclp_into_rtranclp)
qed auto

lemma runs_simulated: "runs_to sim target t t' \<Longrightarrow> simulated sim target rng t \<Longrightarrow> simulated sim target rng t'"
  by (induction rule: rtranclp_induct) (auto intro: simulated.step)

lemma simulated_ends:
  assumes run: "simulated sim target rng t" and bs: "0 < ar_batch_size (sm_args sim)"
  shows "\<exists>t'. runs_to sim target t t' \<and> tf_phase t' = Ended"
proof -
  have ends: "\<exists>t'. runs_to sim target t t' \<and> tf_phase t' = Ended" if "simulated sim target rng t" "tf_phase t = Draining" for t
    using draining_ends [OF that(2) simulated_books [OF that(1) bs] bs] .
  show ?thesis
  proof (cases "tf_phase t")
    case Running
    then obtain t1 where t1: "runs_to sim target t t1" "tf_phase t1 = Running" "length (sim_users sim) \<le> tf_started t1"
      using viewers_start by blast
    let ?t2 = "t1\<lparr>tf_stop := True\<rparr>"
    have s2: "traffic_step sim target t1 ?t2" using t1(2) by (rule traffic_step.stop)
    have r2: "simulated sim target rng ?t2" using runs_simulated [OF t1(1) run] s2 by (rule simulated.step)
    have b2: "books sim ?t2" "tf_phase ?t2 = Running" using simulated_books [OF r2 bs] t1(2) by simp_all
    have s3: "traffic_step sim target ?t2 (close_down sim ?t2)"
      by (rule traffic_step.close) (use b2 t1(3) in \<open>auto simp: books_def\<close>)
    from ends [OF simulated.step [OF r2 s3] books_close(2) [OF b2 bs]] t1(1) s2 s3 show ?thesis
      by (meson rtranclp.rtrancl_into_rtrancl rtranclp_trans)
  next
    case Draining
    with ends [OF run] show ?thesis by blast
  next
    case (Failed x)
    with simulated_books [OF run bs] show ?thesis by (simp add: books_def)
  qed auto
qed

lemma handed_grows: "runs_to sim target t t' \<Longrightarrow> \<exists>es. tf_handed t' = tf_handed t @ es"
proof (induction rule: rtranclp_induct)
  case (step t1 t2)
  have "\<exists>es. tf_handed t2 = tf_handed t1 @ es"
    using step(2) by (induction rule: traffic_step.induct)
      (auto simp: start_viewer_def hand_over_def ask_ad_def flush_turn_def report_def close_down_def split_beta Let_def
        split: list.splits)
  with step(3) show ?case by auto
qed simp

section \<open>Properties\<close>

text \<open>C7: the books of a run of the simulator.  Whatever the options, the draws, the answers of collector and ad-decision
  and the interleaving of viewers, flushes, retransmissions, reports and pauses are: what each viewer handed over, with
  what it still will, is the event list of its own task, in its order; the emitter routed one event for each event handed
  over, each SSAI twin and each retransmission, save those still waiting, and at the end those that were waiting at the
  stop, which are never sent; and when the program ends, every routed event was accepted or failed.\<close>

theorem simulation_books_close:
  assumes "simulated sim target rng t" "0 < ar_batch_size (sm_args sim)"
  shows "on_script sim t \<and>
    em_total (tf_em t) ''sent'' = int (length (tf_handed t)) + em_total (tf_em t) ''a.ssai'' + em_total (tf_em t) ''a.dup''
      - int (if tf_phase t = Running then waiting_copies (tf_em t) else tf_dropped t) \<and>
    (tf_phase t = Ended \<longrightarrow> em_pending (tf_em t) = 0 \<and>
      em_total (tf_em t) ''sent'' = em_total (tf_em t) ''http.2xx'' + em_total (tf_em t) ''http.err'')"
  using simulated_books [OF assms]
  by (cases "tf_phase t")
    (auto simp: books_def em_balance_def em_plain_def em_gap_def em_outstanding_def em_closed_def em_pending_def)

text \<open>C17: the simulator can always be brought to its end.  With a positive batch size no state of a run is stuck or has
  failed: a stop leads on to the end, and once the emitter is closing each step ends the program or leaves one call fewer
  to wait for.\<close>

theorem simulation_ends:
  assumes "simulated sim target rng t" "0 < ar_batch_size (sm_args sim)"
  shows "(\<exists>t'. runs_to sim target t t' \<and> tf_phase t' = Ended) \<and>
    (\<forall>t'. tf_phase t = Draining \<and> traffic_step sim target t t' \<longrightarrow>
       tf_phase t' = Ended \<or> Suc (length (em_inflight (tf_em t'))) = length (em_inflight (tf_em t)))"
  using simulated_ends [OF assms] draining_step [OF _ _ simulated_books [OF assms]] by blast

definition demo_sim :: simulation where
  \<comment> \<open>one viewer, watched for one session, in burst mode\<close>
  "demo_sim = \<lparr>sm_args = default_args\<lparr>ar_mode := ''burst'', ar_users := 1\<rparr>, sm_hex = (\<lambda>n. replicate 16 (CHR ''f'')),
     sm_seeded = sconst, sm_sessions = 1, sm_viewer_hex = (\<lambda>i n. replicate 16 (CHR ''e'')), sm_now = (\<lambda>i n. 1000 * int n),
     sm_stopped = (\<lambda>i n. 8 \<le> n), sm_decider = None\<rparr>"

lemma demo_sim_handed: "\<exists>t. simulated demo_sim 200 quiet_rng t \<and> tf_handed t \<noteq> []"
proof -
  let ?t0 = "traffic_init demo_sim 200 quiet_rng"
  have users: "length (sim_users demo_sim) = 1" "ve_stop (sim_users demo_sim ! 0) = (\<lambda>n. 8 \<le> n)"
    by (simp_all add: sim_users_def viewers_def demo_sim_def)
  have 0: "simulated demo_sim 200 quiet_rng ?t0"
    by (rule simulated.start) (simp add: demo_sim_def target_eps_def default_args_def MODE_EPS_def)
  have s1: "traffic_step demo_sim 200 ?t0 (start_viewer demo_sim ?t0)"
    by (rule traffic_step.viewer) (simp_all add: traffic_init_def users)
  let ?t1 = "start_viewer demo_sim ?t0"
  let ?v = "new_viewer (sconst (1 / 2))" and ?env = "sim_users demo_sim ! 0"
  obtain d v1 where v1: "draw_uniform 0 3 ?v = (d, v1)" by force
  have checks: "vw_checks v1 = 0"
    using v1 by (auto simp: draw_uniform_def draw_def new_viewer_def draw_choices_def Let_def)
  obtain e v2 where w: "watch ?env (v1\<lparr>vw_checks := 1\<rparr>) = (e, v2)" by force
  have "emitted v2 \<noteq> []" using watch_log [OF w] by auto
  then have "emitted (snd (run_sessions 1 ?env v1)) \<noteq> []"
    using checks w by (auto simp: stopped_def users split: loop_end.splits prod.splits
        simp: clock_sleep_def act_def emitted_def draw_uniform_def draw_def)
  then have "map fst (viewer_task demo_sim 0 (1 / 2)) \<noteq> []"
    unfolding viewer_task_def handings_events by (simp add: viewer_run_def v1 demo_sim_def)
  then have "tf_todo ?t1 0 \<noteq> []"
    by (simp add: start_viewer_def traffic_init_def rand_def em_init_def)
  moreover have "tf_phase ?t1 = Running" by (simp add: start_viewer_def traffic_init_def Let_def split_beta)
  ultimately have s2: "traffic_step demo_sim 200 ?t1 (hand_over demo_sim 0 ?t1)" by (intro traffic_step.event)
  have "tf_handed (hand_over demo_sim 0 ?t1) \<noteq> []"
    using \<open>tf_todo ?t1 0 \<noteq> []\<close> by (auto simp: hand_over_def split_beta split: list.splits)
  with simulated.step [OF simulated.step [OF 0 s1] s2] show ?thesis by blast
qed

lemma simulation_ends_witness:
  "\<exists>t. simulated demo_sim 200 quiet_rng t \<and> tf_handed t \<noteq> [] \<and> tf_phase t = Ended"
proof -
  obtain t where t: "simulated demo_sim 200 quiet_rng t" "tf_handed t \<noteq> []" using demo_sim_handed by blast
  have "0 < ar_batch_size (sm_args demo_sim)" by (simp add: demo_sim_def default_args_def)
  from simulation_ends [OF t(1) this] obtain t' where t': "runs_to demo_sim 200 t t'" "tf_phase t' = Ended" by blast
  have "tf_handed t' \<noteq> []" using handed_grows [OF t'(1)] t(2) by auto
  with runs_simulated [OF t'(1) t(1)] t'(2) show ?thesis by (intro exI [of _ t'] conjI)
qed

lemma simulation_books_close_witness:
  "\<exists>t. simulated demo_sim 200 quiet_rng t \<and> tf_phase t = Ended \<and> tf_handed t \<noteq> [] \<and>
     em_total (tf_em t) ''http.2xx'' + em_total (tf_em t) ''http.err'' =
       int (length (tf_handed t)) + em_total (tf_em t) ''a.ssai'' + em_total (tf_em t) ''a.dup'' - int (tf_dropped t)"
proof -
  obtain t where t: "simulated demo_sim 200 quiet_rng t" "tf_handed t \<noteq> []" using demo_sim_handed by blast
  have bs: "0 < ar_batch_size (sm_args demo_sim)" by (simp add: demo_sim_def default_args_def)
  obtain t' where t': "runs_to demo_sim 200 t t'" "tf_phase t' = Ended" using simulated_ends [OF t(1) bs] by blast
  have r: "simulated demo_sim 200 quiet_rng t'" by (rule runs_simulated [OF t'(1) t(1)])
  have "tf_handed t' \<noteq> []" using handed_grows [OF t'(1)] t(2) by auto
  with simulation_books_close [OF r bs] r t'(2) show ?thesis by (intro exI [of _ t']) simp
qed

end
