(* ===== verification/Collector_Ingest.thy ===== *)
theory Collector_Ingest
  imports Collector Py_Time
begin

text \<open>
  The collector's path from a request to a Kafka record: the validator (\<open>EventValidator.kt\<close>), the ingest service
  (\<open>EventIngestService.kt\<close>), the publisher that fails open into a file per hour (\<open>EventPublisher.kt\<close>,
  \<open>FallbackWriter.kt\<close>), and the two endpoints (\<open>EventController.kt\<close>, \<open>TrackController.kt\<close>).

  A JSON node is a value as in the Python model.  Instants are epoch nanoseconds; the reader of ISO texts of
  \<open>java.time\<close> is a parameter, and so is the text of a decimal number.  Each request brings its clock readings, the
  uuid a dead letter takes, and what became of its publication.  The events of a batch are taken in order; they are
  independent of each other, and only the order of their records depends on it.
\<close>

section \<open>State\<close>

type_synonym krecord = "string \<times> string \<times> dict"

datatype pub_reply = PubOk | PubFailed bool bool
  \<comment> \<open>acknowledged in time; or not: whether the broker got it all the same, and whether the file could be written\<close>

record arrival =
  av_now :: "nat \<Rightarrow> int"
  av_uuid :: string
  av_pub :: pub_reply
  \<comment> \<open>readings 0: validation, 1: enrichment or dead letter, 2: a pixel without a time, 3: the check of a signature,
     4: a line for the fallback file\<close>

record kcfg =
  kc_hmac :: "string \<Rightarrow> string \<Rightarrow> string"
  kc_secret :: string
  kc_max_batch :: nat
  kc_number :: "rat \<Rightarrow> string"
  kc_iso :: "string \<Rightarrow> int option"

type_synonym files = "(int \<times> krecord list) list"
  \<comment> \<open>the fallback directory: the lines of the file of each hour, in the order of the names\<close>

record collector =
  co_kafka :: "krecord list"
  co_late :: "krecord list"
  co_files :: files
  co_done :: files
  co_lost :: "krecord list"
  co_backlog :: int
  co_streak :: nat
  co_metrics :: counter
  \<comment> \<open>records acknowledged; delivered though not acknowledged in time; the pending fallback files and those renamed
     to .done; lost with a failed write; the gauge of pending fallbacks; failures in a row; counters by name and tag\<close>

definition collector_init :: collector where
  "collector_init = \<lparr>co_kafka = [], co_late = [], co_files = [], co_done = [], co_lost = [], co_backlog = 0,
     co_streak = 0, co_metrics = (\<lambda>_. 0)\<rparr>"

definition count_metric :: "string \<Rightarrow> string \<Rightarrow> int \<Rightarrow> collector \<Rightarrow> collector" where
  "count_metric name tag n co = co\<lparr>co_metrics := counter_add (co_metrics co) (name @ CHR ''.'' # tag) n\<rparr>"

section \<open>Instants\<close>

definition pad_digits :: "nat \<Rightarrow> nat \<Rightarrow> string" where
  "pad_digits n x = replicate (n - length (dec_nat x)) (CHR ''0'') @ dec_nat x"

definition instant_str :: "int \<Rightarrow> string" where
  \<comment> \<open>\<open>Instant.toString\<close> for the years 0 to 9999: no fraction, or 3, 6 or 9 digits of it\<close>
  "instant_str ns =
     (let s = butlast (iso_render (ns div 1000000000)); f = nat (ns mod 1000000000)
      in s @ (if f = 0 then [] else CHR ''.'' #
           (if f mod 1000000 = 0 then pad_digits 3 (f div 1000000)
            else if f mod 1000 = 0 then pad_digits 6 (f div 1000) else pad_digits 9 f)) @ ''Z'')"

definition trunc_ms :: "int \<Rightarrow> int" where
  "trunc_ms ns = ns div 1000000 * 1000000"

definition wrap64 :: "int \<Rightarrow> int" where
  \<comment> \<open>\<open>longValue\<close> of a big integer\<close>
  "wrap64 i = (i + 2 ^ 63) mod 2 ^ 64 - 2 ^ 63"

definition clamp64 :: "int \<Rightarrow> int" where
  \<comment> \<open>a double cast to a long\<close>
  "clamp64 i = min (max i (- (2 ^ 63))) (2 ^ 63 - 1)"

section \<open>Validation\<close>

datatype validation = Valid int | Fail string

definition kt_blank :: "string \<Rightarrow> bool" where
  "kt_blank s = list_all is_space s"

fun parse_text :: "kcfg \<Rightarrow> string \<Rightarrow> int option" where
  \<comment> \<open>\<open>parseInstant(raw: String?)\<close>\<close>
  "parse_text cfg s =
     (if kt_blank s then None
      else case to_long s of Some n \<Rightarrow> Some (n * 1000000) | None \<Rightarrow> kc_iso cfg s)"

fun parse_instant :: "kcfg \<Rightarrow> pyval \<Rightarrow> int option" where
  \<comment> \<open>\<open>parseInstant(node: JsonNode?)\<close>\<close>
  "parse_instant cfg (PInt i) = Some (wrap64 i * 1000000)"
| "parse_instant cfg (PFloat x) = Some (clamp64 (py_int x) * 1000000)"
| "parse_instant cfg (PStr s) = parse_text cfg s"
| "parse_instant cfg v = None"

definition REQUIRED :: "string list" where
  "REQUIRED = [''event_id'', ''event_type'', ''campaign_id'', ''event_time'']"

fun first_problem :: "dict \<Rightarrow> string list \<Rightarrow> string option" where
  "first_problem d [] = None"
| "first_problem d (f # fs) =
     (case map_of d f of
        None \<Rightarrow> Some (''missing_field:'' @ f)
      | Some PNone \<Rightarrow> Some (''missing_field:'' @ f)
      | Some (PStr s) \<Rightarrow> if kt_blank s then Some (''blank_field:'' @ f) else first_problem d fs
      | Some v \<Rightarrow> first_problem d fs)"

definition MAX_FUTURE_SKEW_SECONDS :: int where "MAX_FUTURE_SKEW_SECONDS = 300"

definition validate :: "kcfg \<Rightarrow> int \<Rightarrow> pyval \<Rightarrow> validation" where
  "validate cfg now node =
     (case node of
        PDict d \<Rightarrow>
          (case first_problem d REQUIRED of
             Some r \<Rightarrow> Fail r
           | None \<Rightarrow>
               (case parse_instant cfg (dget d ''event_time'') of
                  None \<Rightarrow> Fail ''bad_event_time''
                | Some et \<Rightarrow>
                    if now + MAX_FUTURE_SKEW_SECONDS * 1000000000 < et then Fail ''event_time_in_future'' else Valid et))
      | _ \<Rightarrow> Fail ''not_an_object'')"

section \<open>Publishing\<close>

datatype outcome = ACCEPTED | FALLBACK | INVALID

fun add_line :: "int \<Rightarrow> krecord \<Rightarrow> files \<Rightarrow> files" where
  "add_line h r [] = [(h, [r])]"
| "add_line h r ((g, rs) # fs) =
     (if h = g then (g, rs @ [r]) # fs else if h < g then (h, [r]) # (g, rs) # fs else (g, rs) # add_line h r fs)"

definition hour_of :: "int \<Rightarrow> int" where
  "hour_of ns = ns div 3600000000000"

definition fallback_append :: "int \<Rightarrow> bool \<Rightarrow> krecord \<Rightarrow> collector \<Rightarrow> collector" where
  \<comment> \<open>\<open>FallbackWriter.append\<close>; the flag: whether the file could be written\<close>
  "fallback_append now written rec co =
     (if written then co\<lparr>co_files := add_line (hour_of now) rec (co_files co)\<rparr> else co\<lparr>co_lost := co_lost co @ [rec]\<rparr>)"

definition publish :: "int \<Rightarrow> pub_reply \<Rightarrow> krecord \<Rightarrow> collector \<Rightarrow> outcome \<times> collector" where
  \<comment> \<open>\<open>EventPublisher.publish\<close>\<close>
  "publish now reply rec co =
     (case reply of
        PubOk \<Rightarrow> (ACCEPTED, count_metric ''accepted'' (fst rec) 1 (co\<lparr>co_kafka := co_kafka co @ [rec], co_streak := 0\<rparr>))
      | PubFailed delivered written \<Rightarrow>
          (let co = (if delivered then co\<lparr>co_late := co_late co @ [rec]\<rparr> else co);
               co = count_metric ''kafka_error'' [] 1 (co\<lparr>co_streak := Suc (co_streak co)\<rparr>);
               co = fallback_append now written rec co
           in (FALLBACK, count_metric ''fallback'' (fst rec) 1 (co\<lparr>co_backlog := co_backlog co + 1\<rparr>))))"

section \<open>Ingesting\<close>

fun as_text :: "kcfg \<Rightarrow> pyval \<Rightarrow> string" where
  \<comment> \<open>\<open>asText\<close>\<close>
  "as_text cfg (PStr s) = s"
| "as_text cfg (PInt i) = dec_int i"
| "as_text cfg (PFloat x) = kc_number cfg x"
| "as_text cfg (PBool b) = (if b then ''true'' else ''false'')"
| "as_text cfg PNone = ''null''"
| "as_text cfg (PList xs) = []"
| "as_text cfg (PDict d) = []"

definition before_colon :: "string \<Rightarrow> string" where
  "before_colon s = takeWhile (\<lambda>c. c \<noteq> CHR '':'') s"

definition enrich :: "arrival \<Rightarrow> int \<Rightarrow> string \<Rightarrow> dict \<Rightarrow> dict" where
  "enrich av et endpoint d =
     (let d = dset d ''server_ts'' (PStr (instant_str (trunc_ms (av_now av 1))));
          d = dset d ''event_time'' (PStr (instant_str (trunc_ms et)));
          d = dset d ''ingest_endpoint'' (PStr endpoint)
      in if map_of d ''source'' = None then dset d ''source'' (PStr ''client'') else d)"

definition dlq_record :: "kcfg \<Rightarrow> arrival \<Rightarrow> pyval \<Rightarrow> string \<Rightarrow> string \<Rightarrow> krecord" where
  "dlq_record cfg av original reason endpoint =
     (''dlq.invalid'',
      (case original of
         PDict d \<Rightarrow> (case map_of d ''event_id'' of
             None \<Rightarrow> av_uuid av
           | Some v \<Rightarrow> if kt_blank (as_text cfg v) then av_uuid av else as_text cfg v)
       | _ \<Rightarrow> av_uuid av),
      [(''dlq_id'', PStr (av_uuid av)), (''reason'', PStr reason), (''endpoint'', PStr endpoint),
       (''server_ts'', PStr (instant_str (av_now av 1))), (''raw'', original)])"

definition to_dlq :: "kcfg \<Rightarrow> arrival \<Rightarrow> pyval \<Rightarrow> string \<Rightarrow> string \<Rightarrow> collector \<Rightarrow> outcome \<times> collector" where
  "to_dlq cfg av original reason endpoint co =
     (let co = count_metric ''dlq'' (before_colon reason) 1 (count_metric ''invalid'' (before_colon reason) 1 co)
      in (INVALID, snd (publish (av_now av 4) (av_pub av) (dlq_record cfg av original reason endpoint) co)))"

definition event_key :: "kcfg \<Rightarrow> dict \<Rightarrow> string" where
  \<comment> \<open>the partition key: \<open>ad_request_id\<close>, else \<open>event_id\<close>\<close>
  "event_key cfg d = (case dget d ''ad_request_id'' of PNone \<Rightarrow> as_text cfg (dget d ''event_id'') | v \<Rightarrow> as_text cfg v)"

definition ingest_event :: "kcfg \<Rightarrow> arrival \<Rightarrow> string \<Rightarrow> pyval \<Rightarrow> collector \<Rightarrow> outcome \<times> collector" where
  "ingest_event cfg av endpoint node co =
     (case (validate cfg (av_now av 0) node, node) of
        (Fail r, _) \<Rightarrow> to_dlq cfg av node r endpoint co
      | (Valid et, PDict d) \<Rightarrow>
          (let event_type = as_text cfg (dget d ''event_type'') in
           case topic_for event_type of
             None \<Rightarrow> to_dlq cfg av node (''unknown_event_type:'' @ event_type) endpoint co
           | Some topic \<Rightarrow>
               (let obj = enrich av et endpoint d
                in publish (av_now av 4) (av_pub av) (topic, event_key cfg obj, obj) co))
      | (Valid et, _) \<Rightarrow> to_dlq cfg av node ''not_an_object'' endpoint co)"

section \<open>Endpoints\<close>

definition event_list :: "pyval \<Rightarrow> pyval list" where
  "event_list body = (case body of
     PList xs \<Rightarrow> xs
   | PDict d \<Rightarrow> (case map_of d ''events'' of Some (PList xs) \<Rightarrow> xs | _ \<Rightarrow> [body])
   | _ \<Rightarrow> [])"

record ingest_response =
  ir_status :: int
  ir_received :: nat
  ir_accepted :: nat
  ir_invalid :: nat
  ir_fallback :: nat

fun ingest_all :: "kcfg \<Rightarrow> (nat \<Rightarrow> arrival) \<Rightarrow> nat \<Rightarrow> pyval list \<Rightarrow> collector \<Rightarrow> outcome list \<times> collector" where
  "ingest_all cfg av i [] co = ([], co)"
| "ingest_all cfg av i (v # vs) co =
     (let (x, co) = ingest_event cfg (av i) ''v1_events'' v co; (xs, co) = ingest_all cfg av (Suc i) vs co in (x # xs, co))"

definition post_batch :: "kcfg \<Rightarrow> (nat \<Rightarrow> arrival) \<Rightarrow> pyval \<Rightarrow> collector \<Rightarrow> ingest_response \<times> collector" where
  \<comment> \<open>\<open>POST /v1/events\<close>\<close>
  "post_batch cfg av body co =
     (let vs = event_list body in
      if kc_max_batch cfg < length vs
      then (\<lparr>ir_status = 413, ir_received = length vs, ir_accepted = 0, ir_invalid = length vs, ir_fallback = 0\<rparr>, co)
      else (let (xs, co) = ingest_all cfg av 0 vs (count_metric ''received'' ''v1_events'' (int (length vs)) co)
            in (\<lparr>ir_status = 202, ir_received = length vs, ir_accepted = length (filter (\<lambda>x. x = ACCEPTED) xs),
                 ir_invalid = length (filter (\<lambda>x. x = INVALID) xs), ir_fallback = length (filter (\<lambda>x. x = FALLBACK) xs)\<rparr>, co)))"

definition param :: "query \<Rightarrow> string \<Rightarrow> pyval" where
  "param q k = (case first_value q k of None \<Rightarrow> PNone | Some s \<Rightarrow> PStr s)"

definition param_or :: "query \<Rightarrow> string \<Rightarrow> string \<Rightarrow> pyval" where
  "param_or q k x = (case first_value q k of None \<Rightarrow> PStr x | Some s \<Rightarrow> PStr s)"

definition track_node :: "kcfg \<Rightarrow> arrival \<Rightarrow> query \<Rightarrow> dict" where
  \<comment> \<open>the event of a valid pixel\<close>
  "track_node cfg av q =
     [(''event_id'', param q ''eid''), (''event_type'', param_or q ''et'' ''impression''), (''campaign_id'', param q ''cid''),
      (''event_time'', PStr (instant_str (case Option.bind (first_value q ''ts'') (parse_text cfg) of
         Some t \<Rightarrow> t | None \<Rightarrow> av_now av 2))),
      (''ad_request_id'', param q ''arid''), (''creative_id'', param q ''crid''), (''quartile'', param q ''q''),
      (''session_id'', param q ''sid''), (''source'', param_or q ''src'' ''client''), (''transport'', PStr ''pixel'')]"

definition track_raw :: "query \<Rightarrow> string \<Rightarrow> dict" where
  "track_raw q raw_query =
     dset (fold (\<lambda>(k, v) d. dset d k (case v of [] \<Rightarrow> PNone | x # _ \<Rightarrow> PStr x)) q []) ''_query'' (PStr raw_query)"

definition track :: "kcfg \<Rightarrow> arrival \<Rightarrow> query \<Rightarrow> string \<Rightarrow> collector \<Rightarrow> collector" where
  \<comment> \<open>\<open>GET /v1/track\<close>; the answer is the same pixel in every case\<close>
  "track cfg av q raw_query co =
     (let co = count_metric ''received'' ''v1_track'' 1 co in
      case sig_verify (kc_hmac cfg) (kc_secret cfg) (av_now av 3 div 1000000000) q of
        SigInvalid r \<Rightarrow> snd (to_dlq cfg av (PDict (track_raw q raw_query)) (''track_'' @ r) ''v1_track'' co)
      | SigValid \<Rightarrow> snd (ingest_event cfg av ''v1_track'' (PDict (track_node cfg av q)) co))"

section \<open>What becomes of an event\<close>

text \<open>
  The routing of an event, apart from what becomes of its publication: the reason it is a dead letter, if it is one,
  and the record that is published.
\<close>

definition routed :: "kcfg \<Rightarrow> arrival \<Rightarrow> string \<Rightarrow> pyval \<Rightarrow> string option \<times> krecord" where
  "routed cfg av endpoint node =
     (case (validate cfg (av_now av 0) node, node) of
        (Valid et, PDict d) \<Rightarrow>
          (case topic_for (as_text cfg (dget d ''event_type'')) of
             Some topic \<Rightarrow> (None, (topic, event_key cfg (enrich av et endpoint d), enrich av et endpoint d))
           | None \<Rightarrow> (let reason = ''unknown_event_type:'' @ as_text cfg (dget d ''event_type'')
                     in (Some reason, dlq_record cfg av node reason endpoint)))
      | (Valid et, _) \<Rightarrow> (Some ''not_an_object'', dlq_record cfg av node ''not_an_object'' endpoint)
      | (Fail reason, _) \<Rightarrow> (Some reason, dlq_record cfg av node reason endpoint))"

definition pub_outcome :: "pub_reply \<Rightarrow> outcome" where
  "pub_outcome reply = (case reply of PubOk \<Rightarrow> ACCEPTED | PubFailed _ _ \<Rightarrow> FALLBACK)"

definition lines :: "files \<Rightarrow> krecord list" where
  "lines fs = concat (map snd fs)"

lemma lines_add_line: "mset (lines (add_line h r fs)) = add_mset r (mset (lines fs))"
  by (induction h r fs rule: add_line.induct) (auto simp: lines_def)

named_theorems co_simps \<open>what the steps of a publication do to each part of the collector\<close>

lemma count_metric_parts [co_simps]:
  "co_kafka (count_metric a b n co) = co_kafka co" "co_files (count_metric a b n co) = co_files co"
  "co_done (count_metric a b n co) = co_done co" "co_lost (count_metric a b n co) = co_lost co"
  "co_backlog (count_metric a b n co) = co_backlog co" "co_late (count_metric a b n co) = co_late co"
  by (simp_all add: count_metric_def)

definition is_ok :: "pub_reply \<Rightarrow> bool" where "is_ok reply \<longleftrightarrow> reply = PubOk"
definition is_filed :: "pub_reply \<Rightarrow> bool" where "is_filed reply \<longleftrightarrow> reply = PubFailed True True \<or> reply = PubFailed False True"
definition is_lost :: "pub_reply \<Rightarrow> bool" where "is_lost reply \<longleftrightarrow> reply = PubFailed True False \<or> reply = PubFailed False False"

lemmas reply_simps = is_ok_def is_filed_def is_lost_def

lemma publish_parts [co_simps]:
  "fst (publish now reply rec co) = pub_outcome reply"
  "co_kafka (snd (publish now reply rec co)) = co_kafka co @ (if is_ok reply then [rec] else [])"
  "mset (lines (co_files (snd (publish now reply rec co)))) = mset (lines (co_files co)) + (if is_filed reply then {#rec#} else {#})"
  "co_lost (snd (publish now reply rec co)) = co_lost co @ (if is_lost reply then [rec] else [])"
  "co_backlog (snd (publish now reply rec co)) = co_backlog co + (if is_ok reply then 0 else 1)"
  "co_done (snd (publish now reply rec co)) = co_done co"
  by (auto simp: publish_def pub_outcome_def fallback_append_def Let_def co_simps lines_add_line reply_simps split: pub_reply.split)

lemma publish_files:
  "co_files (snd (publish now reply rec co)) = (if is_filed reply then add_line (hour_of now) rec (co_files co) else co_files co)"
  by (auto simp: publish_def fallback_append_def Let_def co_simps reply_simps split: pub_reply.split)

lemma ingest_event_routed:
  "ingest_event cfg av endpoint node co =
     (case routed cfg av endpoint node of
        (None, r) \<Rightarrow> publish (av_now av 4) (av_pub av) r co
      | (Some reason, r) \<Rightarrow> (INVALID, snd (publish (av_now av 4) (av_pub av) r
          (count_metric ''dlq'' (before_colon reason) 1 (count_metric ''invalid'' (before_colon reason) 1 co)))))"
  by (auto simp: ingest_event_def routed_def to_dlq_def Let_def split: validation.split pyval.split option.split)

definition is_dead :: "kcfg \<Rightarrow> arrival \<Rightarrow> string \<Rightarrow> pyval \<Rightarrow> bool" where
  "is_dead cfg av endpoint node \<longleftrightarrow> fst (routed cfg av endpoint node) \<noteq> None"

lemma ingest_event_parts [co_simps]:
  defines "r cfg av ep v \<equiv> snd (routed cfg av ep v)"
  shows
  "fst (ingest_event cfg av ep v co) = (if is_dead cfg av ep v then INVALID else pub_outcome (av_pub av))"
  "co_kafka (snd (ingest_event cfg av ep v co)) = co_kafka co @ (if is_ok (av_pub av) then [r cfg av ep v] else [])"
  "mset (lines (co_files (snd (ingest_event cfg av ep v co)))) =
     mset (lines (co_files co)) + (if is_filed (av_pub av) then {#r cfg av ep v#} else {#})"
  "co_lost (snd (ingest_event cfg av ep v co)) = co_lost co @ (if is_lost (av_pub av) then [r cfg av ep v] else [])"
  "co_backlog (snd (ingest_event cfg av ep v co)) = co_backlog co + (if is_ok (av_pub av) then 0 else 1)"
  "co_done (snd (ingest_event cfg av ep v co)) = co_done co"
  by (simp_all add: ingest_event_routed r_def is_dead_def co_simps split: prod.split option.split)

definition published :: "kcfg \<Rightarrow> (nat \<Rightarrow> arrival) \<Rightarrow> (pub_reply \<Rightarrow> bool) \<Rightarrow> nat \<Rightarrow> pyval list \<Rightarrow> krecord list" where
  \<comment> \<open>the records of the events of a batch whose publication ended so\<close>
  "published cfg av P i vs =
     map (\<lambda>(i, v). snd (routed cfg (av i) ''v1_events'' v)) (filter (\<lambda>(i, v). P (av_pub (av i))) (enumerate i vs))"

lemma published_simps [simp]:
  "published cfg av P i [] = []"
  "published cfg av P i (v # vs) =
     (if P (av_pub (av i)) then [snd (routed cfg (av i) ''v1_events'' v)] else []) @ published cfg av P (Suc i) vs"
  by (simp_all add: published_def)

lemma ingest_all_parts:
  "ingest_all cfg av i vs co = (xs, co') \<Longrightarrow>
     length xs = length vs
     \<and> xs = map (\<lambda>(i, v). if is_dead cfg (av i) ''v1_events'' v then INVALID else pub_outcome (av_pub (av i))) (enumerate i vs)
     \<and> co_kafka co' = co_kafka co @ published cfg av is_ok i vs
     \<and> mset (lines (co_files co')) = mset (lines (co_files co)) + mset (published cfg av is_filed i vs)
     \<and> co_lost co' = co_lost co @ published cfg av is_lost i vs
     \<and> co_backlog co' = co_backlog co + int (length (published cfg av (\<lambda>x. \<not> is_ok x) i vs))
     \<and> co_done co' = co_done co"
proof (induction vs arbitrary: i co xs co')
  case Nil
  then show ?case by simp
next
  case (Cons v vs)
  let ?e = "ingest_event cfg (av i) ''v1_events'' v co"
  obtain ys where ys: "ingest_all cfg av (Suc i) vs (snd ?e) = (ys, co')" "xs = fst ?e # ys"
    using Cons.prems by (cases "ingest_all cfg av (Suc i) vs (snd ?e)") (simp add: split_beta Let_def)
  show ?case using Cons.IH [OF ys(1)] by (simp add: ys(2) co_simps)
qed

lemma pub_outcome_not_INVALID [simp]: "pub_outcome reply \<noteq> INVALID"
  by (cases reply) (simp_all add: pub_outcome_def)

lemma outcomes_partition:
  "length xs = length (filter (\<lambda>x. x = ACCEPTED) xs) + length (filter (\<lambda>x. x = INVALID) xs) + length (filter (\<lambda>x. x = FALLBACK) xs)"
proof (induction xs)
  case (Cons x xs)
  then show ?case by (cases x) auto
qed simp

lemma post_batch_answered:
  assumes "\<not> kc_max_batch cfg < length (event_list body)" "post_batch cfg av body co = (r, co')"
  shows "ir_status r = 202 \<and> ir_received r = length (event_list body)
     \<and> ir_received r = ir_accepted r + ir_invalid r + ir_fallback r
     \<and> ir_invalid r = length (filter (\<lambda>(i, v). is_dead cfg (av i) ''v1_events'' v) (enumerate 0 (event_list body)))
     \<and> co_kafka co' = co_kafka co @ published cfg av is_ok 0 (event_list body)
     \<and> mset (lines (co_files co')) = mset (lines (co_files co)) + mset (published cfg av is_filed 0 (event_list body))
     \<and> co_lost co' = co_lost co @ published cfg av is_lost 0 (event_list body)
     \<and> co_backlog co' = co_backlog co + int (length (published cfg av (\<lambda>x. \<not> is_ok x) 0 (event_list body)))"
proof -
  let ?co = "count_metric ''received'' ''v1_events'' (int (length (event_list body))) co"
  obtain xs where xs: "ingest_all cfg av 0 (event_list body) ?co = (xs, co')"
    and r: "r = \<lparr>ir_status = 202, ir_received = length (event_list body), ir_accepted = length (filter (\<lambda>x. x = ACCEPTED) xs),
       ir_invalid = length (filter (\<lambda>x. x = INVALID) xs), ir_fallback = length (filter (\<lambda>x. x = FALLBACK) xs)\<rparr>"
    using assms by (auto simp: post_batch_def split_beta Let_def prod_eq_iff)
  have "length (filter (\<lambda>x. x = INVALID) xs) = length (filter (\<lambda>(i, v). is_dead cfg (av i) ''v1_events'' v) (enumerate 0 (event_list body)))"
    using ingest_all_parts [OF xs]
    by (simp add: filter_map comp_def split_def if_distrib cong: if_cong)
  then show ?thesis using ingest_all_parts [OF xs] outcomes_partition [of xs] by (simp add: r co_simps)
qed

text \<open>C33: A batch over the allowed size is answered 413 with every event invalid and changes nothing.  Any other is
  answered 202 and every event of it is counted once, as accepted, invalid (when it is a dead letter) or fallback.
  Each has exactly one record: acknowledged by Kafka, in a fallback file, or lost where the file could not be
  written; nothing else is added to any of them, and the gauge grows by the failed publications.\<close>

theorem batch_conserves_events:
  "let (r, co') = post_batch cfg av body co; vs = event_list body
   in ir_received r = length vs \<and> ir_received r = ir_accepted r + ir_invalid r + ir_fallback r \<and>
      (if kc_max_batch cfg < length vs then ir_status r = 413 \<and> ir_invalid r = length vs \<and> co' = co
       else ir_status r = 202
         \<and> ir_invalid r = length (filter (\<lambda>(i, v). is_dead cfg (av i) ''v1_events'' v) (enumerate 0 vs))
         \<and> co_kafka co' = co_kafka co @ published cfg av is_ok 0 vs
         \<and> mset (lines (co_files co')) = mset (lines (co_files co)) + mset (published cfg av is_filed 0 vs)
         \<and> co_lost co' = co_lost co @ published cfg av is_lost 0 vs
         \<and> co_backlog co' = co_backlog co + int (length (published cfg av (\<lambda>x. \<not> is_ok x) 0 vs)))"
proof (cases "kc_max_batch cfg < length (event_list body)")
  case True
  then show ?thesis by (simp add: post_batch_def Let_def)
next
  case False
  obtain r co' where r: "post_batch cfg av body co = (r, co')" by fastforce
  show ?thesis using post_batch_answered [OF False r] False by (simp add: r Let_def)
qed

text \<open>A pixel has one record too.\<close>

definition track_record :: "kcfg \<Rightarrow> arrival \<Rightarrow> query \<Rightarrow> string \<Rightarrow> krecord" where
  "track_record cfg av q raw_query =
     (case sig_verify (kc_hmac cfg) (kc_secret cfg) (av_now av 3 div 1000000000) q of
        SigInvalid r \<Rightarrow> dlq_record cfg av (PDict (track_raw q raw_query)) (''track_'' @ r) ''v1_track''
      | SigValid \<Rightarrow> snd (routed cfg av ''v1_track'' (PDict (track_node cfg av q))))"

lemma track_parts [co_simps]:
  "co_kafka (track cfg av q raw_query co) = co_kafka co @ (if is_ok (av_pub av) then [track_record cfg av q raw_query] else [])"
  "mset (lines (co_files (track cfg av q raw_query co))) =
     mset (lines (co_files co)) + (if is_filed (av_pub av) then {#track_record cfg av q raw_query#} else {#})"
  "co_lost (track cfg av q raw_query co) = co_lost co @ (if is_lost (av_pub av) then [track_record cfg av q raw_query] else [])"
  by (simp_all add: track_def track_record_def to_dlq_def co_simps Let_def split: sig_result.split)

end
