(* ===== verification/Fallback_Replay.thy ===== *)
theory Fallback_Replay
  imports Collector_Ingest "HOL-Library.Sublist"
begin

text \<open>
  The replay of the collector's fallback files (\<open>AdminController.kt\<close>).  The pending files are listed once, then
  each is read, its lines are published in order, and it is renamed to .done when all were accepted; a rename onto a
  file that exists raises, which ends the replay.  What the environment decides is a record: the reading of the clock
  and the reply for each line, and the failed publications of other requests that write to the directory between the
  reading of a file and its rename.  The lines of a file are records, as the writer made them.
\<close>

section \<open>Operations\<close>

record replay_env =
  rp_now :: "int \<Rightarrow> nat \<Rightarrow> int"
  rp_reply :: "int \<Rightarrow> nat \<Rightarrow> pub_reply"
  rp_others :: "int \<Rightarrow> (int \<times> krecord) list"
  \<comment> \<open>each by the hour of the file; the last with the time of the failure\<close>

definition file_lines :: "int \<Rightarrow> files \<Rightarrow> krecord list" where
  "file_lines h fs = (case map_of fs h of None \<Rightarrow> [] | Some rs \<Rightarrow> rs)"

fun republish :: "(nat \<Rightarrow> int) \<Rightarrow> (nat \<Rightarrow> pub_reply) \<Rightarrow> nat \<Rightarrow> krecord list \<Rightarrow> collector \<Rightarrow> outcome list \<times> collector" where
  "republish now reply i [] co = ([], co)"
| "republish now reply i (r # rs) co =
     (let (x, co) = publish (now i) (reply i) r co; (xs, co) = republish now reply (Suc i) rs co in (x # xs, co))"

fun others_fail :: "(int \<times> krecord) list \<Rightarrow> collector \<Rightarrow> collector" where
  "others_fail [] co = co"
| "others_fail ((now, r) # rs) co = others_fail rs (snd (publish now (PubFailed False True) r co))"

definition rename_done :: "int \<Rightarrow> collector \<Rightarrow> collector option" where
  \<comment> \<open>\<open>Files.move\<close> without an option; None: it raises\<close>
  "rename_done h co =
     (if map_of (co_done co) h \<noteq> None then None
      else Some (co\<lparr>co_files := AList.delete h (co_files co), co_done := co_done co @ [(h, file_lines h (co_files co))]\<rparr>))"

definition replay_file :: "replay_env \<Rightarrow> int \<Rightarrow> collector \<Rightarrow> (nat \<times> nat) option \<times> collector" where
  \<comment> \<open>the lines accepted and failed; None: the rename raised\<close>
  "replay_file env h co =
     (let (xs, co) = republish (rp_now env h) (rp_reply env h) 0 (file_lines h (co_files co)) co;
          co = others_fail (rp_others env h) co;
          a = length (filter (\<lambda>x. x = ACCEPTED) xs); f = length (filter (\<lambda>x. x \<noteq> ACCEPTED) xs)
      in if f = 0 then (case rename_done h co of None \<Rightarrow> (None, co) | Some co \<Rightarrow> (Some (a, f), co)) else (Some (a, f), co))"

fun replay_files :: "replay_env \<Rightarrow> int list \<Rightarrow> nat \<times> nat \<Rightarrow> collector \<Rightarrow> (nat \<times> nat) option \<times> collector" where
  "replay_files env [] acc co = (Some acc, co)"
| "replay_files env (h # hs) acc co =
     (case replay_file env h co of
        (None, co) \<Rightarrow> (None, co)
      | (Some (a, f), co) \<Rightarrow> replay_files env hs (fst acc + a, snd acc + f) co)"

definition replay :: "replay_env \<Rightarrow> collector \<Rightarrow> (nat \<times> nat \<times> nat) option \<times> collector" where
  \<comment> \<open>\<open>POST /v1/admin/fallback/replay\<close>: files, lines replayed, lines failed; None: an error\<close>
  "replay env co =
     (let hs = map fst (co_files co) in
      if hs = [] then (Some (0, 0, 0), co)
      else (case replay_files env hs (0, 0) co of
              (None, co) \<Rightarrow> (None, co)
            | (Some (a, f), co) \<Rightarrow> (Some (length hs, a, f), co\<lparr>co_backlog := co_backlog co - int a\<rparr>)))"

definition fallback_status :: "collector \<Rightarrow> nat \<times> nat" where
  \<comment> \<open>\<open>GET /v1/admin/fallback\<close>: files and lines pending\<close>
  "fallback_status co = (length (co_files co), sum_list (map (\<lambda>(h, rs). length rs) (co_files co)))"

section \<open>Files\<close>

definition files_ok :: "files \<Rightarrow> bool" where
  \<comment> \<open>the order of the names, and no file without a line\<close>
  "files_ok fs \<longleftrightarrow> sorted_wrt (<) (map fst fs) \<and> list_all (\<lambda>(h, rs). rs \<noteq> []) fs"

lemma keys_add_line: "set (map fst (add_line h r fs)) = insert h (set (map fst fs))"
  by (induction h r fs rule: add_line.induct) auto

lemma files_ok_add_line: "files_ok fs \<Longrightarrow> files_ok (add_line h r fs)"
proof (induction h r fs rule: add_line.induct)
  case (2 h r g rs fs)
  then show ?case using keys_add_line [of h r fs] by (auto simp: files_ok_def)
qed (simp add: files_ok_def)

lemma delete_filter: "AList.delete h fs = filter (\<lambda>p. fst p \<noteq> h) fs"
  by (induction fs) auto

lemma files_ok_delete: "files_ok fs \<Longrightarrow> files_ok (AList.delete h fs)"
  by (auto simp: files_ok_def delete_filter sorted_wrt_map list_all_iff sorted_wrt_filter)

lemma files_ok_distinct: "files_ok fs \<Longrightarrow> distinct (map fst fs)"
  by (simp add: files_ok_def strict_sorted_iff)

lemma file_lines_add_line:
  "files_ok fs \<Longrightarrow> file_lines g (add_line h r fs) = (if g = h then file_lines g fs @ [r] else file_lines g fs)"
proof (induction h r fs rule: add_line.induct)
  case (2 h r k rs fs)
  have "h < k \<Longrightarrow> map_of fs h = None"
    using 2 by (force simp: files_ok_def map_of_eq_None_iff)
  with 2 show ?case by (auto simp: file_lines_def files_ok_def split: option.splits)
qed (simp add: file_lines_def)

lemma lines_delete:
  "distinct (map fst fs) \<Longrightarrow> mset (lines fs) = mset (file_lines h fs) + mset (lines (AList.delete h fs))"
proof (induction fs)
  case (Cons p fs)
  obtain g rs where p: "p = (g, rs)" by (cases p)
  show ?case
  proof (cases "g = h")
    case True
    with Cons.prems have "AList.delete h fs = fs" by (simp add: p)
    with True show ?thesis by (simp add: p lines_def file_lines_def)
  next
    case False
    have "mset (lines fs) = mset (file_lines h fs) + mset (lines (AList.delete h fs))"
      using Cons by simp
    with False show ?thesis by (simp add: p lines_def file_lines_def)
  qed
qed (simp add: lines_def file_lines_def)

lemma lines_delete_add_line:
  "mset (lines (AList.delete h (add_line g r fs))) = mset (lines (AList.delete h fs)) + (if g = h then {#} else {#r#})"
  by (induction g r fs rule: add_line.induct) (auto simp: lines_def)

section \<open>A publication only adds\<close>

definition grown :: "collector \<Rightarrow> collector \<Rightarrow> bool" where
  \<comment> \<open>from one state to another the pending files are only appended to and none is renamed\<close>
  "grown co co' \<longleftrightarrow> files_ok (co_files co') \<and> co_done co' = co_done co \<and> prefix (co_lost co) (co_lost co') \<and>
     (\<forall>h. prefix (file_lines h (co_files co)) (file_lines h (co_files co')) \<and>
          mset (lines (AList.delete h (co_files co))) \<subseteq># mset (lines (AList.delete h (co_files co'))))"

lemma grown_refl: "files_ok (co_files co) \<Longrightarrow> grown co co"
  by (simp add: grown_def)

lemma grown_trans: "grown a b \<Longrightarrow> grown b c \<Longrightarrow> grown a c"
  unfolding grown_def by (elim conjE, intro conjI) (simp, simp, meson prefix_order.trans, meson prefix_order.trans subset_mset.trans)

lemma grown_files_ok: "grown a b \<Longrightarrow> files_ok (co_files b)"
  by (simp add: grown_def)

lemma publish_grown: "files_ok (co_files co) \<Longrightarrow> grown co (snd (publish now reply rec co))"
  by (auto simp: grown_def co_simps publish_files files_ok_add_line file_lines_add_line lines_delete_add_line)

lemma others_fail_grown:
  "files_ok (co_files co) \<Longrightarrow> grown co (others_fail rs co) \<and> co_kafka (others_fail rs co) = co_kafka co
     \<and> co_lost (others_fail rs co) = co_lost co \<and> co_backlog (others_fail rs co) = co_backlog co + int (length rs)"
proof (induction rs co rule: others_fail.induct)
  case (2 now r rs co)
  let ?p = "snd (publish now (PubFailed False True) r co)"
  have g: "grown co ?p" using 2 by (simp add: publish_grown)
  show ?case
    using 2(1) grown_files_ok [OF g] grown_trans [OF g] by (simp add: co_simps reply_simps)
qed (simp add: grown_refl)

lemma others_fail_lines:
  "files_ok (co_files co) \<Longrightarrow> file_lines h (co_files (others_fail rs co)) =
     file_lines h (co_files co) @ map snd (filter (\<lambda>(now, r). hour_of now = h) rs)"
proof (induction rs co rule: others_fail.induct)
  case (2 now r rs co)
  let ?p = "snd (publish now (PubFailed False True) r co)"
  have ok: "files_ok (co_files ?p)" using 2 publish_grown grown_files_ok by blast
  show ?case using 2(1) [OF ok] 2(2) by (simp add: publish_files reply_simps file_lines_add_line)
qed simp

definition accepted_of :: "(nat \<Rightarrow> pub_reply) \<Rightarrow> nat \<Rightarrow> krecord list \<Rightarrow> krecord list" where
  "accepted_of reply i rs = map snd (filter (\<lambda>(k, r). is_ok (reply k)) (enumerate i rs))"

lemma accepted_of_simps [simp]:
  "accepted_of reply i [] = []"
  "accepted_of reply i (r # rs) = (if is_ok (reply i) then [r] else []) @ accepted_of reply (Suc i) rs"
  by (simp_all add: accepted_of_def)

lemma pub_outcome_ACCEPTED [simp]: "pub_outcome reply = ACCEPTED \<longleftrightarrow> is_ok reply"
  by (cases reply) (simp_all add: pub_outcome_def reply_simps)

lemma republish_parts:
  "files_ok (co_files co) \<Longrightarrow> republish now reply i rs co = (xs, co') \<Longrightarrow>
     grown co co' \<and> co_kafka co' = co_kafka co @ accepted_of reply i rs
     \<and> length (filter (\<lambda>x. x = ACCEPTED) xs) = length (accepted_of reply i rs)
     \<and> length (filter (\<lambda>x. x = ACCEPTED) xs) + length (filter (\<lambda>x. x \<noteq> ACCEPTED) xs) = length rs
     \<and> co_backlog co' = co_backlog co + int (length (filter (\<lambda>x. x \<noteq> ACCEPTED) xs))"
proof (induction rs arbitrary: i co xs co')
  case Nil
  then show ?case by (simp add: grown_refl)
next
  case (Cons r rs)
  let ?p = "publish (now i) (reply i) r co"
  have g: "grown co (snd ?p)" using Cons.prems(1) by (rule publish_grown)
  obtain ys where ys: "republish now reply (Suc i) rs (snd ?p) = (ys, co')" "xs = fst ?p # ys"
    using Cons.prems(2) by (cases "republish now reply (Suc i) rs (snd ?p)") (simp add: split_beta Let_def)
  show ?case
    using Cons.IH [OF grown_files_ok [OF g] ys(1)] grown_trans [OF g] by (simp add: ys(2) co_simps)
qed

lemma accepted_of_all: "length (accepted_of reply i rs) = length rs \<Longrightarrow> accepted_of reply i rs = rs"
proof (induction rs arbitrary: i)
  case (Cons r rs)
  have "length (accepted_of reply (Suc i) rs) \<le> length rs"
    unfolding accepted_of_def by (metis length_enumerate length_filter_le length_map)
  with Cons show ?case by (auto split: if_splits)
qed simp

section \<open>What a replay does\<close>

definition held :: "collector \<Rightarrow> krecord multiset" where
  \<comment> \<open>the records that Kafka has acknowledged or that are pending\<close>
  "held co = mset (co_kafka co) + mset (lines (co_files co))"

lemma grown_lines: "files_ok (co_files a) \<Longrightarrow> grown a b \<Longrightarrow> mset (lines (co_files a)) \<subseteq># mset (lines (co_files b))"
proof -
  assume ok: "files_ok (co_files a)" and g: "grown a b"
  fix h :: int
  have "prefix (file_lines h (co_files a)) (file_lines h (co_files b))" using g by (simp add: grown_def)
  then have "mset (file_lines h (co_files a)) \<subseteq># mset (file_lines h (co_files b))" by (auto simp: prefix_def)
  moreover have "mset (lines (AList.delete h (co_files a))) \<subseteq># mset (lines (AList.delete h (co_files b)))"
    using g by (simp add: grown_def)
  ultimately show ?thesis
    using lines_delete [OF files_ok_distinct [OF ok]] lines_delete [OF files_ok_distinct [OF grown_files_ok [OF g]]]
    by (metis subset_mset.add_mono)
qed

text \<open>The replay of a file ends in one of three ways: some line failed, the rename raised, or the file was renamed.\<close>

lemma replay_file_cases:
  assumes ok: "files_ok (co_files co)"
    and run: "republish (rp_now env h) (rp_reply env h) 0 (file_lines h (co_files co)) co = (xs, co1)"
    and oth: "co2 = others_fail (rp_others env h) co1"
  obtains
    (failed) f where "replay_file env h co = (Some (length (accepted_of (rp_reply env h) 0 (file_lines h (co_files co))), Suc f), co2)"
  | (stuck) "accepted_of (rp_reply env h) 0 (file_lines h (co_files co)) = file_lines h (co_files co)"
      "map_of (co_done co) h \<noteq> None" "replay_file env h co = (None, co2)"
  | (moved) "accepted_of (rp_reply env h) 0 (file_lines h (co_files co)) = file_lines h (co_files co)"
      "map_of (co_done co) h = None"
      "replay_file env h co = (Some (length (file_lines h (co_files co)), 0),
         co2\<lparr>co_files := AList.delete h (co_files co2), co_done := co_done co2 @ [(h, file_lines h (co_files co2))]\<rparr>)"
proof -
  let ?ls = "file_lines h (co_files co)" and ?acc = "accepted_of (rp_reply env h) 0 (file_lines h (co_files co))"
  note parts = republish_parts [OF ok run]
  have g1: "grown co co1" using parts by simp
  have g2: "grown co co2" using others_fail_grown [OF grown_files_ok [OF g1]] grown_trans [OF g1] by (simp add: oth)
  have dn: "co_done co2 = co_done co" using g2 by (simp add: grown_def)
  let ?f = "length (filter (\<lambda>x. x \<noteq> ACCEPTED) xs)"
  have a: "length (filter (\<lambda>x. x = ACCEPTED) xs) = length ?acc" using parts by simp
  have run2: "replay_file env h co = (if ?f = 0 then (case rename_done h co2 of None \<Rightarrow> (None, co2) | Some co \<Rightarrow> (Some (length ?acc, ?f), co))
      else (Some (length ?acc, ?f), co2))"
    by (simp only: replay_file_def run Let_def prod.case oth a)
  show thesis
  proof (cases ?f)
    case (Suc f)
    then show thesis using failed [of f] run2 by simp
  next
    case 0
    have len: "length ?acc = length ?ls" using parts 0 by linarith
    note all = accepted_of_all [OF len]
    show thesis
    proof (cases "map_of (co_done co) h")
      case None
      then show thesis using moved [OF all None] run2 0 len by (simp add: rename_done_def dn)
    next
      case (Some x)
      then show thesis using stuck [OF all] run2 0 by (simp add: rename_done_def dn)
    qed
  qed
qed

lemma replay_file_keeps:
  assumes ok: "files_ok (co_files co)" and r: "replay_file env h co = (res, co')"
  shows "files_ok (co_files co') \<and> held co \<subseteq># held co' \<and> prefix (co_lost co) (co_lost co')
    \<and> (case res of None \<Rightarrow> True | Some (a, f) \<Rightarrow> length (co_kafka co') = length (co_kafka co) + a)"
proof -
  obtain xs co1 where run: "republish (rp_now env h) (rp_reply env h) 0 (file_lines h (co_files co)) co = (xs, co1)"
    by fastforce
  define co2 where "co2 = others_fail (rp_others env h) co1"
  let ?acc = "accepted_of (rp_reply env h) 0 (file_lines h (co_files co))"
  note parts = republish_parts [OF ok run]
  have g1: "grown co co1" using parts by simp
  have g2: "grown co co2" using others_fail_grown [OF grown_files_ok [OF g1]] grown_trans [OF g1] by (simp add: co2_def)
  note ok2 = grown_files_ok [OF g2]
  have k: "co_kafka co2 = co_kafka co @ ?acc"
    using others_fail_grown [OF grown_files_ok [OF g1]] parts by (simp add: co2_def)
  have l: "prefix (co_lost co) (co_lost co2)" using g2 by (simp add: grown_def)
  have h2: "held co \<subseteq># held co2"
    using subset_mset.trans [OF grown_lines [OF ok g2] mset_subset_eq_add_right] by (simp add: held_def k add.assoc)
  show ?thesis
    using ok run co2_def
  proof (cases rule: replay_file_cases)
    case (failed f)
    then show ?thesis using r ok2 h2 k l by auto
  next
    case stuck
    then show ?thesis using r ok2 h2 l by auto
  next
    case moved
    have "mset (lines (AList.delete h (co_files co))) \<subseteq># mset (lines (AList.delete h (co_files co2)))"
      using g2 by (simp add: grown_def)
    then have "held co \<subseteq># mset (co_kafka co) + (mset (file_lines h (co_files co)) + mset (lines (AList.delete h (co_files co2))))"
      unfolding held_def lines_delete [OF files_ok_distinct [OF ok], of h] by (intro subset_mset.add_mono) simp_all
    then show ?thesis using moved r k l files_ok_delete [OF ok2] by (auto simp: held_def add.assoc)
  qed
qed

lemma replay_files_keeps:
  "files_ok (co_files co) \<Longrightarrow> replay_files env hs acc co = (res, co') \<Longrightarrow>
     files_ok (co_files co') \<and> held co \<subseteq># held co' \<and> prefix (co_lost co) (co_lost co')
     \<and> (case res of None \<Rightarrow> True | Some (a, f) \<Rightarrow> length (co_kafka co') + fst acc = length (co_kafka co) + a)"
proof (induction hs arbitrary: acc co)
  case Nil
  then show ?case by auto
next
  case (Cons h hs)
  obtain r1 co1 where r1: "replay_file env h co = (r1, co1)" by fastforce
  note k1 = replay_file_keeps [OF Cons.prems(1) r1]
  show ?case
  proof (cases r1)
    case None
    then show ?thesis using k1 r1 Cons.prems(2) by auto
  next
    case (Some af)
    obtain a f where af: "af = (a, f)" by (cases af)
    have ok1: "files_ok (co_files co1)" using k1 by simp
    have "replay_files env hs (fst acc + a, snd acc + f) co1 = (res, co')"
      using Cons.prems(2) by (simp add: r1 Some af)
    from Cons.IH [OF ok1 this] k1 show ?thesis
      by (auto simp: Some af elim: subset_mset.trans prefix_order.trans split: option.splits)
  qed
qed

lemma replay_keeps:
  assumes ok: "files_ok (co_files co)" and r: "replay env co = (res, co')"
  shows "files_ok (co_files co') \<and> held co \<subseteq># held co' \<and> prefix (co_lost co) (co_lost co')
     \<and> (case res of None \<Rightarrow> True
        | Some (n, a, f) \<Rightarrow> n = length (co_files co) \<and> length (co_kafka co') = length (co_kafka co) + a)"
proof (cases "co_files co = []")
  case True
  then show ?thesis using r ok by (auto simp: replay_def)
next
  case False
  obtain r1 co1 where r1: "replay_files env (map fst (co_files co)) (0, 0) co = (r1, co1)" by fastforce
  show ?thesis
    using replay_files_keeps [OF ok r1] r False
    by (auto simp: replay_def r1 held_def Let_def split: option.splits prod.splits)
qed

section \<open>Runs of the collector\<close>

text \<open>
  The requests the collector serves, with the records of the events they bring.  A replay runs with no other request
  writing to the fallback directory meanwhile.
\<close>

inductive collector_run :: "kcfg \<Rightarrow> krecord list \<Rightarrow> collector \<Rightarrow> bool" for cfg where
  start: "collector_run cfg [] collector_init"
| batch: "collector_run cfg rs co \<Longrightarrow> length (event_list body) \<le> kc_max_batch cfg \<Longrightarrow>
    collector_run cfg (rs @ published cfg av (\<lambda>_. True) 0 (event_list body)) (snd (post_batch cfg av body co))"
| too_large: "collector_run cfg rs co \<Longrightarrow> kc_max_batch cfg < length (event_list body) \<Longrightarrow>
    collector_run cfg rs (snd (post_batch cfg av body co))"
| pixel: "collector_run cfg rs co \<Longrightarrow>
    collector_run cfg (rs @ [track_record cfg av q raw_query]) (track cfg av q raw_query co)"
| replayed: "collector_run cfg rs co \<Longrightarrow> rp_others env = (\<lambda>h. []) \<Longrightarrow> collector_run cfg rs (snd (replay env co))"

lemma ingest_event_files_ok:
  "files_ok (co_files co) \<Longrightarrow> files_ok (co_files (snd (ingest_event cfg av ep v co)))"
  by (simp add: ingest_event_routed co_simps publish_files files_ok_add_line split: prod.split option.split)

lemma ingest_all_files_ok:
  "files_ok (co_files co) \<Longrightarrow> files_ok (co_files (snd (ingest_all cfg av i vs co)))"
proof (induction vs arbitrary: i co)
  case (Cons v vs)
  then show ?case
    using ingest_event_files_ok [OF Cons.prems] by (simp add: split_beta Let_def)
qed simp

lemma post_batch_files_ok:
  "files_ok (co_files co) \<Longrightarrow> files_ok (co_files (snd (post_batch cfg av body co)))"
  by (simp add: post_batch_def Let_def split_beta ingest_all_files_ok co_simps)

lemma track_files_ok:
  "files_ok (co_files co) \<Longrightarrow> files_ok (co_files (track cfg av q raw_query co))"
  by (simp add: track_def Let_def to_dlq_def ingest_event_files_ok co_simps publish_files files_ok_add_line
      split: sig_result.split)

lemma reply_cases: "is_ok reply \<or> is_filed reply \<or> is_lost reply"
    "\<not> (is_ok reply \<and> is_filed reply)" "\<not> (is_ok reply \<and> is_lost reply)" "\<not> (is_filed reply \<and> is_lost reply)"
  by (cases reply; auto simp: reply_simps)+

lemma published_split:
  "mset (published cfg av (\<lambda>_. True) i vs) =
     mset (published cfg av is_ok i vs) + mset (published cfg av is_filed i vs) + mset (published cfg av is_lost i vs)"
  by (induction vs arbitrary: i) (use reply_cases in auto)

definition known :: "collector \<Rightarrow> krecord multiset" where
  "known co = held co + mset (co_lost co)"

lemma known_publish: "known (snd (publish now reply rec co)) = add_mset rec (known co)"
  using reply_cases [of reply] by (auto simp: known_def held_def co_simps)

lemma known_republish:
  "set_mset (known (snd (republish now reply i rs co))) = set_mset (known co) \<union> set rs"
  by (induction rs arbitrary: i co) (simp_all add: split_beta Let_def known_publish)

lemma known_batch:
  assumes "length (event_list body) \<le> kc_max_batch cfg"
  shows "known (snd (post_batch cfg av body co)) = known co + mset (published cfg av (\<lambda>_. True) 0 (event_list body))"
proof -
  obtain r co' where r: "post_batch cfg av body co = (r, co')" by fastforce
  show ?thesis
    using post_batch_answered [OF _ r] assms by (simp add: r known_def held_def published_split)
qed

lemma known_track: "known (track cfg av q raw_query co) = add_mset (track_record cfg av q raw_query) (known co)"
  using reply_cases [of "av_pub av"] by (auto simp: known_def held_def co_simps)

lemma file_lines_subset: "set (file_lines h fs) \<subseteq> set (lines fs)"
proof (cases "map_of fs h")
  case (Some rs)
  then show ?thesis by (force simp: file_lines_def lines_def dest: map_of_SomeD)
qed (simp add: file_lines_def)

lemma lines_delete_subset: "set (lines (AList.delete h fs)) \<subseteq> set (lines fs)"
  by (auto simp: lines_def delete_filter)

lemma replay_file_known:
  assumes "rp_others env = (\<lambda>h. [])"
  shows "set_mset (known (snd (replay_file env h co))) \<subseteq> set_mset (known co)"
proof -
  obtain xs co1 where run: "republish (rp_now env h) (rp_reply env h) 0 (file_lines h (co_files co)) co = (xs, co1)"
    by fastforce
  have k1: "set_mset (known co1) \<subseteq> set_mset (known co)"
    using known_republish [of "rp_now env h" "rp_reply env h" 0 "file_lines h (co_files co)" co] file_lines_subset [of h "co_files co"]
    by (auto simp: run known_def held_def)
  have k2: "set_mset (known co') \<subseteq> set_mset (known co1)" if "rename_done h co1 = Some co'" for co'
    using that lines_delete_subset [of h "co_files co1"] by (auto simp: rename_done_def known_def held_def split: if_splits)
  show ?thesis
    using k1 k2 by (auto simp: replay_file_def run assms Let_def split: option.split)
qed

lemma replay_files_known:
  "rp_others env = (\<lambda>h. []) \<Longrightarrow> set_mset (known (snd (replay_files env hs acc co))) \<subseteq> set_mset (known co)"
proof (induction hs arbitrary: acc co)
  case (Cons h hs)
  obtain r1 co1 where r1: "replay_file env h co = (r1, co1)" by fastforce
  have "set_mset (known co1) \<subseteq> set_mset (known co)" using replay_file_known [OF Cons.prems, of h co] by (simp add: r1)
  then have "set_mset (known (snd (replay_files env hs acc' co1))) \<subseteq> set_mset (known co)" for acc'
    using Cons.IH [OF Cons.prems, of acc' co1] by (rule order_trans [rotated])
  then show ?case using \<open>set_mset (known co1) \<subseteq> set_mset (known co)\<close> by (auto simp: r1 split: option.split)
qed simp

lemma replay_known:
  assumes "rp_others env = (\<lambda>h. [])"
  shows "set_mset (known (snd (replay env co))) \<subseteq> set_mset (known co)"
proof -
  obtain r1 co1 where r1: "replay_files env (map fst (co_files co)) (0, 0) co = (r1, co1)" by fastforce
  show ?thesis
    using replay_files_known [OF assms, of "map fst (co_files co)" "(0, 0)" co]
    by (auto simp: replay_def r1 Let_def known_def held_def split: option.split prod.split)
qed


definition example_cfg :: kcfg where
  "example_cfg = \<lparr>kc_hmac = (\<lambda>k m. m), kc_secret = [], kc_max_batch = 2, kc_number = (\<lambda>x. []), kc_iso = (\<lambda>s. None)\<rparr>"

definition example_arrival :: "pub_reply \<Rightarrow> arrival" where
  "example_arrival reply = \<lparr>av_now = (\<lambda>i. 0), av_uuid = ''u'', av_pub = reply\<rparr>"

definition example_env :: "pub_reply \<Rightarrow> (int \<times> krecord) list \<Rightarrow> replay_env" where
  "example_env reply others = \<lparr>rp_now = (\<lambda>h i. 0), rp_reply = (\<lambda>h i. reply), rp_others = (\<lambda>h. others)\<rparr>"


section \<open>Two defects of the replay\<close>

lemma republish_ok:
  "co_files (snd (republish now (\<lambda>i. PubOk) i rs co)) = co_files co
   \<and> co_kafka (snd (republish now (\<lambda>i. PubOk) i rs co)) = co_kafka co @ rs
   \<and> co_done (snd (republish now (\<lambda>i. PubOk) i rs co)) = co_done co
   \<and> co_backlog (snd (republish now (\<lambda>i. PubOk) i rs co)) = co_backlog co
   \<and> fst (republish now (\<lambda>i. PubOk) i rs co) = replicate (length rs) ACCEPTED"
  by (induction rs arbitrary: i co) (simp_all add: split_beta Let_def co_simps publish_files reply_simps pub_outcome_def)

lemma replay_blocked_once:
  assumes "co_files co = (h, rs) # fs" "map_of (co_done co) h \<noteq> None"
    and "rp_reply env h = (\<lambda>i. PubOk)" "rp_others env h = []"
  shows "fst (replay env co) = None \<and> co_files (snd (replay env co)) = co_files co
    \<and> co_kafka (snd (replay env co)) = co_kafka co @ rs \<and> co_done (snd (replay env co)) = co_done co
    \<and> co_backlog (snd (replay env co)) = co_backlog co"
proof -
  obtain xs co1 where run: "republish (rp_now env h) (\<lambda>i. PubOk) 0 rs co = (xs, co1)" by fastforce
  note k = republish_ok [of "rp_now env h" 0 rs co, unfolded run]
  have "file_lines h (co_files co) = rs" by (simp add: assms(1) file_lines_def)
  moreover have "rename_done h co1 = None" using k assms(2) by (simp add: rename_done_def)
  ultimately have "replay_file env h co = (None, co1)"
    using k by (simp add: replay_file_def assms(3, 4) run Let_def)
  then show ?thesis using k by (simp add: replay_def assms(1) Let_def)
qed



text \<open>C37: When every line of a file is accepted and its rename succeeds, the lines that other requests append between
  the reading and the rename are renamed with it: they are neither sent nor pending any more.\<close>

theorem rename_takes_unsent_lines:
  assumes "files_ok (co_files co)" "rp_reply env h = (\<lambda>i. PubOk)" "map_of (co_done co) h = None"
  shows "let ls = file_lines h (co_files co); new = map snd (filter (\<lambda>(now, r). hour_of now = h) (rp_others env h));
      (res, co') = replay_file env h co
    in res = Some (length ls, 0) \<and> co_kafka co' = co_kafka co @ ls \<and> map_of (co_files co') h = None
      \<and> map_of (co_done co') h = Some (ls @ new)"
proof -
  let ?ls = "file_lines h (co_files co)"
  obtain xs co1 where run: "republish (rp_now env h) (\<lambda>i. PubOk) 0 ?ls co = (xs, co1)" by fastforce
  note k = republish_ok [of "rp_now env h" 0 ?ls co, unfolded run, simplified]
  let ?co2 = "others_fail (rp_others env h) co1"
  have ok1: "files_ok (co_files co1)" using k assms(1) by simp
  have "grown co1 ?co2 \<and> co_kafka ?co2 = co_kafka co1" using others_fail_grown [OF ok1] by simp
  then have d: "co_done ?co2 = co_done co" "co_kafka ?co2 = co_kafka co @ ?ls" using k by (simp_all add: grown_def)
  have "file_lines h (co_files ?co2) = ?ls @ map snd (filter (\<lambda>(now, r). hour_of now = h) (rp_others env h))"
    using others_fail_lines [OF ok1] k by simp
  then show ?thesis
    using k assms(3) by (simp add: replay_file_def assms(2) run Let_def rename_done_def d map_add_def delete_conv')
qed

lemma rename_takes_unsent_lines_witness:
  "let co = snd (publish 0 (PubFailed False True) (''t'', ''k'', []) collector_init); env = example_env PubOk [(1, (''t'', ''m'', []))];
      ls = file_lines 0 (co_files co); new = map snd (filter (\<lambda>(now, r). hour_of now = 0) (rp_others env 0));
      (res, co') = replay_file env 0 co
    in res = Some (length ls, 0) \<and> co_kafka co' = co_kafka co @ ls \<and> map_of (co_files co') 0 = None
      \<and> map_of (co_done co') 0 = Some (ls @ new)"
  using rename_takes_unsent_lines [of "snd (publish 0 (PubFailed False True) (''t'', ''k'', []) collector_init)"
      "example_env PubOk [(1, (''t'', ''m'', []))]" 0]
  by (simp add: publish_def fallback_append_def count_metric_def collector_init_def hour_of_def example_env_def files_ok_def Let_def)

end
