(* ===== verification/Delivery.thy ===== *)
theory Delivery
  imports Traffic Player Fallback_Replay
begin

text \<open>
  The composition of the senders with the collector: what a generator's or a player's event becomes, posted in a batch
  or sent as a tracking pixel.
\<close>

section \<open>Texts and times\<close>

lemma digit_not_space [simp]: "is_digit c \<Longrightarrow> \<not> is_space c"
  by (auto simp: is_digit_def is_space_def)

lemma dec_int_not_blank [simp]: "\<not> kt_blank (dec_int n)"
proof -
  have "\<exists>c \<in> set (dec_nat m). \<not> is_space c" for m
    using dec_nat_digits [of m] by (cases "dec_nat m") auto
  then show ?thesis by (auto simp: kt_blank_def dec_int_def list_all_iff)
qed

lemma instant_str_Z: "\<exists>s. instant_str ns = s @ ''Z''"
  unfolding instant_str_def Let_def by (metis append.assoc)

lemma instant_str_not_long: "to_long (instant_str ns) = None"
proof -
  obtain s where s: "instant_str ns = s @ ''Z''" using instant_str_Z by blast
  have z: "\<not> is_digit (CHR ''Z'')" by (simp add: is_digit_def)
  show ?thesis by (cases s) (auto simp: s to_long_def z split: list.splits if_splits)
qed

lemma instant_str_not_blank: "\<not> kt_blank (instant_str ns)"
proof -
  obtain s where s: "instant_str ns = s @ ''Z''" using instant_str_Z by blast
  have "\<not> is_space (CHR ''Z'')" by (simp add: is_space_def)
  then show ?thesis by (simp add: s kt_blank_def)
qed

lemma parse_text_instant: "parse_text cfg (instant_str ns) = kc_iso cfg (instant_str ns)"
  by (simp add: instant_str_not_long instant_str_not_blank)

lemma parse_text_millis: "0 \<le> t \<Longrightarrow> t < 2 ^ 63 \<Longrightarrow> parse_text cfg (dec_int t) = Some (t * 1000000)"
  by (simp add: to_long_dec_int)

lemma wrap64_id: "0 \<le> t \<Longrightarrow> t < 2 ^ 63 \<Longrightarrow> wrap64 t = t"
  by (simp add: wrap64_def)

lemma trunc_ms_millis [simp]: "trunc_ms (t * 1000000) = t * 1000000"
  by (simp add: trunc_ms_def)

section \<open>What the collector makes of a dictionary\<close>

definition has_value :: "dict \<Rightarrow> string \<Rightarrow> bool" where
  "has_value d f \<longleftrightarrow> (case map_of d f of None \<Rightarrow> False | Some PNone \<Rightarrow> False | Some (PStr s) \<Rightarrow> \<not> kt_blank s | Some v \<Rightarrow> True)"

lemma first_problem_None_iff: "first_problem d fs = None \<longleftrightarrow> list_all (has_value d) fs"
  by (induction d fs rule: first_problem.induct) (auto simp: has_value_def split: option.splits pyval.splits)

lemma first_problem_missing:
  "list_all (has_value d) fs \<Longrightarrow> map_of d f \<in> {None, Some PNone} \<Longrightarrow> first_problem d (fs @ f # gs) = Some (''missing_field:'' @ f)"
  by (induction fs) (auto simp: has_value_def split: option.splits pyval.splits)

lemma routed_fail:
  "first_problem d REQUIRED = Some r \<Longrightarrow> routed cfg av ep (PDict d) = (Some r, dlq_record cfg av (PDict d) r ep)"
  by (simp add: routed_def validate_def)

lemma routed_valid:
  assumes "list_all (has_value d) REQUIRED" "parse_instant cfg (dget d ''event_time'') = Some et"
    and "et \<le> av_now av 0 + 300000000000" "topic_for (as_text cfg (dget d ''event_type'')) = Some topic"
  shows "routed cfg av ep (PDict d) = (None, topic, event_key cfg (enrich av et ep d), enrich av et ep d)"
  using assms first_problem_None_iff [of d REQUIRED]
  by (simp add: routed_def validate_def MAX_FUTURE_SKEW_SECONDS_def)

lemma dget_enrich:
  "dget (enrich av et ep d) k =
     (if k = ''source'' then dget_or d ''source'' (PStr ''client'')
      else if k = ''ingest_endpoint'' then PStr ep
      else if k = ''event_time'' then PStr (instant_str (trunc_ms et))
      else if k = ''server_ts'' then PStr (instant_str (trunc_ms (av_now av 1)))
      else dget d k)"
proof (cases "map_of d ''source''")
  case None
  then show ?thesis by (simp add: enrich_def Let_def dget_or_def)
next
  case (Some v)
  then show ?thesis by (simp add: enrich_def Let_def dget_or_def dget_def)
qed

section \<open>Events that can be sent\<close>

definition text_field :: "event \<Rightarrow> string \<Rightarrow> bool" where
  "text_field ev k \<longleftrightarrow> (case map_of ev k of Some (PStr s) \<Rightarrow> \<not> kt_blank s | _ \<Rightarrow> False)"

definition sendable :: "event \<Rightarrow> int \<Rightarrow> bool" where
  \<comment> \<open>texts that are not blank, a time in milliseconds, and a request id that is a text if there is one\<close>
  "sendable ev t \<longleftrightarrow> text_field ev ''event_id'' \<and> text_field ev ''event_type'' \<and> text_field ev ''campaign_id'' \<and>
     map_of ev ''event_time'' = Some (PInt t) \<and> 0 \<le> t \<and> t < 2 ^ 63 \<and>
     (case map_of ev ''ad_request_id'' of None \<Rightarrow> True | Some (PStr s) \<Rightarrow> True | _ \<Rightarrow> False)"

definition reads_back :: "kcfg \<Rightarrow> int \<Rightarrow> bool" where
  \<comment> \<open>the reader of ISO texts reads what \<open>Instant.toString\<close> printed\<close>
  "reads_back cfg ns \<longleftrightarrow> kc_iso cfg (instant_str ns) = Some ns"

lemma text_fieldE:
  assumes "text_field ev k"
  obtains s where "map_of ev k = Some (PStr s)" "\<not> kt_blank s"
  using assms by (auto simp: text_field_def split: option.splits pyval.splits)

lemma text_field_value: "text_field ev k \<Longrightarrow> has_value ev k"
  by (auto simp: text_field_def has_value_def split: option.splits pyval.splits)

lemma sendable_values: "sendable ev t \<Longrightarrow> list_all (has_value ev) REQUIRED"
  by (simp add: sendable_def REQUIRED_def text_field_value) (simp add: has_value_def)

lemma post_routed:
  assumes "sendable ev t" "t * 1000000 \<le> av_now av 0 + 300000000000" "topic_for (as_text cfg (dget ev ''event_type'')) = Some topic"
  shows "routed cfg av ep (PDict ev) =
    (None, topic, event_key cfg (enrich av (t * 1000000) ep ev), enrich av (t * 1000000) ep ev)"
  using assms(1) by (intro routed_valid sendable_values [OF assms(1)] assms(2, 3)) (simp add: sendable_def dget_def wrap64_id)

section \<open>Pixels\<close>

definition told :: "(pyval \<Rightarrow> string) \<Rightarrow> pyval \<Rightarrow> pyval" where
  \<comment> \<open>a value as a pixel carries it\<close>
  "told repr v = (if v = PNone then PNone else PStr (py_str repr v))"

lemma told_simps [simp]: "told repr PNone = PNone" "told repr (PStr s) = PStr s" "told repr (PInt i) = PStr (dec_int i)"
  by (simp_all add: told_def py_str_def)

lemma map_of_fields:
  "distinct (map fst m) \<Longrightarrow>
   map_of (concat (map (\<lambda>(pk, ek). let v = dget ev ek in if v \<noteq> PNone then [(pk, py_str repr v)] else []) m)) k =
     (case map_of m k of None \<Rightarrow> None | Some ek \<Rightarrow> if dget ev ek = PNone then None else Some (py_str repr (dget ev ek)))"
proof (induction m)
  case (Cons p m)
  obtain pk ek where p: "p = (pk, ek)" by (cases p)
  have "map_of m pk = None" using Cons.prems by (simp add: p map_of_eq_None_iff image_iff)
  then show ?case using Cons by (auto simp: p Let_def map_add_def split: option.splits)
qed simp

definition sent_pixel :: "kcfg \<Rightarrow> (pyval \<Rightarrow> string) \<Rightarrow> int \<Rightarrow> string \<Rightarrow> event \<Rightarrow> query \<Rightarrow> bool" where
  \<comment> \<open>the query holds the parameters of the event's pixel, in some order\<close>
  "sent_pixel cfg repr now fresh ev q \<longleftrightarrow>
     mset q = mset (as_query (pixel_params repr (kc_hmac cfg) (kc_secret cfg) now fresh ev False))"

lemma pixel_value:
  assumes "sent_pixel cfg repr now fresh ev q" "map_of PIXEL_MAP k = Some f"
  shows "first_value q k = (if dget ev f = PNone then None else Some (py_str repr (dget ev f)))"
    "param q k = told repr (dget ev f)"
    "param_or q k x = (if dget ev f = PNone then PStr x else told repr (dget ev f))"
proof -
  let ?ps = "pixel_params repr (kc_hmac cfg) (kc_secret cfg) now fresh ev False"
  have d: "distinct (map fst ?ps)"
    using pixel_keys(1, 2) [of repr ev "dec_int (now + 300)"] by (simp add: pixel_params_def Let_def)
  have k: "k \<noteq> ''exp''" "k \<noteq> ''sig''" using assms(2) by (auto simp: PIXEL_MAP_def split: if_splits)
  have "first_value q k = map_of ?ps k"
    using assms(1) by (intro first_value_perm [OF d]) (simp add: sent_pixel_def)
  also have "\<dots> = map_of (pixel_fields repr ev) k"
    using k by (simp add: pixel_params_def Let_def map_add_def split: option.splits)
  also have "\<dots> = (if dget ev f = PNone then None else Some (py_str repr (dget ev f)))"
    unfolding pixel_fields_def using assms(2) by (subst map_of_fields) (simp_all add: PIXEL_MAP_def)
  finally show v: "first_value q k = (if dget ev f = PNone then None else Some (py_str repr (dget ev f)))" .
  show "param q k = told repr (dget ev f)"
    "param_or q k x = (if dget ev f = PNone then PStr x else told repr (dget ev f))"
    by (simp_all add: param_def param_or_def v told_def)
qed

lemma PIXEL_MAP_get:
  "map_of PIXEL_MAP ''eid'' = Some ''event_id''" "map_of PIXEL_MAP ''et'' = Some ''event_type''"
  "map_of PIXEL_MAP ''cid'' = Some ''campaign_id''" "map_of PIXEL_MAP ''ts'' = Some ''event_time''"
  "map_of PIXEL_MAP ''arid'' = Some ''ad_request_id''" "map_of PIXEL_MAP ''crid'' = Some ''creative_id''"
  "map_of PIXEL_MAP ''q'' = Some ''quartile''" "map_of PIXEL_MAP ''sid'' = Some ''session_id''"
  "map_of PIXEL_MAP ''src'' = Some ''source''"
  by (simp_all add: PIXEL_MAP_def)

definition pixel_event :: "(pyval \<Rightarrow> string) \<Rightarrow> event \<Rightarrow> int \<Rightarrow> event" where
  \<comment> \<open>what the collector reconstructs from an event's pixel\<close>
  "pixel_event repr ev ns =
     [(''event_id'', told repr (dget ev ''event_id'')),
      (''event_type'', if dget ev ''event_type'' = PNone then PStr ''impression'' else told repr (dget ev ''event_type'')),
      (''campaign_id'', told repr (dget ev ''campaign_id'')), (''event_time'', PStr (instant_str ns)),
      (''ad_request_id'', told repr (dget ev ''ad_request_id'')), (''creative_id'', told repr (dget ev ''creative_id'')),
      (''quartile'', told repr (dget ev ''quartile'')), (''session_id'', told repr (dget ev ''session_id'')),
      (''source'', if dget ev ''source'' = PNone then PStr ''client'' else told repr (dget ev ''source'')),
      (''transport'', PStr ''pixel'')]"

lemma track_node_pixel:
  assumes "sent_pixel cfg repr now fresh ev q"
  shows "track_node cfg av q = pixel_event repr ev
    (case Option.bind (if dget ev ''event_time'' = PNone then None else Some (py_str repr (dget ev ''event_time''))) (parse_text cfg)
     of Some t \<Rightarrow> t | None \<Rightarrow> av_now av 2)"
  by (simp only: track_node_def pixel_event_def pixel_value [OF assms PIXEL_MAP_get(1)] pixel_value [OF assms PIXEL_MAP_get(2)]
      pixel_value [OF assms PIXEL_MAP_get(3)] pixel_value [OF assms PIXEL_MAP_get(4)] pixel_value [OF assms PIXEL_MAP_get(5)]
      pixel_value [OF assms PIXEL_MAP_get(6)] pixel_value [OF assms PIXEL_MAP_get(7)] pixel_value [OF assms PIXEL_MAP_get(8)]
      pixel_value [OF assms PIXEL_MAP_get(9)])

definition signs_here :: "kcfg \<Rightarrow> arrival \<Rightarrow> int \<Rightarrow> bool" where
  \<comment> \<open>a pixel signed at second \<open>now\<close> arrives before it expires\<close>
  "signs_here cfg av now \<longleftrightarrow> 0 \<le> now \<and> now + 300 < 2 ^ 63 \<and> av_now av 3 div 1000000000 \<le> now + 300"

lemma track_record_pixel:
  assumes "sent_pixel cfg repr now fresh ev q" "signs_here cfg av now" "\<And>k m. lowercase (kc_hmac cfg k m) = kc_hmac cfg k m"
  shows "track_record cfg av q raw_query = snd (routed cfg av ''v1_track'' (PDict (track_node cfg av q)))"
proof -
  let ?ps = "pixel_fields repr ev @ [(''exp'', dec_int (now + 300))]"
  have q: "mset q = mset (as_query (?ps @ [(''sig'', em_sign (kc_hmac cfg) (kc_secret cfg) ?ps)]))"
    using assms(1) by (simp add: sent_pixel_def pixel_params_def Let_def)
  have now: "0 \<le> now + 300" "now + 300 < 2 ^ 63" using assms(2) by (simp_all add: signs_here_def)
  have "sig_verify (kc_hmac cfg) (kc_secret cfg) (av_now av 3 div 1000000000) q = SigValid"
    using gen.verify_signed [OF pixel_keys now q, of "kc_hmac cfg" "kc_secret cfg"] assms(2, 3)
    by (simp add: signs_here_def em_sign_def)
  then show ?thesis by (simp add: track_record_def)
qed

section \<open>The same event by either path\<close>

text \<open>C6: An event sent as a pixel and the same event posted in a batch become records of the same topic and key with
  the same times, and the record of the pixel carries every field of the pixel's map as the text of the posted
  one: the path an event takes changes only how its values are spelled.\<close>

theorem pixel_and_post_tell_the_same:
  assumes "\<And>k m. lowercase (kc_hmac cfg k m) = kc_hmac cfg k m" "sent_pixel cfg repr now fresh ev q" "signs_here cfg av now"
    and "sendable ev t" "map_of ev ''source'' \<noteq> Some PNone" "t * 1000000 \<le> av_now av 0 + 300000000000"
    and "reads_back cfg (t * 1000000)" "topic_for (as_text cfg (dget ev ''event_type'')) = Some topic"
  shows "\<exists>key posted tracked.
     routed cfg av ''v1_events'' (PDict ev) = (None, topic, key, posted) \<and>
     track_record cfg av q raw_query = (topic, key, tracked) \<and>
     dget tracked ''server_ts'' = dget posted ''server_ts'' \<and>
     list_all (\<lambda>(pk, ek). dget tracked ek = told repr (dget posted ek)) PIXEL_MAP"
proof -
  let ?d = "pixel_event repr ev (t * 1000000)"
  let ?posted = "enrich av (t * 1000000) ''v1_events'' ev" and ?tracked = "enrich av (t * 1000000) ''v1_track'' ?d"
  obtain i ty c where f: "map_of ev ''event_id'' = Some (PStr i)" "map_of ev ''event_type'' = Some (PStr ty)"
      "map_of ev ''campaign_id'' = Some (PStr c)" and nb: "\<not> kt_blank i" "\<not> kt_blank ty" "\<not> kt_blank c"
    using assms(4) by (auto simp: sendable_def elim!: text_fieldE)
  have t: "map_of ev ''event_time'' = Some (PInt t)" "0 \<le> t" "t < 2 ^ 63" using assms(4) by (simp_all add: sendable_def)
  have node: "track_node cfg av q = ?d"
    unfolding track_node_pixel [OF assms(2)] using t by (simp add: dget_def py_str_def to_long_dec_int)
  have vals: "list_all (has_value ?d) REQUIRED"
    by (simp add: REQUIRED_def has_value_def pixel_event_def f dget_def nb instant_str_not_blank)
  have time: "parse_instant cfg (dget ?d ''event_time'') = Some (t * 1000000)"
    using assms(7) instant_str_not_long instant_str_not_blank by (simp add: pixel_event_def dget_def reads_back_def)
  have type: "topic_for (as_text cfg (dget ?d ''event_type'')) = Some topic"
    using assms(8) by (simp add: pixel_event_def dget_def f)
  have arid: "dget ?d ''ad_request_id'' = dget ev ''ad_request_id''"
    using assms(4) by (cases "map_of ev ''ad_request_id''")
      (auto simp: pixel_event_def sendable_def dget_def split: pyval.splits)
  have eid: "dget ?d ''event_id'' = dget ev ''event_id''" by (simp add: pixel_event_def dget_def f)
  have key: "event_key cfg ?tracked = event_key cfg ?posted"
    unfolding event_key_def dget_enrich using arid eid by (simp split: pyval.split)
  have src: "dget_or ?d ''source'' (PStr ''client'') = told repr (dget_or ev ''source'' (PStr ''client''))"
    using assms(5) by (cases "map_of ev ''source''") (simp_all add: pixel_event_def dget_or_def dget_def)
  have same: "list_all (\<lambda>(pk, ek). dget ?tracked ek = told repr (dget ?posted ek)) PIXEL_MAP"
    unfolding PIXEL_MAP_def list.pred_inject prod.case dget_enrich
    using src by (simp add: pixel_event_def dget_def f)
  have ts: "dget ?tracked ''server_ts'' = dget ?posted ''server_ts''"
    by (simp add: dget_enrich)
  show ?thesis
    using routed_valid [OF vals time assms(6) type] post_routed [OF assms(4, 6, 8)]
      track_record_pixel [OF assms(2, 3, 1)] key same ts by (simp add: node)
qed

section \<open>Broken events\<close>

definition broken :: "event \<Rightarrow> string \<Rightarrow> event" where
  \<comment> \<open>the event without a required field, as the generator injects it\<close>
  "broken ev victim = dset (dpop ev victim) ''_bad'' (PStr victim)"

lemma map_of_broken: "map_of (broken ev victim) k = (if k = ''_bad'' then Some (PStr victim) else if k = victim then None else map_of ev k)"
  by (simp add: broken_def)

lemma dget_broken: "k \<noteq> ''_bad'' \<Longrightarrow> dget (broken ev victim) k = (if k = victim then PNone else dget ev k)"
  by (simp add: map_of_broken dget_def)

lemma has_value_broken: "k \<noteq> ''_bad'' \<Longrightarrow> k \<noteq> victim \<Longrightarrow> has_value (broken ev victim) k = has_value ev k"
  by (simp add: has_value_def map_of_broken)

lemma broken_problem:
  assumes "list_all (has_value ev) REQUIRED" "victim \<in> set REQUIRED"
  shows "first_problem (broken ev victim) REQUIRED = Some (''missing_field:'' @ victim)"
proof -
  obtain fs gs where r: "REQUIRED = fs @ victim # gs" "victim \<notin> set fs" using split_list_first [OF assms(2)] by blast
  have b: "''_bad'' \<notin> set REQUIRED" by (simp add: REQUIRED_def)
  have "has_value (broken ev victim) f" if "f \<in> set fs" for f
  proof -
    have "f \<in> set REQUIRED" unfolding r(1) using that by simp
    then have "f \<noteq> ''_bad''" "f \<noteq> victim" "has_value ev f"
      using b r(2) that assms(1) by (metis, metis, simp add: list_all_iff)
    then show ?thesis by (simp add: has_value_broken)
  qed
  moreover have "map_of (broken ev victim) victim = None"
    using assms(2) b by (auto simp: map_of_broken)
  ultimately show ?thesis unfolding r(1) by (intro first_problem_missing) (simp_all add: list_all_iff)
qed

text \<open>
  A broken event that is posted is a dead letter.  Of the pixels, those without an event or campaign id are; the
  collector fills in a missing type or time, and the event is taken for an impression or for one of now.
\<close>

lemma broken_pixel_values:
  assumes "sendable ev t" "victim \<in> set REQUIRED"
  shows "list_all (\<lambda>f. f = victim \<or> has_value (pixel_event repr (broken ev victim) ns) f) [''event_id'', ''campaign_id'']"
    "has_value (pixel_event repr (broken ev victim) ns) ''event_type''"
    "has_value (pixel_event repr (broken ev victim) ns) ''event_time''"
    "victim \<in> {''event_id'', ''campaign_id''} \<Longrightarrow> map_of (pixel_event repr (broken ev victim) ns) victim = Some PNone"
proof -
  obtain i ty c where f: "dget ev ''event_id'' = PStr i" "dget ev ''event_type'' = PStr ty" "dget ev ''campaign_id'' = PStr c"
    and nb: "\<not> kt_blank i" "\<not> kt_blank ty" "\<not> kt_blank c"
    using assms(1) by (auto simp: sendable_def dget_def elim!: text_fieldE)
  have imp: "\<not> kt_blank ''impression''" by (simp add: kt_blank_def is_space_def)
  show "list_all (\<lambda>f. f = victim \<or> has_value (pixel_event repr (broken ev victim) ns) f) [''event_id'', ''campaign_id'']"
    by (simp add: pixel_event_def has_value_def dget_broken f nb)
  show "has_value (pixel_event repr (broken ev victim) ns) ''event_type''"
    by (simp add: pixel_event_def has_value_def dget_broken f nb imp)
  show "has_value (pixel_event repr (broken ev victim) ns) ''event_time''"
    by (simp add: pixel_event_def has_value_def instant_str_not_blank)
  show "victim \<in> {''event_id'', ''campaign_id''} \<Longrightarrow> map_of (pixel_event repr (broken ev victim) ns) victim = Some PNone"
    by (auto simp: pixel_event_def dget_broken)
qed

lemma missing_id_problem:
  assumes "sendable ev t" "victim \<in> {''event_id'', ''campaign_id''}"
  shows "first_problem (pixel_event repr (broken ev victim) ns) REQUIRED = Some (''missing_field:'' @ victim)"
proof -
  let ?d = "pixel_event repr (broken ev victim) ns"
  have r: "victim \<in> set REQUIRED" using assms(2) by (auto simp: REQUIRED_def)
  note v = broken_pixel_values [OF assms(1) r, of repr ns]
  have "list_all (has_value ?d) (takeWhile (\<lambda>f. f \<noteq> victim) REQUIRED)"
    using assms(2) v by (auto simp: REQUIRED_def)
  from first_problem_missing [OF this, of victim "tl (dropWhile (\<lambda>f. f \<noteq> victim) REQUIRED)"]
  show ?thesis using v(4) [OF assms(2)] assms(2) by (auto simp: REQUIRED_def)
qed

text \<open>C34: A broken event, which the generator counts as one the collector must reject, is a dead letter that names its
  missing field when it is posted.  As a pixel it is one only without its event or campaign id: without its type
  the collector takes it for an impression, and without its time for an event of now, and accepts it.\<close>

theorem broken_event_by_either_path:
  assumes "\<And>k m. lowercase (kc_hmac cfg k m) = kc_hmac cfg k m" "victim \<in> set REQUIRED_FIELDS" "sendable ev t"
    and "sent_pixel cfg repr now fresh (broken ev victim) q" "signs_here cfg av now"
    and "topic_for (as_text cfg (dget ev ''event_type'')) = Some topic"
    and "t * 1000000 \<le> av_now av 0 + 300000000000" "reads_back cfg (t * 1000000)"
    and "av_now av 2 \<le> av_now av 0 + 300000000000" "reads_back cfg (av_now av 2)"
  shows "routed cfg av ''v1_events'' (PDict (broken ev victim)) =
      (Some (''missing_field:'' @ victim), dlq_record cfg av (PDict (broken ev victim)) (''missing_field:'' @ victim) ''v1_events'')
    \<and> fst (track_record cfg av q raw_query) =
      (if victim \<in> {''event_id'', ''campaign_id''} then ''dlq.invalid''
       else if victim = ''event_type'' then ''ad.impression'' else topic)"
proof -
  have r: "victim \<in> set REQUIRED" using assms(2) by (simp add: REQUIRED_def REQUIRED_FIELDS_def)
  note post = routed_fail [OF broken_problem [OF sendable_values [OF assms(3)] r], of cfg av "''v1_events''"]
  obtain ty where ty: "dget ev ''event_type'' = PStr ty"
    using assms(3) by (auto simp: sendable_def dget_def elim!: text_fieldE)
  have t: "dget ev ''event_time'' = PInt t" "0 \<le> t" "t < 2 ^ 63" using assms(3) by (simp_all add: sendable_def dget_def)
  define ns where "ns = (if victim = ''event_time'' then av_now av 2 else t * 1000000)"
  let ?d = "pixel_event repr (broken ev victim) ns"
  have node: "track_node cfg av q = ?d"
    unfolding track_node_pixel [OF assms(4)] using t
    by (simp add: dget_broken py_str_def to_long_dec_int ns_def)
  have ns: "parse_instant cfg (dget ?d ''event_time'') = Some ns" "ns \<le> av_now av 0 + 300000000000"
    using assms(7-10) instant_str_not_long instant_str_not_blank
    by (auto simp: pixel_event_def dget_def reads_back_def ns_def)
  have "fst (snd (routed cfg av ''v1_track'' (PDict ?d))) =
      (if victim \<in> {''event_id'', ''campaign_id''} then ''dlq.invalid''
       else if victim = ''event_type'' then ''ad.impression'' else topic)"
  proof (cases "victim \<in> {''event_id'', ''campaign_id''}")
    case True
    then show ?thesis
      using routed_fail [OF missing_id_problem [OF assms(3) True, of repr ns], of cfg av "''v1_track''"]
      by (simp add: dlq_record_def)
  next
    case False
    have vals: "list_all (has_value ?d) REQUIRED"
      using broken_pixel_values [OF assms(3) r, of repr ns] False by (auto simp: REQUIRED_def)
    have imp: "topic_for ''impression'' = Some ''ad.impression''" by code_simp
    have type: "topic_for (as_text cfg (dget ?d ''event_type'')) = Some (if victim = ''event_type'' then ''ad.impression'' else topic)"
      using assms(6) ty imp by (auto simp: pixel_event_def dget_def [of "_ # _"] dget_broken)
    show ?thesis using routed_valid [OF vals ns type] False by auto
  qed
  then show ?thesis using post track_record_pixel [OF assms(4, 5, 1)] by (simp add: node)
qed

section \<open>The routing the player's page shows\<close>

definition plain_event :: "event \<Rightarrow> int \<Rightarrow> bool" where
  \<comment> \<open>ids and type are texts, empty or missing, the time is in milliseconds, not in the future, or missing\<close>
  "plain_event ev now \<longleftrightarrow>
     list_all (\<lambda>f. case dget ev f of PNone \<Rightarrow> True | PStr s \<Rightarrow> s = [] \<or> \<not> kt_blank s | _ \<Rightarrow> False)
       [''event_id'', ''event_type'', ''campaign_id''] \<and>
     (case dget ev ''event_time'' of PNone \<Rightarrow> True | PInt t \<Rightarrow> 0 \<le> t \<and> t < 2 ^ 63 \<and> t * 1000000 \<le> now + 300000000000 | _ \<Rightarrow> False)"

lemma has_value_dget: "has_value d f = (case dget d f of PNone \<Rightarrow> False | PStr s \<Rightarrow> \<not> kt_blank s | _ \<Rightarrow> True)"
  by (auto simp: has_value_def dget_def split: option.split pyval.split)

lemma plain_event_values:
  assumes "plain_event ev now" "f \<in> set REQUIRED"
  shows "has_value ev f \<longleftrightarrow> dget ev f \<notin> {PNone, PStr []}"
proof -
  have "f = ''event_time'' \<or> f \<in> {''event_id'', ''event_type'', ''campaign_id''}"
    using assms(2) by (auto simp: REQUIRED_def)
  then have "case dget ev f of PNone \<Rightarrow> True | PStr s \<Rightarrow> s = [] \<or> \<not> kt_blank s | _ \<Rightarrow> f = ''event_time''"
    using assms(1) by (cases "dget ev f") (auto simp: plain_event_def)
  then show ?thesis by (cases "dget ev f") (auto simp: has_value_dget kt_blank_def)
qed

lemma plain_event_misses:
  assumes "plain_event ev now"
  shows "misses_required ev \<longleftrightarrow> \<not> list_all (has_value ev) REQUIRED"
  using plain_event_values [OF assms] by (auto simp: misses_required_def list_ex_iff list_all_iff REQUIRED_def REQUIRED_FIELDS_def)

lemma first_problem_reason:
  "first_problem d fs = Some r \<Longrightarrow> before_colon r = ''missing_field'' \<or> before_colon r = ''blank_field''"
  by (induction d fs rule: first_problem.induct) (auto simp: before_colon_def split: option.splits pyval.splits if_splits)

definition shown_as :: "string \<Rightarrow> string option \<times> krecord \<Rightarrow> preview" where
  \<comment> \<open>what the page should show for a routing\<close>
  "shown_as ty r =
     (case r of
        (None, topic, _) \<Rightarrow> if lowercase ty \<in> {''firstquartile'', ''thirdquartile'', ''clickthrough'', ''request'', ''response''}
          then DlqUnknownType else Topic topic
      | (Some reason, _) \<Rightarrow> if before_colon reason = ''unknown_event_type'' then DlqUnknownType else DlqInvalid)"

text \<open>C35: The topic the player's page previews for an event is where the collector routes the posted event: the
  same topic, an invalid dead letter for a missing or empty field, or an unknown type, except for the five
  spellings that the collector's router accepts and the page's table lacks.\<close>

theorem preview_is_the_collectors_routing:
  assumes "event_row env ev = Inr row" "plain_event ev (av_now av 0)"
  shows "er_topic row = shown_as (as_text cfg (dget ev ''event_type'')) (routed cfg av ''v1_events'' (PDict ev))"
proof (cases "list_all (has_value ev) REQUIRED")
  case False
  then obtain r where r: "first_problem ev REQUIRED = Some r" using first_problem_None_iff [of ev REQUIRED] by blast
  have "before_colon r \<noteq> ''unknown_event_type''" using first_problem_reason [OF r] by auto
  then show ?thesis
    using assms(1) False plain_event_misses [OF assms(2)]
    by (auto simp: event_row_def rbind_eq_Inr_iff routed_fail [OF r] shown_as_def)
next
  case True
  then have req: "has_value ev ''event_type''" "has_value ev ''event_time''" by (simp_all add: REQUIRED_def)
  have "case dget ev ''event_type'' of PNone \<Rightarrow> True | PStr s \<Rightarrow> s = [] \<or> \<not> kt_blank s | _ \<Rightarrow> False"
    using assms(2) by (simp add: plain_event_def)
  with req(1) obtain ty where ty0: "dget ev ''event_type'' = PStr ty" "\<not> kt_blank ty"
    by (cases "dget ev ''event_type''") (auto simp: has_value_dget)
  then have ty: "dget ev ''event_type'' = PStr ty" "ty \<noteq> []" by (auto simp: kt_blank_def)
  have "case dget ev ''event_time'' of PNone \<Rightarrow> True | PInt t \<Rightarrow> 0 \<le> t \<and> t < 2 ^ 63 \<and> t * 1000000 \<le> av_now av 0 + 300000000000
      | _ \<Rightarrow> False"
    using assms(2) by (simp add: plain_event_def)
  with req(2) obtain t where t: "dget ev ''event_time'' = PInt t" "0 \<le> t" "t < 2 ^ 63" "t * 1000000 \<le> av_now av 0 + 300000000000"
    by (cases "dget ev ''event_time''") (auto simp: has_value_dget)
  have time: "parse_instant cfg (dget ev ''event_time'') = Some (t * 1000000)" using t by (simp add: wrap64_id)
  have row: "er_topic row = preview_topic (lowercase ty)"
    using assms(1) True plain_event_misses [OF assms(2)] ty by (auto simp: event_row_def lowered_type_def py_or_def)
  show ?thesis
  proof (cases "topic_for ty")
    case (Some topic)
    then have "topic_for (as_text cfg (dget ev ''event_type'')) = Some topic" by (simp add: ty)
    from routed_valid [OF True time t(4) this] show ?thesis
      by (simp add: row shown_as_def ty preview_agrees_with_router Some)
  next
    case None
    have valid: "validate cfg (av_now av 0) (PDict ev) = Valid (t * 1000000)"
      using True t time first_problem_None_iff [of ev REQUIRED] by (simp add: validate_def MAX_FUTURE_SKEW_SECONDS_def)
    show ?thesis
      using None by (auto simp: row shown_as_def ty preview_agrees_with_router routed_def valid before_colon_def Let_def)
  qed
qed

section \<open>Witnesses\<close>

definition demo_kcfg :: kcfg where
  "demo_kcfg = \<lparr>kc_hmac = (\<lambda>k m. lowercase (k @ m)), kc_secret = ''key'', kc_max_batch = 10, kc_number = (\<lambda>x. []),
     kc_iso = (\<lambda>s. if s = instant_str 1000000000000 then Some 1000000000000 else None)\<rparr>"

definition demo_arrival :: arrival where
  "demo_arrival = \<lparr>av_now = (\<lambda>i. 1000000000000), av_uuid = ''u'', av_pub = PubOk\<rparr>"

abbreviation demo_query :: "event \<Rightarrow> query" where
  "demo_query ev \<equiv> as_query (pixel_params (\<lambda>_. []) (kc_hmac demo_kcfg) (kc_secret demo_kcfg) 1000 [] ev False)"

lemma demo_facts:
  "lowercase (kc_hmac demo_kcfg k m) = kc_hmac demo_kcfg k m" "sent_pixel demo_kcfg (\<lambda>_. []) 1000 [] ev (demo_query ev)"
  "signs_here demo_kcfg demo_arrival 1000" "sendable demo_impression 1000000" "map_of demo_impression ''source'' \<noteq> Some PNone"
  "reads_back demo_kcfg 1000000000000" "topic_for (as_text cfg (dget demo_impression ''event_type'')) = Some ''ad.impression''"
  "av_now demo_arrival i = 1000000000000"
proof -
  have "lower_char (lower_char c) = lower_char c" for c by (simp add: lower_char_def of_char_of)
  then show "lowercase (kc_hmac demo_kcfg k m) = kc_hmac demo_kcfg k m" by (simp add: demo_kcfg_def lowercase_def)
  have "topic_for ''impression'' = Some ''ad.impression''" by code_simp
  then show "topic_for (as_text cfg (dget demo_impression ''event_type'')) = Some ''ad.impression''"
    by (simp add: demo_impression_def dget_def)
qed (simp_all add: demo_kcfg_def demo_arrival_def sent_pixel_def signs_here_def sendable_def text_field_def kt_blank_def is_space_def
    demo_impression_def reads_back_def)

lemma pixel_and_post_tell_the_same_witness:
  "\<exists>key posted tracked.
     routed demo_kcfg demo_arrival ''v1_events'' (PDict demo_impression) = (None, ''ad.impression'', key, posted) \<and>
     track_record demo_kcfg demo_arrival (demo_query demo_impression) [] = (''ad.impression'', key, tracked) \<and>
     dget tracked ''server_ts'' = dget posted ''server_ts'' \<and>
     list_all (\<lambda>(pk, ek). dget tracked ek = told (\<lambda>_. []) (dget posted ek)) PIXEL_MAP"
  by (rule pixel_and_post_tell_the_same [OF demo_facts(1-5) _ _ demo_facts(7)]) (simp_all add: demo_facts)

lemma broken_event_by_either_path_witness:
  "let ev = broken demo_impression ''event_type'' in
   routed demo_kcfg demo_arrival ''v1_events'' (PDict ev) =
      (Some (''missing_field:'' @ ''event_type''), dlq_record demo_kcfg demo_arrival (PDict ev) (''missing_field:'' @ ''event_type'') ''v1_events'')
    \<and> fst (track_record demo_kcfg demo_arrival (demo_query ev) []) = ''ad.impression''"
proof -
  have v: "''event_type'' \<in> set REQUIRED_FIELDS" by (simp add: REQUIRED_FIELDS_def)
  show ?thesis
    using broken_event_by_either_path [OF demo_facts(1) v demo_facts(4) demo_facts(2, 3, 7), of "[]"]
    by (simp add: demo_facts)
qed

lemma preview_is_the_collectors_routing_witness:
  "\<forall>env. \<exists>row. event_row env demo_impression = Inr row \<and> plain_event demo_impression (av_now demo_arrival 0) \<and>
     er_topic row = shown_as (as_text demo_kcfg (dget demo_impression ''event_type''))
       (routed demo_kcfg demo_arrival ''v1_events'' (PDict demo_impression))"
proof
  fix env
  have p: "plain_event demo_impression (av_now demo_arrival 0)"
    by (simp add: plain_event_def demo_impression_def dget_def demo_facts kt_blank_def is_space_def)
  obtain row where row: "event_row env demo_impression = Inr row"
    by (simp add: event_row_def lowered_type_def demo_impression_def dget_def py_or_def)
  show "\<exists>row. event_row env demo_impression = Inr row \<and> plain_event demo_impression (av_now demo_arrival 0) \<and>
     er_topic row = shown_as (as_text demo_kcfg (dget demo_impression ''event_type''))
       (routed demo_kcfg demo_arrival ''v1_events'' (PDict demo_impression))"
    using preview_is_the_collectors_routing [OF row p] row p by blast
qed

end
