(* ===== verification/Ad_Decision.thy ===== *)
theory Ad_Decision
  imports Collector
begin

text \<open>
  The ad-decision service: the campaign cache (\<open>CampaignCache.kt\<close>), the decision with its outbox row
  (\<open>DecisionService.kt\<close>), and the outbox workers (\<open>OutboxWorker.kt\<close>) as a step relation over interleaved
  transactions.  What a request draws and the rows a refresh reads are inputs; so is what becomes of a send.
\<close>

section \<open>Campaigns\<close>

record campaign =
  cp_id :: string
  cp_advertiser :: string
  cp_name :: string
  cp_vertical :: string
  cp_budget :: rat
  cp_cpm :: rat

record campaign_cache =
  cc_campaigns :: "campaign list"
  cc_creatives :: "(string \<times> string list) list"

fun replace_cmp :: "string \<Rightarrow> string" where
  \<comment> \<open>\<open>replace("cmp", "crt")\<close>\<close>
  "replace_cmp (a # b # c # s) =
     (if [a, b, c] = ''cmp'' then ''crt'' @ replace_cmp s else a # replace_cmp (b # c # s))"
| "replace_cmp s = s"

definition cc_refresh :: "campaign list option \<Rightarrow> campaign_cache \<Rightarrow> campaign_cache" where
  \<comment> \<open>\<open>refresh\<close>; None: the query raised\<close>
  "cc_refresh rows cc =
     (case rows of
        None \<Rightarrow> cc
      | Some rs \<Rightarrow> \<lparr>cc_campaigns = rs,
          cc_creatives = fold (\<lambda>c. AList.update (cp_id c) [replace_cmp (cp_id c) @ ''-a'', replace_cmp (cp_id c) @ ''-b'']) rs []\<rparr>)"

record draws =
  dr_arid :: string
  dr_event :: string
  dr_fill :: rat
  dr_index :: nat
  dr_pick :: rat
  dr_creative :: nat
  dr_long :: bool
  dr_now :: int
  \<comment> \<open>two uuids without dashes, the draw against the no-fill rate, an index and a draw for the campaign, an index for
     the creative, a coin, and the time\<close>

fun pick_loop :: "rat \<Rightarrow> campaign list \<Rightarrow> campaign \<Rightarrow> campaign" where
  "pick_loop r [] l = l"
| "pick_loop r (c # cs) l = (let r = r - cp_budget c in if r \<le> 0 then c else pick_loop r cs l)"

definition cc_pick :: "draws \<Rightarrow> campaign_cache \<Rightarrow> campaign option" where
  "cc_pick dr cc =
     (let cs = cc_campaigns cc; total = sum_list (map cp_budget cs) in
      if cs = [] then None
      else if total \<le> 0 then Some (cs ! (dr_index dr mod length cs))
      else Some (pick_loop (dr_pick dr * total) cs (last cs)))"

definition by_id :: "string option \<Rightarrow> campaign_cache \<Rightarrow> campaign option" where
  "by_id cid cc =
     (case cid of
        None \<Rightarrow> None
      | Some i \<Rightarrow> if list_all is_space i then None else find (\<lambda>c. cp_id c = i) (cc_campaigns cc))"

definition creative_for :: "draws \<Rightarrow> string \<Rightarrow> campaign_cache \<Rightarrow> string" where
  "creative_for dr cid cc =
     (case map_of (cc_creatives cc) cid of
        None \<Rightarrow> ''crt-unknown''
      | Some cs \<Rightarrow> cs ! (dr_creative dr mod length cs))"

section \<open>Decisions\<close>

record ad_query =
  rq_arid :: "string option"
  rq_session :: "string option"
  rq_user :: "string option"
  rq_content :: "string option"
  rq_device :: "string option"
  rq_pod :: "string option"
  rq_slot :: int
  rq_playhead :: rat
  rq_max :: int
  rq_prefer :: "string option"
  rq_force :: bool

record ad_config =
  ac_no_fill :: rat
  ac_skippable :: int
  ac_iso :: "int \<Rightarrow> string"
  \<comment> \<open>the last prints an instant, cut to milliseconds\<close>

definition ad_trackers :: "(string \<times> string option \<times> rat) list" where
  "ad_trackers =
     [(''impression'', None, 0), (''quartile'', Some ''start'', 0), (''quartile'', Some ''first_quartile'', 1 / 4),
      (''quartile'', Some ''midpoint'', 1 / 2), (''quartile'', Some ''third_quartile'', 3 / 4), (''quartile'', Some ''complete'', 1)]"

record ad_answer =
  aa_arid :: string
  aa_fill :: bool
  aa_reason :: "string option"
  aa_campaign :: "campaign option"
  aa_creative :: "string option"
  aa_duration :: "int option"
  aa_skippable :: "int option"
  aa_click :: "string option"
  aa_trackers :: "(string \<times> string option \<times> rat) list"
  \<comment> \<open>the campaign stands for its id, name, advertiser, vertical and cpm\<close>

record outbox_insert =
  oi_event :: string
  oi_type :: string
  oi_key :: string
  oi_payload :: dict

definition opt_str :: "string option \<Rightarrow> pyval" where
  "opt_str x = (case x of None \<Rightarrow> PNone | Some s \<Rightarrow> PStr s)"

definition chosen :: "ad_config \<Rightarrow> draws \<Rightarrow> ad_query \<Rightarrow> campaign_cache \<Rightarrow> campaign option" where
  "chosen cfg dr q cc =
     (if \<not> rq_force q \<and> ac_no_fill cfg \<le> dr_fill dr
      then (case by_id (rq_prefer q) cc of Some c \<Rightarrow> Some c | None \<Rightarrow> cc_pick dr cc) else None)"

definition ad_decide :: "ad_config \<Rightarrow> draws \<Rightarrow> ad_query \<Rightarrow> campaign_cache \<Rightarrow> ad_answer \<times> outbox_insert" where
  \<comment> \<open>\<open>decide\<close>: the answer, and the row inserted in the same transaction\<close>
  "ad_decide cfg dr q cc =
     (let arid = (case rq_arid q of Some a \<Rightarrow> a | None \<Rightarrow> ''req-'' @ take 16 (dr_arid dr));
          c = chosen cfg dr q cc;
          reason = (if c \<noteq> None then None else if rq_force q then Some ''policy''
            else if cc_campaigns cc = [] then Some ''no_campaign'' else Some ''budget_exhausted'');
          creative = map_option (\<lambda>c. creative_for dr (cp_id c) cc) c;
          duration = (if c \<noteq> None then Some (if 30 \<le> rq_max q \<and> dr_long dr then 30 else 15) else None);
          event = ''evt-outbox-'' @ take 16 (dr_event dr);
          payload =
            [(''event_id'', PStr event), (''event_type'', PStr ''ad_response''),
             (''campaign_id'', PStr (case c of None \<Rightarrow> ''nofill'' | Some c \<Rightarrow> cp_id c)), (''event_time'', PStr (ac_iso cfg (dr_now dr))),
             (''ad_request_id'', PStr arid), (''creative_id'', opt_str creative),
             (''ad_duration_s'', case duration of None \<Rightarrow> PNone | Some n \<Rightarrow> PInt n), (''fill'', PBool (c \<noteq> None)),
             (''session_id'', opt_str (rq_session q)), (''user_id'', opt_str (rq_user q)), (''content_id'', opt_str (rq_content q)),
             (''device'', opt_str (rq_device q)), (''ad_pod_id'', opt_str (rq_pod q)), (''ad_slot'', PInt (rq_slot q)),
             (''playhead_s'', PFloat (rq_playhead q)), (''source'', PStr ''server''), (''transport'', PStr ''outbox'')]
      in (\<lparr>aa_arid = arid, aa_fill = (c \<noteq> None), aa_reason = reason, aa_campaign = c, aa_creative = creative,
           aa_duration = duration, aa_skippable = (if c \<noteq> None then Some (ac_skippable cfg) else None),
           aa_click = map_option (\<lambda>c. ''https://ads.example.com/click/'' @ cp_id c @ ''?arid='' @ arid) c,
           aa_trackers = (if c \<noteq> None then ad_trackers else [])\<rparr>,
          \<lparr>oi_event = event, oi_type = ''ad_response'', oi_key = arid, oi_payload = payload\<rparr>))"

lemma pick_loop_member: "pick_loop r cs l \<in> insert l (set cs)"
  by (induction cs arbitrary: r) (auto simp: Let_def)

lemma cc_pick_member: "cc_pick dr cc = Some c \<Longrightarrow> c \<in> set (cc_campaigns cc)"
  using pick_loop_member [of "dr_pick dr * sum_list (map cp_budget (cc_campaigns cc))" "cc_campaigns cc" "last (cc_campaigns cc)"]
  by (auto simp: cc_pick_def Let_def split: if_splits)

lemma chosen_member: "chosen cfg dr q cc = Some c \<Longrightarrow> c \<in> set (cc_campaigns cc)"
  by (auto simp: chosen_def by_id_def find_Some_iff dest: cc_pick_member split: if_splits option.splits)

text \<open>A campaign is drawn with the probability of its budget: it is picked exactly by the draws between the budgets
  before it and its own.\<close>

lemma pick_loop_split:
  assumes "list_all (\<lambda>c. 0 < cp_budget c) (xs @ [c])" "sum_list (map cp_budget xs) < r" "r \<le> sum_list (map cp_budget (xs @ [c]))"
  shows "pick_loop r (xs @ c # ys) l = c"
  using assms
proof (induction xs arbitrary: r)
  case (Cons x xs)
  then have "sum_list (map cp_budget xs) < r - cp_budget x" "r - cp_budget x \<le> sum_list (map cp_budget (xs @ [c]))" by simp_all
  moreover have "0 \<le> sum_list (map cp_budget xs)"
    by (rule sum_list_nonneg) (use Cons.prems(1) in \<open>auto simp: list_all_iff less_imp_le\<close>)
  ultimately show ?case using Cons.IH [of "r - cp_budget x"] Cons.prems(1) by (simp add: Let_def)
qed simp

definition own_creatives :: "string \<Rightarrow> string list" where
  "own_creatives cid = [replace_cmp cid @ ''-a'', replace_cmp cid @ ''-b'']"

lemma refreshed_creatives:
  "map_of (fold (\<lambda>c. AList.update (cp_id c) (own_creatives (cp_id c))) rs acc) cid =
     (if cid \<in> cp_id ` set rs then Some (own_creatives cid) else map_of acc cid)"
  by (induction rs arbitrary: acc) (auto simp: update_conv')

lemma creative_after_refresh:
  assumes "c \<in> set rs"
  shows "creative_for dr (cp_id c) (cc_refresh (Some rs) cc) \<in> set (own_creatives (cp_id c))"
proof -
  have "map_of (cc_creatives (cc_refresh (Some rs) cc)) (cp_id c) = Some (own_creatives (cp_id c))"
    using refreshed_creatives [of rs "[]" "cp_id c"] assms by (simp add: cc_refresh_def own_creatives_def)
  moreover have "dr_creative dr mod length (own_creatives (cp_id c)) < length (own_creatives (cp_id c))"
    by (simp add: own_creatives_def)
  ultimately show ?thesis by (simp add: creative_for_def nth_mem)
qed

text \<open>C30: A decision and the row it inserts agree: the row is keyed by the request id of the answer and tells its id,
  campaign, creative, duration and fill; a filled answer has a campaign of the cache with one of the campaign's own
  creatives, and no reason; an unfilled one has a reason and nothing else; and the collector's router would route the
  event's type to the topic the workers publish to.\<close>

theorem decision_matches_its_row:
  "let cc' = cc_refresh (Some rs) cc; (a, row) = ad_decide cfg dr q cc'; p = oi_payload row
   in oi_key row = aa_arid a \<and> dget p ''ad_request_id'' = PStr (aa_arid a) \<and> dget p ''event_id'' = PStr (oi_event row)
     \<and> dget p ''fill'' = PBool (aa_fill a) \<and> dget p ''creative_id'' = opt_str (aa_creative a)
     \<and> dget p ''ad_duration_s'' = (case aa_duration a of None \<Rightarrow> PNone | Some n \<Rightarrow> PInt n)
     \<and> dget p ''event_type'' = PStr (oi_type row) \<and> topic_for (oi_type row) = Some ''ad.request''
     \<and> (case aa_campaign a of
          None \<Rightarrow> \<not> aa_fill a \<and> aa_reason a \<in> {Some ''policy'', Some ''no_campaign'', Some ''budget_exhausted''}
            \<and> dget p ''campaign_id'' = PStr ''nofill'' \<and> aa_creative a = None \<and> aa_duration a = None \<and> aa_click a = None
            \<and> aa_trackers a = []
        | Some c \<Rightarrow> aa_fill a \<and> aa_reason a = None \<and> c \<in> set rs \<and> dget p ''campaign_id'' = PStr (cp_id c)
            \<and> aa_creative a \<in> Some ` set (own_creatives (cp_id c)) \<and> aa_duration a \<in> {Some 15, Some 30})"
proof -
  have topic: "topic_for ''ad_response'' = Some ''ad.request''" by code_simp
  let ?cc = "cc_refresh (Some rs) cc"
  have cs: "cc_campaigns ?cc = rs" by (simp add: cc_refresh_def)
  show ?thesis
  proof (cases "chosen cfg dr q ?cc")
    case None
    then show ?thesis using topic by (simp add: ad_decide_def Let_def dget_def)
  next
    case (Some c)
    then have "c \<in> set rs" using chosen_member cs by metis
    then show ?thesis using Some topic creative_after_refresh [of c rs dr cc] by (simp add: ad_decide_def Let_def dget_def)
  qed
qed

end
