(* ===== verification/Outbox.thy ===== *)
theory Outbox
  imports Ad_Decision
begin

text \<open>
  The outbox table and its workers (\<open>OutboxWorker.kt\<close>).  A worker's poll is one database transaction around its
  sends; the transactions of several workers interleave, so a poll is split where another worker can come between:
  the select with its row locks, each send, and the end of the transaction.  A step relation over these, with the
  commits of decisions, is the program; the poll of a single worker is composed from the same functions.
\<close>

section \<open>State\<close>

record outbox_row =
  ow_id :: nat
  ow_insert :: outbox_insert
  ow_published :: bool

record poll_tx =
  tx_locked :: "nat list"
  tx_todo :: "outbox_row list"
  tx_sent :: "nat list"
  tx_late :: "nat list"
  \<comment> \<open>the ids selected; the rows not sent yet; the ids acknowledged; the ids delivered without an acknowledgement in time\<close>

record outbox_db =
  ob_rows :: "outbox_row list"
  ob_kafka :: "(nat \<times> string \<times> dict) list"
  ob_tx :: "nat \<Rightarrow> poll_tx option"
  ob_redone :: "nat \<Rightarrow> nat"
  \<comment> \<open>the table in the order of ids; the deliveries; the open transaction of each worker; and, for the statements only,
     how many deliveries of each id ended without its flag\<close>

record outbox_config =
  oc_batch :: nat
  oc_workers :: nat
  oc_skip_locked :: bool

definition outbox_init :: outbox_db where
  "outbox_init = \<lparr>ob_rows = [], ob_kafka = [], ob_tx = (\<lambda>w. None), ob_redone = (\<lambda>i. 0)\<rparr>"

section \<open>Steps\<close>

definition outbox_add :: "nat \<Rightarrow> outbox_insert \<Rightarrow> outbox_db \<Rightarrow> outbox_db" where
  \<comment> \<open>a decision commits; ids are drawn from a sequence, and may become visible in another order\<close>
  "outbox_add i ins ob = ob\<lparr>ob_rows := insort_key ow_id \<lparr>ow_id = i, ow_insert = ins, ow_published = False\<rparr> (ob_rows ob)\<rparr>"

definition row_locked :: "outbox_config \<Rightarrow> outbox_db \<Rightarrow> nat \<Rightarrow> bool" where
  "row_locked cfg ob i \<longleftrightarrow>
     list_ex (\<lambda>w. case ob_tx ob w of None \<Rightarrow> False | Some t \<Rightarrow> i \<in> set (tx_locked t)) [0..<oc_workers cfg]"

definition selected :: "outbox_config \<Rightarrow> outbox_db \<Rightarrow> outbox_row list" where
  \<comment> \<open>the query, with FOR UPDATE SKIP LOCKED if configured\<close>
  "selected cfg ob =
     take (oc_batch cfg) (filter (\<lambda>r. \<not> ow_published r \<and> \<not> (oc_skip_locked cfg \<and> row_locked cfg ob (ow_id r))) (ob_rows ob))"

definition poll_select :: "outbox_config \<Rightarrow> nat \<Rightarrow> outbox_db \<Rightarrow> outbox_db" where
  "poll_select cfg w ob =
     (let rs = selected cfg ob in
      ob\<lparr>ob_tx := (ob_tx ob)(w := Some \<lparr>tx_locked = map ow_id rs, tx_todo = rs, tx_sent = [], tx_late = []\<rparr>)\<rparr>)"

datatype send_result = Sent | NotSent bool
  \<comment> \<open>acknowledged in time; or an exception, with whether the broker got the record all the same\<close>

definition row_record :: "outbox_row \<Rightarrow> nat \<times> string \<times> dict" where
  "row_record r = (ow_id r, oi_key (ow_insert r), oi_payload (ow_insert r))"

definition poll_send :: "nat \<Rightarrow> send_result \<Rightarrow> outbox_db \<Rightarrow> outbox_db" where
  \<comment> \<open>one turn of the loop; a failure leaves it\<close>
  "poll_send w reply ob =
     (case ob_tx ob w of
        None \<Rightarrow> ob
      | Some t \<Rightarrow>
          (case tx_todo t of
             [] \<Rightarrow> ob
           | r # rs \<Rightarrow>
               (case reply of
                  Sent \<Rightarrow> ob\<lparr>ob_kafka := ob_kafka ob @ [row_record r],
                    ob_tx := (ob_tx ob)(w := Some (t\<lparr>tx_todo := rs, tx_sent := tx_sent t @ [ow_id r]\<rparr>))\<rparr>
                | NotSent False \<Rightarrow> ob\<lparr>ob_tx := (ob_tx ob)(w := Some (t\<lparr>tx_todo := []\<rparr>))\<rparr>
                | NotSent True \<Rightarrow> ob\<lparr>ob_kafka := ob_kafka ob @ [row_record r],
                    ob_tx := (ob_tx ob)(w := Some (t\<lparr>tx_todo := [], tx_late := tx_late t @ [ow_id r]\<rparr>))\<rparr>)))"

definition flag_rows :: "nat list \<Rightarrow> outbox_row list \<Rightarrow> outbox_row list" where
  "flag_rows ids rs = map (\<lambda>r. if ow_id r \<in> set ids then r\<lparr>ow_published := True\<rparr> else r) rs"

definition poll_commit :: "nat \<Rightarrow> outbox_db \<Rightarrow> outbox_db" where
  \<comment> \<open>the batch update of the ids sent, and the commit\<close>
  "poll_commit w ob =
     (case ob_tx ob w of
        None \<Rightarrow> ob
      | Some t \<Rightarrow> ob\<lparr>ob_rows := flag_rows (tx_sent t) (ob_rows ob), ob_tx := (ob_tx ob)(w := None),
          ob_redone := (\<lambda>i. ob_redone ob i + count_list (tx_late t) i)\<rparr>)"

definition poll_abort :: "nat \<Rightarrow> outbox_db \<Rightarrow> outbox_db" where
  \<comment> \<open>the transaction ends without the update: the failure that is injected, an exception or a crash\<close>
  "poll_abort w ob =
     (case ob_tx ob w of
        None \<Rightarrow> ob
      | Some t \<Rightarrow> ob\<lparr>ob_tx := (ob_tx ob)(w := None),
          ob_redone := (\<lambda>i. ob_redone ob i + count_list (tx_sent t @ tx_late t) i)\<rparr>)"

inductive outbox_step :: "outbox_config \<Rightarrow> outbox_db \<Rightarrow> outbox_db \<Rightarrow> bool" for cfg where
  add: "i \<notin> ow_id ` set (ob_rows ob) \<Longrightarrow> outbox_step cfg ob (outbox_add i ins ob)"
| select: "w < oc_workers cfg \<Longrightarrow> ob_tx ob w = None \<Longrightarrow> outbox_step cfg ob (poll_select cfg w ob)"
| send: "ob_tx ob w = Some t \<Longrightarrow> tx_todo t = r # rs \<Longrightarrow> outbox_step cfg ob (poll_send w reply ob)"
| commit: "ob_tx ob w = Some t \<Longrightarrow> tx_todo t = [] \<Longrightarrow> outbox_step cfg ob (poll_commit w ob)"
| abort: "ob_tx ob w = Some t \<Longrightarrow> outbox_step cfg ob (poll_abort w ob)"

definition outbox_reachable :: "outbox_config \<Rightarrow> outbox_db \<Rightarrow> bool" where
  "outbox_reachable cfg ob \<longleftrightarrow> (outbox_step cfg)\<^sup>*\<^sup>* outbox_init ob"

fun send_all :: "nat \<Rightarrow> send_result list \<Rightarrow> outbox_db \<Rightarrow> outbox_db" where
  "send_all w [] ob = ob"
| "send_all w (x # xs) ob = send_all w xs (poll_send w x ob)"

definition poll :: "outbox_config \<Rightarrow> nat \<Rightarrow> send_result list \<Rightarrow> bool \<Rightarrow> outbox_db \<Rightarrow> outbox_db" where
  \<comment> \<open>a whole poll: the results of its sends, and whether the update is made\<close>
  "poll cfg w replies update ob =
     (let ob = send_all w replies (poll_select cfg w ob) in if update then poll_commit w ob else poll_abort w ob)"

lemma outbox_reachable_induct [consumes 1, case_names start step]:
  assumes "outbox_reachable cfg ob" "P outbox_init"
    and "\<And>ob ob'. P ob \<Longrightarrow> outbox_step cfg ob ob' \<Longrightarrow> P ob'"
  shows "P ob"
  using assms(1) unfolding outbox_reachable_def
  by (induction rule: rtranclp_induct) (use assms(2, 3) in auto)

section \<open>Nothing is lost\<close>

definition delivered :: "outbox_db \<Rightarrow> nat set" where
  "delivered ob = fst ` set (ob_kafka ob)"

definition stored :: "outbox_db \<Rightarrow> (nat \<times> string \<times> dict) set" where
  "stored ob = row_record ` set (ob_rows ob)"

definition tx_ok :: "outbox_db \<Rightarrow> poll_tx \<Rightarrow> bool" where
  \<comment> \<open>what it has sent is delivered, what it will send is in the table, and it holds the locks of both\<close>
  "tx_ok ob t \<longleftrightarrow> set (tx_sent t) \<union> set (tx_late t) \<subseteq> delivered ob \<and> row_record ` set (tx_todo t) \<subseteq> stored ob \<and>
     set (tx_sent t) \<union> set (tx_late t) \<union> ow_id ` set (tx_todo t) \<subseteq> set (tx_locked t)"

definition outbox_inv :: "outbox_db \<Rightarrow> bool" where
  "outbox_inv ob \<longleftrightarrow> distinct (map ow_id (ob_rows ob)) \<and> set (ob_kafka ob) \<subseteq> stored ob \<and>
     (\<forall>r \<in> set (ob_rows ob). ow_published r \<longrightarrow> ow_id r \<in> delivered ob) \<and>
     (\<forall>w t. ob_tx ob w = Some t \<longrightarrow> tx_ok ob t)"

lemma row_record_flag: "row_record (r\<lparr>ow_published := b\<rparr>) = row_record r" "ow_id (r\<lparr>ow_published := b\<rparr>) = ow_id r"
  by (simp_all add: row_record_def)

lemma flag_rows_parts:
  "map ow_id (flag_rows ids rs) = map ow_id rs" "row_record ` set (flag_rows ids rs) = row_record ` set rs"
proof -
  show "map ow_id (flag_rows ids rs) = map ow_id rs" by (induction rs) (simp_all add: flag_rows_def)
  have "map row_record (flag_rows ids rs) = map row_record rs"
    by (induction rs) (simp_all add: flag_rows_def row_record_flag)
  then show "row_record ` set (flag_rows ids rs) = row_record ` set rs" by (metis set_map)
qed

lemma distinct_insort_key_map: "distinct (map f (insort_key f x xs)) \<longleftrightarrow> f x \<notin> f ` set xs \<and> distinct (map f xs)"
  by (induction xs) (auto simp: set_insort_key)

lemma selected_subset: "set (selected cfg ob) \<subseteq> {r \<in> set (ob_rows ob). \<not> ow_published r}"
  by (auto simp: selected_def dest: in_set_takeD)

lemma tx_ok_mono: "tx_ok ob t \<Longrightarrow> delivered ob \<subseteq> delivered ob' \<Longrightarrow> stored ob \<subseteq> stored ob' \<Longrightarrow> tx_ok ob' t"
  by (auto simp: tx_ok_def)

lemma poll_send_parts:
  assumes "ob_tx ob w = Some t" "tx_todo t = r # rs"
  obtains t' where "ob_tx (poll_send w reply ob) = (ob_tx ob)(w := Some t')" "tx_locked t' = tx_locked t"
    "ob_kafka (poll_send w reply ob) = ob_kafka ob @ (if reply = NotSent False then [] else [row_record r])"
    "tx_sent t' = tx_sent t @ (if reply = Sent then [ow_id r] else [])"
    "tx_late t' = tx_late t @ (if reply = NotSent True then [ow_id r] else [])"
    "tx_todo t' = (if reply = Sent then rs else [])"
    "ob_rows (poll_send w reply ob) = ob_rows ob" "ob_redone (poll_send w reply ob) = ob_redone ob"
proof (cases reply)
  case Sent
  then show thesis using that assms by (simp add: poll_send_def)
next
  case (NotSent b)
  then show thesis using that assms by (cases b) (simp_all add: poll_send_def)
qed

lemma outbox_inv_step:
  assumes "outbox_inv ob" "outbox_step cfg ob ob'"
  shows "outbox_inv ob'"
  using assms(2)
proof cases
  case (add i ins)
  have "stored ob \<subseteq> stored ob'" "delivered ob' = delivered ob" "ob_tx ob' = ob_tx ob" "ob_kafka ob' = ob_kafka ob"
    by (auto simp: add stored_def delivered_def outbox_add_def set_insort_key)
  moreover have "distinct (map ow_id (ob_rows ob'))"
    using assms(1) add(2) by (simp add: add(1) outbox_add_def outbox_inv_def distinct_insort_key_map)
  moreover have "\<forall>r \<in> set (ob_rows ob'). ow_published r \<longrightarrow> ow_id r \<in> delivered ob"
    using assms(1) by (auto simp: add outbox_add_def set_insort_key outbox_inv_def)
  ultimately show ?thesis using assms(1) tx_ok_mono [of ob _ ob'] by (auto simp: outbox_inv_def)
next
  case (select w)
  let ?t = "\<lparr>tx_locked = map ow_id (selected cfg ob), tx_todo = selected cfg ob, tx_sent = [], tx_late = []\<rparr>"
  have e: "ob_tx ob' = (ob_tx ob)(w := Some ?t)" "ob_rows ob' = ob_rows ob" "ob_kafka ob' = ob_kafka ob"
    by (simp_all add: select poll_select_def Let_def)
  have "tx_ok ob' ?t" using selected_subset [of cfg ob] by (auto simp: tx_ok_def stored_def e)
  moreover have "stored ob' = stored ob" "delivered ob' = delivered ob" by (simp_all add: stored_def delivered_def e)
  ultimately show ?thesis using assms(1) tx_ok_mono [of ob _ ob'] by (auto simp: outbox_inv_def e)
next
  case (send w t r rs reply)
  obtain t' where t': "ob_tx ob' = (ob_tx ob)(w := Some t')" "tx_locked t' = tx_locked t"
    "ob_kafka ob' = ob_kafka ob @ (if reply = NotSent False then [] else [row_record r])"
    "tx_sent t' = tx_sent t @ (if reply = Sent then [ow_id r] else [])"
    "tx_late t' = tx_late t @ (if reply = NotSent True then [ow_id r] else [])"
    "tx_todo t' = (if reply = Sent then rs else [])" "ob_rows ob' = ob_rows ob"
    using poll_send_parts [OF send(2, 3), of reply] send(1) by metis
  have ok: "tx_ok ob t" using assms(1) send(2) by (simp add: outbox_inv_def)
  have s: "stored ob' = stored ob" by (simp add: stored_def t')
  have d: "delivered ob' = delivered ob \<union> (if reply = NotSent False then {} else {ow_id r})"
    by (simp add: delivered_def t' row_record_def)
  have "tx_ok ob' t'"
    using ok by (auto simp: tx_ok_def s d t' send(3))
  moreover have "row_record r \<in> stored ob" using ok by (simp add: tx_ok_def send(3))
  moreover have "delivered ob \<subseteq> delivered ob'" using d by blast
  ultimately show ?thesis
    using assms(1) tx_ok_mono [of ob _ ob'] s by (auto simp: outbox_inv_def t' split: if_splits)
next
  case (commit w t)
  have e: "ob_tx ob' = (ob_tx ob)(w := None)" "ob_rows ob' = flag_rows (tx_sent t) (ob_rows ob)" "ob_kafka ob' = ob_kafka ob"
    by (simp_all add: commit poll_commit_def)
  have s: "stored ob' = stored ob" "delivered ob' = delivered ob" by (simp_all add: stored_def delivered_def e flag_rows_parts)
  have ok: "tx_ok ob t" using assms(1) commit(2) by (simp add: outbox_inv_def)
  have "\<forall>r \<in> set (ob_rows ob'). ow_published r \<longrightarrow> ow_id r \<in> delivered ob"
    using assms(1) ok by (auto simp: e flag_rows_def outbox_inv_def tx_ok_def split: if_splits)
  then show ?thesis using assms(1) tx_ok_mono [of ob _ ob'] by (auto simp: outbox_inv_def s e flag_rows_parts)
next
  case (abort w t)
  have e: "ob_tx ob' = (ob_tx ob)(w := None)" "ob_rows ob' = ob_rows ob" "ob_kafka ob' = ob_kafka ob"
    by (simp_all add: abort poll_abort_def)
  have "stored ob' = stored ob" "delivered ob' = delivered ob" by (simp_all add: stored_def delivered_def e)
  then show ?thesis using assms(1) tx_ok_mono [of ob _ ob'] by (auto simp: outbox_inv_def e)
qed

lemma outbox_inv_reachable: "outbox_reachable cfg ob \<Longrightarrow> outbox_inv ob"
proof (induction rule: outbox_reachable_induct)
  case start
  then show ?case by (simp add: outbox_inv_def outbox_init_def)
qed (rule outbox_inv_step)

section \<open>How often a row is delivered\<close>

definition in_flight :: "poll_tx option \<Rightarrow> nat \<Rightarrow> nat" where
  "in_flight x i = (case x of None \<Rightarrow> 0 | Some t \<Rightarrow> count_list (tx_sent t @ tx_late t) i)"

definition copies :: "outbox_db \<Rightarrow> nat \<Rightarrow> nat" where
  "copies ob i = count_list (map fst (ob_kafka ob)) i"

definition flagged :: "outbox_db \<Rightarrow> nat \<Rightarrow> bool" where
  "flagged ob i \<longleftrightarrow> list_ex (\<lambda>r. ow_id r = i \<and> ow_published r) (ob_rows ob)"

definition locks_inv :: "outbox_config \<Rightarrow> outbox_db \<Rightarrow> bool" where
  "locks_inv cfg ob \<longleftrightarrow>
     (\<forall>w t. ob_tx ob w = Some t \<longrightarrow> w < oc_workers cfg \<and> distinct (tx_sent t @ tx_late t @ map ow_id (tx_todo t)) \<and>
        (\<forall>i \<in> set (tx_locked t). \<not> flagged ob i)) \<and>
     (\<forall>w w' t t'. w \<noteq> w' \<longrightarrow> ob_tx ob w = Some t \<longrightarrow> ob_tx ob w' = Some t' \<longrightarrow> set (tx_locked t) \<inter> set (tx_locked t') = {})"

definition counts_inv :: "outbox_config \<Rightarrow> outbox_db \<Rightarrow> bool" where
  "counts_inv cfg ob \<longleftrightarrow> (\<forall>i. copies ob i = (if flagged ob i then 1 else 0) + ob_redone ob i +
     (\<Sum>w<oc_workers cfg. in_flight (ob_tx ob w) i))"

lemma sum_in_flight_update:
  fixes w n :: nat
  shows "w < n \<Longrightarrow> (\<Sum>v<n. in_flight ((f(w := x)) v) i) + in_flight (f w) i = (\<Sum>v<n. in_flight (f v) i) + in_flight x i"
proof -
  assume w: "w < n"
  have "(\<Sum>v \<in> {..<n} - {w}. in_flight ((f(w := x)) v) i) = (\<Sum>v \<in> {..<n} - {w}. in_flight (f v) i)"
    by (rule sum.cong) auto
  moreover have r: "sum g {..<n} = g w + sum g ({..<n} - {w})" for g :: "nat \<Rightarrow> nat"
    using w by (intro sum.remove) simp_all
  ultimately show ?thesis
    using r [of "\<lambda>v. in_flight ((f(w := x)) v) i"] r [of "\<lambda>v. in_flight (f v) i"] by simp
qed

lemma count_list_distinct: "distinct xs \<Longrightarrow> count_list xs x = (if x \<in> set xs then 1 else 0)"
  by (induction xs) auto

lemma flagged_flag_rows:
  "list_ex (\<lambda>r. ow_id r = i \<and> ow_published r) (flag_rows ids rs) \<longleftrightarrow>
     list_ex (\<lambda>r. ow_id r = i \<and> ow_published r) rs \<or> i \<in> set ids \<and> i \<in> ow_id ` set rs"
  by (induction rs) (auto simp: flag_rows_def)

lemma flagged_add: "flagged (outbox_add i ins ob) j = flagged ob j"
  by (simp add: flagged_def outbox_add_def list_ex_iff set_insort_key)

lemma selected_props:
  assumes "outbox_inv ob"
  shows "distinct (map ow_id (selected cfg ob))" "i \<in> ow_id ` set (selected cfg ob) \<Longrightarrow> \<not> flagged ob i"
    "oc_skip_locked cfg \<Longrightarrow> i \<in> ow_id ` set (selected cfg ob) \<Longrightarrow> \<not> row_locked cfg ob i"
proof -
  have d: "distinct (map ow_id (ob_rows ob))" using assms by (simp add: outbox_inv_def)
  show "distinct (map ow_id (selected cfg ob))"
    using distinct_map_filter [OF d] by (simp add: selected_def take_map [symmetric])
  show "\<not> flagged ob i" if i: "i \<in> ow_id ` set (selected cfg ob)"
  proof -
    obtain r where r0: "r \<in> set (selected cfg ob)" "ow_id r = i" using i by blast
    then have r: "r \<in> set (ob_rows ob)" "\<not> ow_published r" "ow_id r = i" using selected_subset [of cfg ob] by auto
    have u: "r' = r" if "r' \<in> set (ob_rows ob)" "ow_id r' = i" for r'
      using d that r by (auto simp: distinct_map dest: inj_onD)
    show ?thesis
    proof
      assume "flagged ob i"
      then obtain r' where "r' \<in> set (ob_rows ob)" "ow_id r' = i" "ow_published r'" by (auto simp: flagged_def list_ex_iff)
      then show False using u [of r'] r(2) by blast
    qed
  qed
  show "\<not> row_locked cfg ob i" if "oc_skip_locked cfg" "i \<in> ow_id ` set (selected cfg ob)"
    using that by (auto simp: selected_def dest: in_set_takeD)
qed

lemma row_lockedI: "w < oc_workers cfg \<Longrightarrow> ob_tx ob w = Some t \<Longrightarrow> i \<in> set (tx_locked t) \<Longrightarrow> row_locked cfg ob i"
  by (force simp: row_locked_def list_ex_iff)

lemma sent_rows: "outbox_inv ob \<Longrightarrow> ob_tx ob w = Some t \<Longrightarrow> set (tx_sent t) \<subseteq> ow_id ` set (ob_rows ob)"
proof -
  assume inv: "outbox_inv ob" and t: "ob_tx ob w = Some t"
  have "fst ` stored ob = ow_id ` set (ob_rows ob)" by (simp add: stored_def image_image row_record_def)
  moreover have "delivered ob \<subseteq> fst ` stored ob" using inv by (auto simp: delivered_def outbox_inv_def)
  moreover have "set (tx_sent t) \<subseteq> delivered ob" using inv t by (simp add: outbox_inv_def tx_ok_def)
  ultimately show ?thesis by blast
qed

lemma locks_inv_step:
  assumes inv: "outbox_inv ob" "locks_inv cfg ob" and skip: "oc_skip_locked cfg" and "outbox_step cfg ob ob'"
  shows "locks_inv cfg ob'"
  using assms(4)
proof cases
  case (add i ins)
  have "flagged ob' = flagged ob" by (simp add: add flagged_add fun_eq_iff)
  moreover have "ob_tx ob' = ob_tx ob" by (simp add: add outbox_add_def)
  ultimately show ?thesis using inv(2) by (simp add: locks_inv_def)
next
  case (select w)
  let ?t = "\<lparr>tx_locked = map ow_id (selected cfg ob), tx_todo = selected cfg ob, tx_sent = [], tx_late = []\<rparr>"
  have e: "ob_tx ob' = (ob_tx ob)(w := Some ?t)" "ob_rows ob' = ob_rows ob"
    by (simp_all add: select poll_select_def Let_def)
  have f: "flagged ob' = flagged ob" by (simp add: flagged_def e fun_eq_iff)
  have dis: "ow_id ` set (selected cfg ob) \<inter> set (tx_locked t) = {}" if "ob_tx ob v = Some t" for v t
    using that inv(2) row_lockedI [of v cfg ob t] selected_props(3) [OF inv(1) skip] by (auto simp: locks_inv_def)
  show ?thesis
    using inv(2) dis selected_props(1, 2) [OF inv(1), where cfg = cfg] select(2) by (auto simp: locks_inv_def e f)
next
  case (send w t r rs reply)
  obtain t' where t': "ob_tx ob' = (ob_tx ob)(w := Some t')" "tx_locked t' = tx_locked t"
    "tx_sent t' = tx_sent t @ (if reply = Sent then [ow_id r] else [])"
    "tx_late t' = tx_late t @ (if reply = NotSent True then [ow_id r] else [])"
    "tx_todo t' = (if reply = Sent then rs else [])" "ob_rows ob' = ob_rows ob"
    using poll_send_parts [OF send(2, 3), of reply] send(1) by metis
  have f: "flagged ob' = flagged ob" by (simp add: flagged_def t' fun_eq_iff)
  have "distinct (tx_sent t @ tx_late t @ ow_id r # map ow_id rs)"
    using inv(2) send(2, 3) by (fastforce simp: locks_inv_def)
  then have "distinct (tx_sent t' @ tx_late t' @ map ow_id (tx_todo t'))" by (auto simp: t')
  then show ?thesis using inv(2) send(2) by (auto simp: locks_inv_def f t')
next
  case (commit w t)
  have e: "ob_tx ob' = (ob_tx ob)(w := None)" "ob_rows ob' = flag_rows (tx_sent t) (ob_rows ob)"
    by (simp_all add: commit poll_commit_def)
  have f: "flagged ob' i \<longleftrightarrow> flagged ob i \<or> i \<in> set (tx_sent t)" for i
    using sent_rows [OF inv(1) commit(2)] by (auto simp: flagged_def e flagged_flag_rows)
  have "set (tx_sent t) \<subseteq> set (tx_locked t)" using inv(1) commit(2) by (auto simp: outbox_inv_def tx_ok_def)
  then show ?thesis using inv(2) commit(2) by (fastforce simp: locks_inv_def e f)
next
  case (abort w t)
  have e: "ob_tx ob' = (ob_tx ob)(w := None)" "ob_rows ob' = ob_rows ob"
    by (simp_all add: abort poll_abort_def)
  have f: "flagged ob' = flagged ob" by (simp add: flagged_def e fun_eq_iff)
  show ?thesis using inv(2) by (auto simp: locks_inv_def e f)
qed

lemma counts_inv_step:
  assumes inv: "outbox_inv ob" "locks_inv cfg ob" "counts_inv cfg ob" and "outbox_step cfg ob ob'"
  shows "counts_inv cfg ob'"
proof -
  have c: "copies ob i = (if flagged ob i then 1 else 0) + ob_redone ob i + (\<Sum>w<oc_workers cfg. in_flight (ob_tx ob w) i)" for i
    using inv(3) by (simp add: counts_inv_def)
  have w: "v < oc_workers cfg" if "ob_tx ob v = Some t" for v t using that inv(2) by (simp add: locks_inv_def)
  have "copies ob' i = (if flagged ob' i then 1 else 0) + ob_redone ob' i + (\<Sum>w<oc_workers cfg. in_flight (ob_tx ob' w) i)" for i
    using assms(4)
  proof cases
    case (add j ins)
    have "copies ob' i = copies ob i" "flagged ob' i = flagged ob i" "ob_redone ob' = ob_redone ob" "ob_tx ob' = ob_tx ob"
      by (simp_all add: add flagged_add) (simp_all add: outbox_add_def copies_def)
    then show ?thesis using c by simp
  next
    case (select v)
    let ?t = "\<lparr>tx_locked = map ow_id (selected cfg ob), tx_todo = selected cfg ob, tx_sent = [], tx_late = []\<rparr>"
    have e: "ob_tx ob' = (ob_tx ob)(v := Some ?t)" "ob_rows ob' = ob_rows ob" "ob_kafka ob' = ob_kafka ob" "ob_redone ob' = ob_redone ob"
      by (simp_all add: select(1) poll_select_def Let_def)
    have "in_flight (ob_tx ob v) i = 0" "in_flight (Some ?t) i = 0" by (simp_all add: select(3) in_flight_def)
    then show ?thesis
      using c [of i] sum_in_flight_update [OF select(2), of "ob_tx ob" "Some ?t" i] by (simp only: e copies_def flagged_def)
  next
    case (send v t r rs reply)
    obtain t' where t': "ob_tx ob' = (ob_tx ob)(v := Some t')"
      "ob_kafka ob' = ob_kafka ob @ (if reply = NotSent False then [] else [row_record r])"
      "tx_sent t' = tx_sent t @ (if reply = Sent then [ow_id r] else [])"
      "tx_late t' = tx_late t @ (if reply = NotSent True then [ow_id r] else [])"
      "ob_rows ob' = ob_rows ob" "ob_redone ob' = ob_redone ob"
      using poll_send_parts [OF send(2, 3), of reply] send(1) by metis
    let ?n = "if reply = NotSent False then 0 else if ow_id r = i then 1 else 0 :: nat"
    have "reply = Sent \<or> reply = NotSent True \<or> reply = NotSent False" by (cases reply) auto
    then have "in_flight (Some t') i = in_flight (ob_tx ob v) i + ?n" by (auto simp: in_flight_def send(2) t')
    moreover have "copies ob' i = copies ob i + ?n" by (auto simp: copies_def t' row_record_def)
    ultimately show ?thesis
      using c [of i] sum_in_flight_update [OF w [OF send(2)], of "ob_tx ob" "Some t'" i] by (simp add: t' flagged_def)
  next
    case (commit v t)
    have e: "ob_tx ob' = (ob_tx ob)(v := None)" "ob_rows ob' = flag_rows (tx_sent t) (ob_rows ob)" "ob_kafka ob' = ob_kafka ob"
      "ob_redone ob' i = ob_redone ob i + count_list (tx_late t) i"
      by (simp_all add: commit poll_commit_def)
    have f: "flagged ob' i \<longleftrightarrow> flagged ob i \<or> i \<in> set (tx_sent t)"
      using sent_rows [OF inv(1) commit(2)] by (auto simp: flagged_def e flagged_flag_rows)
    have "distinct (tx_sent t)" "\<forall>j \<in> set (tx_locked t). \<not> flagged ob j"
      using inv(2) commit(2) by (simp_all add: locks_inv_def)
    moreover have "set (tx_sent t) \<subseteq> set (tx_locked t)" using inv(1) commit(2) by (simp add: outbox_inv_def tx_ok_def)
    ultimately have d: "distinct (tx_sent t)" "i \<in> set (tx_sent t) \<Longrightarrow> \<not> flagged ob i" by blast+
    have "in_flight (ob_tx ob v) i = count_list (tx_sent t) i + count_list (tx_late t) i" "in_flight None i = 0"
      by (simp_all add: in_flight_def commit(2))
    moreover have cp: "copies ob' i = copies ob i" by (simp add: copies_def e(3))
    moreover note c [of i] sum_in_flight_update [OF w [OF commit(2)], of "ob_tx ob" None i]
    ultimately show ?thesis
      using d by (cases "i \<in> set (tx_sent t)") (simp_all add: e(1, 4) f count_list_distinct del: fun_upd_apply)
  next
    case (abort v t)
    have e: "ob_tx ob' = (ob_tx ob)(v := None)" "ob_rows ob' = ob_rows ob" "ob_kafka ob' = ob_kafka ob"
      "ob_redone ob' i = ob_redone ob i + (count_list (tx_sent t) i + count_list (tx_late t) i)"
      by (simp_all add: abort poll_abort_def)
    have "in_flight (ob_tx ob v) i = count_list (tx_sent t) i + count_list (tx_late t) i" "in_flight None i = 0"
      by (simp_all add: in_flight_def abort(2))
    then show ?thesis
      using c [of i] sum_in_flight_update [OF w [OF abort(2)], of "ob_tx ob" None i]
      by (simp add: e(1, 4)) (simp add: copies_def flagged_def e)
  qed
  then show ?thesis by (simp add: counts_inv_def)
qed

lemma outbox_counts:
  "outbox_reachable cfg ob \<Longrightarrow> oc_skip_locked cfg \<Longrightarrow> outbox_inv ob \<and> locks_inv cfg ob \<and> counts_inv cfg ob"
proof (induction rule: outbox_reachable_induct)
  case start
  then show ?case
    by (simp add: outbox_inv_def locks_inv_def counts_inv_def outbox_init_def copies_def flagged_def in_flight_def)
next
  case (step ob ob')
  then show ?case using outbox_inv_step locks_inv_step counts_inv_step by blast
qed

section \<open>Polls of one worker\<close>

definition unpublished :: "outbox_db \<Rightarrow> outbox_row list" where
  "unpublished ob = filter (\<lambda>r. \<not> ow_published r) (ob_rows ob)"

definition idle :: "outbox_db \<Rightarrow> bool" where
  "idle ob \<longleftrightarrow> ob_tx ob = (\<lambda>w. None)"

lemma selected_idle: "idle ob \<Longrightarrow> selected cfg ob = take (oc_batch cfg) (unpublished ob)"
  by (simp add: selected_def unpublished_def idle_def row_locked_def list_ex_iff)

lemma send_all_Sent:
  "ob_tx ob w = Some t \<Longrightarrow>
   send_all w (replicate (length (tx_todo t)) Sent) ob =
     ob\<lparr>ob_kafka := ob_kafka ob @ map row_record (tx_todo t),
        ob_tx := (ob_tx ob)(w := Some (t\<lparr>tx_todo := [], tx_sent := tx_sent t @ map ow_id (tx_todo t)\<rparr>))\<rparr>"
proof (induction "tx_todo t" arbitrary: t ob)
  case Nil
  then have t: "t\<lparr>tx_todo := [], tx_sent := tx_sent t @ []\<rparr> = t" and f: "(ob_tx ob)(w := Some t) = ob_tx ob" by auto
  have "ob\<lparr>ob_kafka := ob_kafka ob, ob_tx := (ob_tx ob)(w := Some t)\<rparr> = ob" unfolding f by simp
  then show ?case
    by (simp only: Nil(1) [symmetric] list.size replicate_0 send_all.simps list.map append_Nil2 t [unfolded append_Nil2])
next
  case (Cons r rs)
  let ?t = "t\<lparr>tx_todo := rs, tx_sent := tx_sent t @ [ow_id r]\<rparr>"
  let ?ob = "ob\<lparr>ob_kafka := ob_kafka ob @ [row_record r], ob_tx := (ob_tx ob)(w := Some ?t)\<rparr>"
  have p: "poll_send w Sent ob = ?ob" by (simp add: poll_send_def Cons(2)[symmetric] Cons.prems)
  show ?case using Cons(1) [of ?t ?ob] by (simp add: Cons(2) [symmetric] p)
qed

lemma send_all_reachable:
  "outbox_reachable cfg ob \<Longrightarrow> ob_tx ob w = Some t \<Longrightarrow>
     outbox_reachable cfg (send_all w (replicate (length (tx_todo t)) Sent) ob)"
proof (induction "tx_todo t" arbitrary: t ob)
  case (Cons r rs)
  have "outbox_reachable cfg (poll_send w Sent ob)"
    using Cons.prems(1) outbox_step.send [OF Cons.prems(2) Cons(2)[symmetric], of cfg Sent]
    unfolding outbox_reachable_def by (rule rtranclp.rtrancl_into_rtrancl)
  then show ?case
    using Cons(1) [of "t\<lparr>tx_todo := rs, tx_sent := tx_sent t @ [ow_id r]\<rparr>" "poll_send w Sent ob"] Cons(2) [symmetric] Cons.prems(2)
    by (simp add: poll_send_def)
qed simp

lemma unpublished_after_flags:
  assumes "distinct (map ow_id rs)"
  shows "filter (\<lambda>r. \<not> ow_published r) (flag_rows (map ow_id (take n (filter (\<lambda>r. \<not> ow_published r) rs))) rs)
    = drop n (filter (\<lambda>r. \<not> ow_published r) rs)"
proof -
  let ?U = "filter (\<lambda>r. \<not> ow_published r) rs"
  have "filter (\<lambda>r. \<not> ow_published r) (flag_rows ids rs) = filter (\<lambda>r. ow_id r \<notin> set ids) ?U" for ids
    unfolding flag_rows_def by (induction rs) auto
  moreover have "filter (\<lambda>r. ow_id r \<notin> set (map ow_id (take n ?U))) (take n ?U @ drop n ?U) = drop n ?U"
  proof -
    have "distinct (map ow_id (take n ?U @ drop n ?U))" using distinct_map_filter [OF assms] by simp
    then have "ow_id r \<notin> set (map ow_id (take n ?U))" if "r \<in> set (drop n ?U)" for r
      using that unfolding map_append distinct_append by auto
    then have "filter (\<lambda>r. ow_id r \<notin> set (map ow_id (take n ?U))) (drop n ?U) = drop n ?U" by (simp add: filter_id_conv)
    moreover have "filter (\<lambda>r. ow_id r \<notin> set (map ow_id (take n ?U))) (take n ?U) = []" by (simp add: filter_empty_conv)
    ultimately show ?thesis by (simp only: filter_append append_Nil)
  qed
  ultimately show ?thesis by (simp only: append_take_drop_id)
qed

definition good_poll :: "outbox_config \<Rightarrow> nat \<Rightarrow> outbox_db \<Rightarrow> outbox_db" where
  \<comment> \<open>a poll whose sends are all acknowledged and whose update is made\<close>
  "good_poll cfg w ob = poll cfg w (replicate (length (selected cfg ob)) Sent) True ob"

lemma good_poll_parts:
  assumes "outbox_reachable cfg ob" "idle ob" "w < oc_workers cfg"
  shows "outbox_reachable cfg (good_poll cfg w ob) \<and> idle (good_poll cfg w ob)
    \<and> unpublished (good_poll cfg w ob) = drop (oc_batch cfg) (unpublished ob)
    \<and> ob_kafka (good_poll cfg w ob) = ob_kafka ob @ map row_record (take (oc_batch cfg) (unpublished ob))"
proof -
  let ?rs = "selected cfg ob" and ?s = "poll_select cfg w ob"
  let ?t = "\<lparr>tx_locked = map ow_id ?rs, tx_todo = ?rs, tx_sent = [], tx_late = []\<rparr>"
  let ?u = "send_all w (replicate (length ?rs) Sent) ?s"
  have tx: "ob_tx ?s w = Some ?t" by (simp add: poll_select_def Let_def)
  have u: "?u = ?s\<lparr>ob_kafka := ob_kafka ?s @ map row_record ?rs, ob_tx := (ob_tx ?s)(w := Some (?t\<lparr>tx_todo := [], tx_sent := map ow_id ?rs\<rparr>))\<rparr>"
    using send_all_Sent [OF tx] by simp
  have uf: "ob_tx ?u = (ob_tx ob)(w := Some (?t\<lparr>tx_todo := [], tx_sent := map ow_id ?rs\<rparr>))" "ob_rows ?u = ob_rows ob"
    "ob_kafka ?u = ob_kafka ob @ map row_record ?rs"
    unfolding u by (simp_all add: poll_select_def Let_def)
  have "outbox_step cfg ob ?s" using assms(2, 3) by (intro outbox_step.select) (simp_all add: idle_def)
  then have "outbox_reachable cfg ?s"
    using assms(1) unfolding outbox_reachable_def by (rule rtranclp.rtrancl_into_rtrancl [rotated])
  then have ru: "outbox_reachable cfg ?u" using send_all_reachable [OF _ tx] by simp
  have "outbox_step cfg ?u (poll_commit w ?u)" 
    by (rule outbox_step.commit [where t = "?t\<lparr>tx_todo := [], tx_sent := map ow_id ?rs\<rparr>"]) (simp_all add: uf)
  with ru have "outbox_reachable cfg (poll_commit w ?u)"
    unfolding outbox_reachable_def by (rule rtranclp.rtrancl_into_rtrancl)
  moreover have p: "good_poll cfg w ob = poll_commit w ?u" by (simp add: good_poll_def poll_def Let_def)
  moreover have rows: "ob_rows (poll_commit w ?u) = flag_rows (map ow_id ?rs) (ob_rows ob)"
    and kafka: "ob_kafka (poll_commit w ?u) = ob_kafka ob @ map row_record ?rs" and "idle (poll_commit w ?u)"
    using assms(2) by (simp_all add: uf poll_commit_def idle_def fun_eq_iff)
  moreover have "distinct (map ow_id (ob_rows ob))"
    using outbox_inv_reachable [OF assms(1)] by (simp add: outbox_inv_def)
  ultimately show ?thesis
    using unpublished_after_flags [of "ob_rows ob" "oc_batch cfg"] selected_idle [OF assms(2), of cfg]
    by (simp add: unpublished_def)
qed

section \<open>What the outbox promises\<close>

lemma outbox_step_stored: "outbox_step cfg ob ob' \<Longrightarrow> stored ob \<subseteq> stored ob'"
proof (induction rule: outbox_step.induct)
  case (send ob w t r rs reply)
  then show ?case using poll_send_parts [OF send, of reply] by (metis order_refl stored_def)
qed (auto simp: stored_def outbox_add_def set_insort_key poll_select_def Let_def poll_commit_def poll_abort_def flag_rows_parts)

text \<open>C9: A row that a decision committed stays in the table with its payload whatever the workers do, it is flagged as
  published only after the broker has its record, and the broker has no record that is not of a row.\<close>

theorem outbox_loses_nothing:
  assumes "outbox_reachable cfg ob" "(outbox_step cfg)\<^sup>*\<^sup>* ob ob'"
  shows "stored ob \<subseteq> stored ob' \<and> list_all (\<lambda>k. k \<in> stored ob') (ob_kafka ob') \<and>
    list_all (\<lambda>r. ow_id r \<in> delivered ob') (filter ow_published (ob_rows ob')) \<and> distinct (map ow_id (ob_rows ob'))"
proof -
  have "outbox_reachable cfg ob'"
    using assms unfolding outbox_reachable_def by (rule rtranclp_trans)
  note inv = outbox_inv_reachable [OF this]
  have "stored ob \<subseteq> stored ob'"
    using assms(2) by (induction rule: rtranclp_induct) (use outbox_step_stored in blast)+
  then show ?thesis using inv by (auto simp: outbox_inv_def list_all_iff)
qed

text \<open>C8: With row locks that skip, however the transactions of the workers interleave, a row has been delivered
  exactly as often as this: once if it is flagged, once for each delivery that ended without its flag, because the
  update was not made or the acknowledgement came too late, and once if its transaction is open.  No two workers
  deliver the same row at a time.\<close>

theorem outbox_counts_its_copies:
  assumes "outbox_reachable cfg ob" "oc_skip_locked cfg"
  shows "copies ob i = (if flagged ob i then 1 else 0) + ob_redone ob i + (\<Sum>w<oc_workers cfg. in_flight (ob_tx ob w) i)"
  using outbox_counts [OF assms] by (simp add: counts_inv_def)


section \<open>Witnesses\<close>

definition demo_row :: outbox_insert where
  "demo_row = \<lparr>oi_event = ''e'', oi_type = ''ad_response'', oi_key = ''r'', oi_payload = []\<rparr>"

definition demo_outbox_cfg :: outbox_config where
  "demo_outbox_cfg = \<lparr>oc_batch = 1, oc_workers = 2, oc_skip_locked = True\<rparr>"

definition demo_outbox :: outbox_db where
  "demo_outbox = outbox_add 8 demo_row (outbox_add 7 demo_row outbox_init)"

lemma demo_outbox_reachable: "outbox_reachable demo_outbox_cfg demo_outbox" "idle demo_outbox"
proof -
  have 1: "outbox_step demo_outbox_cfg outbox_init (outbox_add 7 demo_row outbox_init)"
    by (rule outbox_step.add) (simp add: outbox_init_def)
  have 2: "outbox_step demo_outbox_cfg (outbox_add 7 demo_row outbox_init) demo_outbox"
    unfolding demo_outbox_def by (rule outbox_step.add) (simp add: outbox_init_def outbox_add_def)
  show "outbox_reachable demo_outbox_cfg demo_outbox"
    unfolding outbox_reachable_def using 1 2 by (meson rtranclp.simps)
  show "idle demo_outbox" by (simp add: idle_def demo_outbox_def outbox_add_def outbox_init_def)
qed

lemma outbox_loses_nothing_witness:
  "stored demo_outbox \<subseteq> stored (poll_select demo_outbox_cfg 1 demo_outbox) \<and>
   list_all (\<lambda>k. k \<in> stored (poll_select demo_outbox_cfg 1 demo_outbox)) (ob_kafka (poll_select demo_outbox_cfg 1 demo_outbox)) \<and>
   list_all (\<lambda>r. ow_id r \<in> delivered (poll_select demo_outbox_cfg 1 demo_outbox))
     (filter ow_published (ob_rows (poll_select demo_outbox_cfg 1 demo_outbox))) \<and>
   distinct (map ow_id (ob_rows (poll_select demo_outbox_cfg 1 demo_outbox)))"
proof (rule outbox_loses_nothing [OF demo_outbox_reachable(1)])
  have "outbox_step demo_outbox_cfg demo_outbox (poll_select demo_outbox_cfg 1 demo_outbox)"
    using demo_outbox_reachable(2) by (intro outbox_step.select) (simp_all add: demo_outbox_cfg_def idle_def)
  then show "(outbox_step demo_outbox_cfg)\<^sup>*\<^sup>* demo_outbox (poll_select demo_outbox_cfg 1 demo_outbox)" by blast
qed

lemma outbox_counts_its_copies_witness:
  "copies (poll_select demo_outbox_cfg 1 demo_outbox) 7 = (if flagged (poll_select demo_outbox_cfg 1 demo_outbox) 7 then 1 else 0)
     + ob_redone (poll_select demo_outbox_cfg 1 demo_outbox) 7
     + (\<Sum>w<oc_workers demo_outbox_cfg. in_flight (ob_tx (poll_select demo_outbox_cfg 1 demo_outbox) w) 7)"
proof (rule outbox_counts_its_copies)
  have "outbox_step demo_outbox_cfg demo_outbox (poll_select demo_outbox_cfg 1 demo_outbox)"
    using demo_outbox_reachable(2) by (intro outbox_step.select) (simp_all add: demo_outbox_cfg_def idle_def)
  then show "outbox_reachable demo_outbox_cfg (poll_select demo_outbox_cfg 1 demo_outbox)"
    using demo_outbox_reachable(1) unfolding outbox_reachable_def by (rule rtranclp.rtrancl_into_rtrancl [rotated])
  show "oc_skip_locked demo_outbox_cfg" by (simp add: demo_outbox_cfg_def)
qed


end
