(* ===== verification/Doc_Check.thy ===== *)
theory Doc_Check
  imports Collector
begin

text \<open>
  The check of the documentation's links that CI runs (\<open>scripts/ci/check_docs.py\<close>).  A regular expression is a
  matcher: it gives the group and the rest of the text after a match at the start of the text, where the expression
  is deterministic enough for one scan; \<open>re.sub\<close> and \<open>re.findall\<close> are one scan over the text.  Texts are ASCII.  The
  tracked files, their contents, and the resolution of a relative path are a record.
\<close>

section \<open>Scanning\<close>

function scan :: "(string \<Rightarrow> (string \<times> string) option) \<Rightarrow> string \<Rightarrow> (char + string) list" where
  \<comment> \<open>the characters that are in no match, and the groups of the matches; a match is never empty\<close>
  "scan m [] = []"
| "scan m (c # s) =
     (case m (c # s) of
        Some (g, r) \<Rightarrow> if length r \<le> length s then Inr g # scan m r else Inl c # scan m s
      | None \<Rightarrow> Inl c # scan m s)"
  by pat_completeness auto
termination by (relation "measure (\<lambda>(m, s). length s)") auto

definition re_sub :: "(string \<Rightarrow> (string \<times> string) option) \<Rightarrow> string \<Rightarrow> string" where
  "re_sub m s = concat (map (case_sum (\<lambda>c. [c]) (\<lambda>g. g)) (scan m s))"

definition re_findall :: "(string \<Rightarrow> (string \<times> string) option) \<Rightarrow> string \<Rightarrow> string list" where
  "re_findall m s = concat (map (case_sum (\<lambda>c. []) (\<lambda>g. [g])) (scan m s))"

definition BACKTICK :: char where "BACKTICK = CHR 0x60"

definition QUOTE :: char where "QUOTE = CHR 0x22"

definition until :: "char \<Rightarrow> string \<Rightarrow> (string \<times> string) option" where
  \<comment> \<open>the text before the next such character and the text after it\<close>
  "until c s = (if c \<in> set s then Some (takeWhile (\<lambda>x. x \<noteq> c) s, tl (dropWhile (\<lambda>x. x \<noteq> c) s)) else None)"

definition code_span :: "string \<Rightarrow> (string \<times> string) option" where
  \<comment> \<open>a backtick, other characters, a backtick\<close>
  "code_span s = (case s of [] \<Rightarrow> None | c # r \<Rightarrow>
     if c = BACKTICK then map_option (\<lambda>(x, rest). ([], rest)) (until BACKTICK r) else None)"

definition html_tag :: "string \<Rightarrow> (string \<times> string) option" where
  \<comment> \<open>\<open><[^>]+>\<close>\<close>
  "html_tag s = (case s of [] \<Rightarrow> None | c # r \<Rightarrow>
     if c = CHR ''<'' \<and> r \<noteq> [] \<and> hd r \<noteq> CHR ''>'' then map_option (\<lambda>(x, rest). ([], rest)) (until (CHR ''>'') r) else None)"

definition bracketed :: "string \<Rightarrow> (string \<times> string) option" where
  \<comment> \<open>\<open>!?\[([^\]]*)\]\(\<close>\<close>
  "bracketed s =
     (let s = (if s \<noteq> [] \<and> hd s = CHR ''!'' then tl s else s) in
      if s \<noteq> [] \<and> hd s = CHR ''['' then
        (case until (CHR '']'') (tl s) of
           Some (label, rest) \<Rightarrow> if rest \<noteq> [] \<and> hd rest = CHR ''('' then Some (label, tl rest) else None
         | None \<Rightarrow> None)
      else None)"

definition text_link :: "string \<Rightarrow> (string \<times> string) option" where
  \<comment> \<open>the link of a title, whose group is its label\<close>
  "text_link s = Option.bind (bracketed s) (\<lambda>(label, rest). map_option (\<lambda>(x, r). (label, r)) (until (CHR '')'') rest))"

definition LINK :: "string \<Rightarrow> (string \<times> string) option" where
  \<comment> \<open>the group is the target; an optional title in quotes follows it\<close>
  "LINK s = Option.bind (bracketed s) (\<lambda>(label, rest).
     let target = takeWhile (\<lambda>c. c \<noteq> CHR '')'' \<and> \<not> is_space c) rest; r = drop (length target) rest;
         r' = dropWhile is_space r
     in if target = [] \<or> r = [] then None
        else if hd r = CHR '')'' then Some (target, tl r)
        else if r' \<noteq> [] \<and> hd r' = QUOTE then
          (case until QUOTE (tl r') of
             Some (title, e) \<Rightarrow> if e \<noteq> [] \<and> hd e = CHR '')'' then Some (target, tl e) else None
           | None \<Rightarrow> None)
        else None)"

definition quoted :: "string \<Rightarrow> (string \<times> string) option" where
  \<comment> \<open>the rest of a quoted attribute that is not empty\<close>
  "quoted s = (case until QUOTE s of Some (g, r) \<Rightarrow> if g = [] then None else Some (g, r) | None \<Rightarrow> None)"

definition starts :: "string \<Rightarrow> string \<Rightarrow> bool" where
  "starts p s \<longleftrightarrow> take (length p) s = p"

definition HTML_SRC :: "string \<Rightarrow> (string \<times> string) option" where
  \<comment> \<open>an image tag; of the places of \<open>src\<close> before the next closing bracket, the last one that fits\<close>
  "HTML_SRC s =
     (let r = drop 4 s; n = length (takeWhile (\<lambda>c. c \<noteq> CHR ''>'') r);
          src_at = (\<lambda>i. if starts (''src='' @ [QUOTE]) (drop i r) then quoted (drop (i + 5) r) else None)
      in if starts ''<img'' s then Option.bind (find (\<lambda>i. src_at i \<noteq> None) (rev [1..<Suc n])) src_at else None)"

definition anchor_tag :: "string \<Rightarrow> (string \<times> string) option" where
  "anchor_tag s =
     (let r = drop 2 s; a = dropWhile is_space r in
      if starts ''<a'' s \<and> r \<noteq> [] \<and> is_space (hd r) then
        (if starts (''name='' @ [QUOTE]) a then quoted (drop 6 a)
         else if starts (''id='' @ [QUOTE]) a then quoted (drop 4 a) else None)
      else None)"

section \<open>Lines\<close>

definition is_eol :: "char \<Rightarrow> bool" where
  "is_eol c \<longleftrightarrow> (of_char c :: nat) \<in> {10, 11, 12, 13, 28, 29, 30}"

fun split_lines :: "string \<Rightarrow> string \<Rightarrow> string list" where
  \<comment> \<open>\<open>splitlines\<close>, with the current line reversed\<close>
  "split_lines cur [] = (if cur = [] then [] else [rev cur])"
| "split_lines cur [c] = (if is_eol c then [rev cur] else [rev (c # cur)])"
| "split_lines cur (c # d # s) =
     (if c = CHR 0x0D \<and> d = CHR 0x0A then rev cur # split_lines [] s
      else if is_eol c then rev cur # split_lines [] (d # s)
      else split_lines (c # cur) (d # s))"

definition FENCE :: "string \<Rightarrow> bool" where
  "FENCE line \<longleftrightarrow> (let r = dropWhile is_space line in starts (replicate 3 BACKTICK) r \<or> starts ''~~~'' r)"

fun strip_lines :: "bool \<Rightarrow> string list \<Rightarrow> string list" where
  "strip_lines fenced [] = []"
| "strip_lines fenced (l # ls) =
     (if FENCE l then [] # strip_lines (\<not> fenced) ls
      else (if fenced then [] else re_sub code_span l) # strip_lines fenced ls)"

definition strip_code :: "string \<Rightarrow> string list" where
  "strip_code text = strip_lines False (split_lines [] text)"

section \<open>Anchors\<close>

definition closing_hashes :: "string \<Rightarrow> bool" where
  \<comment> \<open>\<open>\s*#*\s*$\<close>\<close>
  "closing_hashes s \<longleftrightarrow> list_all is_space (dropWhile (\<lambda>c. c = CHR ''#'') (dropWhile is_space s))"

fun lazy_title :: "string \<Rightarrow> string" where
  \<comment> \<open>\<open>(.*?)\<close> before it: the shortest text\<close>
  "lazy_title [] = []"
| "lazy_title (c # s) = (if closing_hashes (c # s) then [] else c # lazy_title s)"

definition HEADING :: "string \<Rightarrow> string option" where
  "HEADING line =
     (let n = length (takeWhile (\<lambda>c. c = CHR ''#'') line); r = drop n line in
      if 1 \<le> n \<and> n \<le> 6 \<and> r \<noteq> [] \<and> is_space (hd r) then Some (lazy_title (dropWhile is_space r)) else None)"

definition slug_char :: "char \<Rightarrow> bool" where
  "slug_char c \<longleftrightarrow> is_letter c \<or> is_digit c \<or> c = CHR ''_'' \<or> c = CHR ''-'' \<or> c = CHR '' ''"

definition slug :: "string \<Rightarrow> string" where
  "slug title =
     (let t = re_sub html_tag title;
          t = re_sub text_link t;
          t = lowercase (strip_ws (filter (\<lambda>c. c \<noteq> BACKTICK) t));
          t = filter slug_char t
      in map (\<lambda>c. if c = CHR '' '' then CHR ''-'' else c) t)"

definition numbered :: "string \<Rightarrow> nat \<Rightarrow> string" where
  "numbered s n = (if n = 0 then s else s @ CHR ''-'' # dec_nat n)"

fun anchor_lines :: "bool \<Rightarrow> (string \<Rightarrow> nat) \<Rightarrow> string list \<Rightarrow> string list" where
  "anchor_lines fenced seen [] = []"
| "anchor_lines fenced seen (l # ls) =
     (if FENCE l then anchor_lines (\<not> fenced) seen ls
      else (case (if fenced then None else HEADING l) of
              None \<Rightarrow> anchor_lines fenced seen ls
            | Some title \<Rightarrow>
                (let s = slug title; n = seen s in numbered s n # anchor_lines fenced (seen(s := n + 1)) ls)))"

definition anchors_of :: "string \<Rightarrow> string list" where
  "anchors_of text = anchor_lines False (\<lambda>_. 0) (split_lines [] text) @ re_findall anchor_tag text"

section \<open>The check\<close>

record repo =
  rp_files :: "string list"
  rp_path :: "string \<Rightarrow> string"
  rp_dest :: "string \<Rightarrow> string \<Rightarrow> string"
  rp_exists :: "string \<Rightarrow> bool"
  rp_text :: "string \<Rightarrow> string"
  \<comment> \<open>the tracked Markdown files; their paths; the resolution of a path relative to the directory of one; which paths
     exist; the contents\<close>

definition is_url :: "string \<Rightarrow> bool" where
  \<comment> \<open>\<open>^[a-z][a-z0-9+.-]*:\<close>, ignoring case\<close>
  "is_url t \<longleftrightarrow> t \<noteq> [] \<and> is_letter (hd t) \<and>
     (let r = dropWhile (\<lambda>c. is_letter c \<or> is_digit c \<or> c \<in> set ''+.-'') t in r \<noteq> [] \<and> hd r = CHR '':'')"

definition hex_digit :: "char \<Rightarrow> nat option" where
  "hex_digit c =
     (if is_digit c then Some (digit_val c)
      else let x = of_char (lower_char c) :: nat in if 97 \<le> x \<and> x \<le> 102 then Some (x - 87) else None)"

fun unquote :: "string \<Rightarrow> string" where
  "unquote (c # a # b # s) =
     (if c = CHR 0x25 then
        (case (hex_digit a, hex_digit b) of
           (Some x, Some y) \<Rightarrow> char_of (16 * x + y) # unquote s
         | _ \<Rightarrow> c # unquote (a # b # s))
      else c # unquote (a # b # s))"
| "unquote s = s"

definition path_part :: "string \<Rightarrow> string" where
  "path_part target = takeWhile (\<lambda>c. c \<noteq> CHR ''#'') target"

definition frag_part :: "string \<Rightarrow> string" where
  "frag_part target = tl (dropWhile (\<lambda>c. c \<noteq> CHR ''#'') target)"

definition md_suffix :: "string \<Rightarrow> bool" where
  \<comment> \<open>\<open>suffix\<close> of the last component is .md\<close>
  "md_suffix path = (let r = rev path in starts ''dm.'' r \<and> drop 3 r \<noteq> [] \<and> hd (drop 3 r) \<noteq> CHR ''/'')"

datatype problem = MissingFile string nat string | MissingAnchor string nat string

type_synonym anchor_cache = "(string \<times> string list) list"

definition cached_anchors :: "repo \<Rightarrow> string \<Rightarrow> anchor_cache \<Rightarrow> string list \<times> anchor_cache" where
  \<comment> \<open>\<open>anchors\<close> with its default argument\<close>
  "cached_anchors rp path cache =
     (case map_of cache path of
        Some a \<Rightarrow> (a, cache)
      | None \<Rightarrow> (let a = anchors_of (rp_text rp path) in (a, AList.update path a cache)))"

definition target_dest :: "repo \<Rightarrow> string \<Rightarrow> string \<Rightarrow> string" where
  "target_dest rp rel target =
     (if path_part target \<noteq> [] then rp_dest rp rel (unquote (path_part target)) else rp_path rp rel)"

definition check_target :: "repo \<Rightarrow> string \<Rightarrow> nat \<Rightarrow> string \<Rightarrow> anchor_cache \<Rightarrow> problem list \<times> nat \<times> anchor_cache" where
  "check_target rp rel lineno target cache =
     (if is_url target then ([], 0, cache)
      else
        (let frag = frag_part target; dest = target_dest rp rel target
         in if \<not> rp_exists rp dest then ([MissingFile rel lineno target], 1, cache)
            else if frag \<noteq> [] \<and> md_suffix dest then
              (let (a, cache) = cached_anchors rp dest cache
               in (if unquote frag \<notin> set a then [MissingAnchor rel lineno target] else [], 1, cache))
            else ([], 1, cache)))"

fun check_all :: "repo \<Rightarrow> (string \<times> nat \<times> string) list \<Rightarrow> anchor_cache \<Rightarrow> problem list \<times> nat \<times> anchor_cache" where
  "check_all rp [] cache = ([], 0, cache)"
| "check_all rp ((rel, lineno, target) # ts) cache =
     (let (ps, k, cache) = check_target rp rel lineno target cache; (qs, n, cache) = check_all rp ts cache
      in (ps @ qs, k + n, cache))"

definition line_targets :: "string \<Rightarrow> string list" where
  "line_targets line = re_findall LINK line @ re_findall HTML_SRC line"

definition file_targets :: "repo \<Rightarrow> string \<Rightarrow> (string \<times> nat \<times> string) list" where
  "file_targets rp rel =
     concat (map (\<lambda>(lineno, line). map (\<lambda>t. (rel, lineno, t)) (line_targets line))
       (enumerate 1 (strip_code (rp_text rp (rp_path rp rel)))))"

definition check_docs :: "repo \<Rightarrow> int \<times> problem list \<times> nat" where
  \<comment> \<open>\<open>main\<close>: the exit code, the problems it prints, and the number of links checked\<close>
  "check_docs rp =
     (let (ps, n, cache) = check_all rp (concat (map (file_targets rp) (rp_files rp))) []
      in (if ps \<noteq> [] then 1 else 0, ps, n))"

section \<open>Properties\<close>

definition broken_link :: "repo \<Rightarrow> string \<times> nat \<times> string \<Rightarrow> problem option" where
  \<comment> \<open>what is wrong with one link, read off the files\<close>
  "broken_link rp = (\<lambda>(rel, lineno, target).
     let dest = target_dest rp rel target in
     if is_url target then None
     else if \<not> rp_exists rp dest then Some (MissingFile rel lineno target)
     else if frag_part target \<noteq> [] \<and> md_suffix dest \<and> unquote (frag_part target) \<notin> set (anchors_of (rp_text rp dest))
       then Some (MissingAnchor rel lineno target)
     else None)"

definition cache_ok :: "repo \<Rightarrow> anchor_cache \<Rightarrow> bool" where
  "cache_ok rp cache \<longleftrightarrow> (\<forall>p a. map_of cache p = Some a \<longrightarrow> a = anchors_of (rp_text rp p))"

lemma cached_anchors_ok:
  "cache_ok rp cache \<Longrightarrow> cached_anchors rp path cache = (a, cache') \<Longrightarrow> a = anchors_of (rp_text rp path) \<and> cache_ok rp cache'"
  by (auto simp: cached_anchors_def cache_ok_def Let_def update_conv' split: option.splits if_splits)

lemma check_target_ok:
  assumes "cache_ok rp cache" "check_target rp rel lineno target cache = (ps, k, cache')"
  shows "ps = (case broken_link rp (rel, lineno, target) of None \<Rightarrow> [] | Some p \<Rightarrow> [p]) \<and>
    k = (if is_url target then 0 else 1) \<and> cache_ok rp cache'"
proof -
  let ?dest = "target_dest rp rel target"
  obtain a c where c: "cached_anchors rp ?dest cache = (a, c)" by fastforce
  note ok = cached_anchors_ok [OF assms(1) c]
  show ?thesis
    using assms ok by (auto simp: check_target_def broken_link_def Let_def c split: if_splits)
qed

lemma check_all_ok:
  "cache_ok rp cache \<Longrightarrow> check_all rp ts cache = (ps, n, cache') \<Longrightarrow>
     ps = List.map_filter (broken_link rp) ts \<and> n = length (filter (\<lambda>(rel, lineno, t). \<not> is_url t) ts)"
proof (induction ts arbitrary: cache ps n)
  case (Cons x ts)
  obtain rel lineno target where x: "x = (rel, lineno, target)" by (cases x)
  obtain qs k c where q: "check_target rp rel lineno target cache = (qs, k, c)" by (cases "check_target rp rel lineno target cache")
  obtain rs m where r: "check_all rp ts c = (rs, m, cache')" "ps = qs @ rs" "n = k + m"
    using Cons.prems(2) by (cases "check_all rp ts c") (simp add: x q)
  note t = check_target_ok [OF Cons.prems(1) q]
  show ?case
    using Cons.IH [OF _ r(1)] t by (auto simp: x r(2, 3) map_filter_simps split: option.splits)
qed (simp add: map_filter_simps)


fun titles :: "bool \<Rightarrow> string list \<Rightarrow> string list" where
  \<comment> \<open>the headings outside fences\<close>
  "titles fenced [] = []"
| "titles fenced (l # ls) =
     (if FENCE l then titles (\<not> fenced) ls
      else (case (if fenced then None else HEADING l) of None \<Rightarrow> titles fenced ls | Some t \<Rightarrow> t # titles fenced ls))"

lemma anchor_lines_set:
  "set (anchor_lines fenced seen ls) =
     {numbered s n | s n. seen s \<le> n \<and> n < seen s + count_list (map slug (titles fenced ls)) s}"
proof (induction ls arbitrary: fenced seen)
  case (Cons l ls)
  show ?case
  proof (cases "if FENCE l \<or> fenced then None else HEADING l")
    case None
    then have "anchor_lines fenced seen (l # ls) = anchor_lines (fenced \<noteq> FENCE l) seen ls"
      "titles fenced (l # ls) = titles (fenced \<noteq> FENCE l) ls"
      by (auto split: if_splits)
    then show ?thesis using Cons.IH by simp
  next
    case (Some t)
    then have f: "\<not> FENCE l" "\<not> fenced" "HEADING l = Some t" by (auto split: if_splits)
    let ?s = "slug t" and ?c = "count_list (map slug (titles fenced ls))"
    have n: "(\<exists>n. x = numbered r n \<and> seen r \<le> n \<and> n < seen r + (?c r + (if ?s = r then 1 else 0))) \<longleftrightarrow>
        (r = ?s \<and> x = numbered r (seen r)) \<or>
        (\<exists>n. x = numbered r n \<and> (seen(?s := seen ?s + 1)) r \<le> n \<and> n < (seen(?s := seen ?s + 1)) r + ?c r)" for r x
      by (cases "r = ?s") (auto simp: Suc_le_eq intro: le_neq_implies_less)
    have step: "anchor_lines fenced seen (l # ls) = numbered ?s (seen ?s) # anchor_lines fenced (seen(?s := seen ?s + 1)) ls"
      using f by (simp add: Let_def)
    have "set (anchor_lines fenced seen (l # ls)) =
        insert (numbered ?s (seen ?s)) {numbered r n | r n. (seen(?s := seen ?s + 1)) r \<le> n \<and> n < (seen(?s := seen ?s + 1)) r + ?c r}"
      unfolding step list.set Cons.IH by (rule refl)
    also have "\<dots> = {numbered r n | r n. seen r \<le> n \<and> n < seen r + (?c r + (if ?s = r then 1 else 0))}"
      by (rule set_eqI) (simp only: insert_iff mem_Collect_eq n ex_disj_distrib simp_thms)
    finally show ?thesis using f by (simp add: add.commute)
  qed
qed auto

text \<open>The anchors of a file are those of its anchor tags and, for every slug that k of its headings outside fences
  have, the slug itself and the slug with the numbers 1 to k - 1.\<close>

theorem anchors_number_the_headings:
  "set (anchors_of text) = set (re_findall anchor_tag text) \<union>
     {numbered s n | s n. n < count_list (map slug (titles False (split_lines [] text))) s}"
  by (auto simp: anchors_of_def anchor_lines_set)

lemma re_sub_simps:
  "re_sub m [] = []"
  "re_sub m (c # s) =
     (case m (c # s) of
        Some (g, r) \<Rightarrow> if length r \<le> length s then g @ re_sub m r else c # re_sub m s
      | None \<Rightarrow> c # re_sub m s)"
  by (simp_all add: re_sub_def split: option.split prod.split)

lemma until_Some: "until c s = Some (g, r) \<longleftrightarrow> s = g @ c # r \<and> c \<notin> set g"
proof
  assume u: "until c s = Some (g, r)"
  then have "c \<in> set s" by (auto simp: until_def split: if_splits)
  then obtain ys zs where s: "s = ys @ c # zs" "c \<notin> set ys" using split_list_first by metis
  moreover have "x \<noteq> c" if "x \<in> set ys" for x using s(2) that by blast
  ultimately have "takeWhile (\<lambda>x. x \<noteq> c) s = ys" "dropWhile (\<lambda>x. x \<noteq> c) s = c # zs"
    by (simp_all add: takeWhile_append2 dropWhile_append2)
  with u s show "s = g @ c # r \<and> c \<notin> set g" by (simp add: until_def)
next
  assume s: "s = g @ c # r \<and> c \<notin> set g"
  moreover have "x \<noteq> c" if "x \<in> set g" for x using s that by blast
  ultimately have "takeWhile (\<lambda>x. x \<noteq> c) s = g" "dropWhile (\<lambda>x. x \<noteq> c) s = c # r"
    by (simp_all add: takeWhile_append2 dropWhile_append2)
  with s show "until c s = Some (g, r)" by (simp add: until_def)
qed

lemma code_span_Some: "code_span s = Some (g, r) \<longleftrightarrow> g = [] \<and> (\<exists>x. s = BACKTICK # x @ BACKTICK # r \<and> BACKTICK \<notin> set x)"
  by (cases s) (auto simp: code_span_def until_Some)

lemma code_span_None: "code_span (c # s) = None \<longleftrightarrow> c = BACKTICK \<longrightarrow> BACKTICK \<notin> set s"
  by (auto simp: code_span_def until_def)

lemma set_without_code: "set (re_sub code_span s) \<subseteq> set s"
proof (induction "code_span" s rule: scan.induct)
  case (2 c s)
  show ?case
  proof (cases "code_span (c # s)")
    case None
    then show ?thesis using 2 by (auto simp: re_sub_simps)
  next
    case (Some gr)
    obtain g r where gr: "gr = (g, r)" by (cases gr)
    have s: "g = []" "set r \<subseteq> set s" "length r \<le> length s" using Some code_span_Some [of "c # s" g r] by (auto simp: gr)
    show ?thesis using 2(2) [OF Some gr [symmetric] s(3)] s Some by (auto simp: re_sub_simps gr)
  qed
qed (simp add: re_sub_simps)

lemma one_backtick_left: "length (filter (\<lambda>c. c = BACKTICK) (re_sub code_span s)) \<le> 1"
proof (induction "code_span" s rule: scan.induct)
  case (2 c s)
  show ?case
  proof (cases "code_span (c # s)")
    case None
    show ?thesis
    proof (cases "c = BACKTICK")
      case True
      then have "BACKTICK \<notin> set (re_sub code_span s)" using None set_without_code code_span_None by blast
      then have "filter (\<lambda>c. c = BACKTICK) (re_sub code_span s) = []" by (auto simp: filter_empty_conv)
      with True None show ?thesis by (simp add: re_sub_simps)
    next
      case False
      with None 2(1) show ?thesis by (simp add: re_sub_simps)
    qed
  next
    case (Some gr)
    obtain g r where gr: "gr = (g, r)" by (cases gr)
    have s: "g = []" "length r \<le> length s" using Some code_span_Some [of "c # s" g r] by (auto simp: gr)
    show ?thesis using 2(2) [OF Some gr [symmetric] s(2)] s Some by (simp add: re_sub_simps gr)
  qed
qed (simp add: re_sub_simps)

text \<open>Code is removed line by line: the lines keep their numbers, a line of or within a fence is empty, and no other
  keeps a pair of backticks.\<close>

lemma strip_lines_parts:
  "length (strip_lines fenced ls) = length ls \<and>
   list_all (\<lambda>l. length (filter (\<lambda>c. c = BACKTICK) l) \<le> 1) (strip_lines fenced ls) \<and>
   list_all2 (\<lambda>l k. FENCE l \<longrightarrow> k = []) ls (strip_lines fenced ls)"
  using one_backtick_left by (induction fenced ls rule: strip_lines.induct) auto

text \<open>The scan for links takes the image of a linked image and goes on behind it, so the target of the link around it
  is never checked.\<close>

lemma linked_image_hides_its_target: "line_targets ''[![build](badge.svg)](missing.md)'' = [''badge.svg'']"
  by code_simp

end
