(* ===== verification/Flink.thy ===== *)
theory Flink
  imports Settlement Py_Time
begin

text \<open>
  The two Flink jobs: the archive of the raw records (\<open>sql/archive.sql\<close>) and the realtime aggregation
  (\<open>sql/pipeline.sql\<close>), as a machine over the records and watermarks that reach it.

  A record of Kafka holds the columns the jobs read; a column that is missing or unreadable is NULL (\<open>None\<close>), except
  the event time, which the collector puts into every record.  Times are milliseconds.  How far the watermark gets between
  two records is an input: it depends on the partitions and their idleness.  The job runs with parallelism 1, so all its
  operators see the deduplicated records and the watermarks in one order.
\<close>

section \<open>Records\<close>

record kafka_record =
  kr_topic :: string
  kr_event_id :: "string option"
  kr_type :: "string option"
  kr_cid :: "string option"
  kr_arid :: "string option"
  kr_source :: "string option"
  kr_quartile :: "string option"
  kr_twin_of :: "string option"
  kr_fill :: "bool option"
  kr_late :: "bool option"
  kr_time :: int

definition ARCHIVED :: "string list" where
  "ARCHIVED = [''ad.impression'', ''ad.quartile'', ''ad.click'', ''ad.request'', ''user.behavior'']"

definition archive_row :: "kafka_record \<Rightarrow> row" where
  \<comment> \<open>the columns of \<open>events_archive\<close> the settlement reads; only the source of requests has \<open>fill\<close>\<close>
  "archive_row k = \<lparr>r_event_id = kr_event_id k, r_type = kr_type k, r_cid = kr_cid k, r_time = Some (kr_time k),
     r_topic = Some (kr_topic k), r_source = kr_source k, r_arid = kr_arid k, r_quartile = kr_quartile k,
     r_fill = (if kr_topic k = ''ad.request'' then kr_fill k else None), r_late = kr_late k\<rparr>"

definition archive :: "kafka_record list \<Rightarrow> row list" where
  "archive ks = map archive_row (filter (\<lambda>k. kr_topic k \<in> set ARCHIVED) ks)"

record sql_event =
  ev_id :: "string option"
  ev_cid :: string
  ev_arid :: "string option"
  ev_time :: int
  ev_kind :: string
  ev_twin :: int

definition all_events :: "kafka_record \<Rightarrow> sql_event option" where
  \<comment> \<open>the view of that name: the four sources in one\<close>
  "all_events k = (case kr_cid k of
     None \<Rightarrow> None
   | Some c \<Rightarrow>
       (let row = (\<lambda>kind twin. Some \<lparr>ev_id = kr_event_id k, ev_cid = c, ev_arid = kr_arid k, ev_time = kr_time k,
              ev_kind = kind, ev_twin = twin\<rparr>)
        in if kr_topic k = ''ad.impression'' then row ''impression'' (if kr_twin_of k \<noteq> None then 1 else 0)
           else if kr_topic k = ''ad.quartile'' then row (if kr_quartile k = Some ''complete'' then ''complete'' else ''quartile'') 0
           else if kr_topic k = ''ad.click'' then row ''click'' 0
           else if kr_topic k = ''ad.request'' \<and> kr_type k = Some ''ad_response'' \<and> kr_fill k = Some True \<and> c \<noteq> ''nofill''
             then row ''request'' 0
           else None))"

section \<open>The realtime job\<close>

datatype flink_input = Arrive int kafka_record | Watermark int
  \<comment> \<open>a record at a processing time; the watermark of the operators behind the deduplication\<close>

record minute_agg =
  mg_start :: int
  mg_cid :: string
  mg_impressions :: int
  mg_clicks :: int
  mg_completes :: int
  mg_requests :: int
  mg_ssai :: int

type_synonym window = "int \<times> string"

record rt_job =
  fl_seen :: "string option \<Rightarrow> int option"
  fl_mark :: "int option"
  fl_open :: "(window \<times> sql_event list) list"
  fl_aggs :: "minute_agg list"
  fl_late :: "(sql_event \<times> int) list"
  fl_dropped :: "(string option \<times> sql_event) list"
  \<comment> \<open>the state of the deduplication with the time each id was first seen; the current watermark; the open windows; the
     minutes sent to \<open>agg.minute\<close>; the late events with the watermark they met; the table \<open>late_dropped\<close>\<close>

definition flink_empty :: rt_job where
  "flink_empty = \<lparr>fl_seen = (\<lambda>i. None), fl_mark = None, fl_open = [], fl_aggs = [], fl_late = [], fl_dropped = []\<rparr>"

definition STATE_TTL :: int where "STATE_TTL = 3600000"

definition first_row :: "int \<Rightarrow> sql_event \<Rightarrow> (string option \<Rightarrow> int option) \<Rightarrow> bool" where
  \<comment> \<open>\<open>ROW_NUMBER() = 1\<close> in the order of processing; the state of an id lives an hour\<close>
  "first_row now e seen = (case seen (ev_id e) of None \<Rightarrow> True | Some p \<Rightarrow> p + STATE_TTL \<le> now)"

definition window_of :: "sql_event \<Rightarrow> window" where
  "window_of e = (ev_time e div 60000 * 60000, ev_cid e)"

definition window_end :: "int \<Rightarrow> int" where
  "window_end start = start + 60000"

definition fired :: "int option \<Rightarrow> int \<Rightarrow> bool" where
  \<comment> \<open>the watermark has reached the end of the window less a millisecond\<close>
  "fired mark start = (case mark of None \<Rightarrow> False | Some w \<Rightarrow> window_end start - 1 \<le> w)"

definition count_kind :: "string \<Rightarrow> sql_event list \<Rightarrow> int" where
  "count_kind kind es = int (length (filter (\<lambda>e. ev_kind e = kind) es))"

definition agg_1m :: "window \<times> sql_event list \<Rightarrow> minute_agg" where
  "agg_1m we = \<lparr>mg_start = fst (fst we), mg_cid = snd (fst we), mg_impressions = count_kind ''impression'' (snd we),
     mg_clicks = count_kind ''click'' (snd we), mg_completes = count_kind ''complete'' (snd we),
     mg_requests = count_kind ''request'' (snd we), mg_ssai = (\<Sum>e\<leftarrow>snd we. ev_twin e)\<rparr>"

definition into_window :: "sql_event \<Rightarrow> (window \<times> sql_event list) list \<Rightarrow> (window \<times> sql_event list) list" where
  "into_window e ws =
     AList.update (window_of e) ((case map_of ws (window_of e) of None \<Rightarrow> [] | Some es \<Rightarrow> es) @ [e]) ws"

definition flink_event :: "sql_event \<Rightarrow> rt_job \<Rightarrow> rt_job" where
  \<comment> \<open>a deduplicated event at the window and at the late filter beside it; \<open>late_dropped\<close> is keyed by event id\<close>
  "flink_event e st =
     (if fired (fl_mark st) (fst (window_of e)) then
        st\<lparr>fl_late := fl_late st @ [(e, the (fl_mark st))], fl_dropped := AList.update (ev_id e) e (fl_dropped st)\<rparr>
      else st\<lparr>fl_open := into_window e (fl_open st)\<rparr>)"

definition flink_mark :: "int \<Rightarrow> rt_job \<Rightarrow> rt_job" where
  \<comment> \<open>a watermark closes the windows it has passed; one that is behind changes nothing\<close>
  "flink_mark w st =
     (let mark = (case fl_mark st of None \<Rightarrow> w | Some v \<Rightarrow> max v w)
      in st\<lparr>fl_mark := Some mark,
           fl_aggs := fl_aggs st @ map agg_1m (filter (\<lambda>we. fired (Some mark) (fst (fst we))) (fl_open st)),
           fl_open := filter (\<lambda>we. \<not> fired (Some mark) (fst (fst we))) (fl_open st)\<rparr>)"

fun flink_step :: "flink_input \<Rightarrow> rt_job \<Rightarrow> rt_job" where
  "flink_step (Watermark w) st = flink_mark w st"
| "flink_step (Arrive now k) st =
     (case all_events k of
        None \<Rightarrow> st
      | Some e \<Rightarrow> if first_row now e (fl_seen st) then flink_event e (st\<lparr>fl_seen := (fl_seen st)(ev_id e := Some now)\<rparr>) else st)"

definition flink_run :: "flink_input list \<Rightarrow> rt_job" where
  "flink_run ins = fold flink_step ins flink_empty"

text \<open>The other two outputs: the messages of \<open>late.events\<close>, and the alerts.\<close>

record late_event =
  le_id :: "string option"
  le_type :: string
  le_cid :: string
  le_arid :: "string option"
  le_time :: int
  le_window_end :: int
  le_watermark :: int
  le_lateness_ms :: int
  le_topic :: string

definition late_event_of :: "sql_event \<times> int \<Rightarrow> late_event" where
  "late_event_of ew =
     (let (e, w) = ew in
      \<lparr>le_id = ev_id e, le_type = ev_kind e, le_cid = ev_cid e, le_arid = ev_arid e, le_time = ev_time e,
       le_window_end = window_end (fst (window_of e)), le_watermark = w, le_lateness_ms = (w - ev_time e) div 1000 * 1000,
       le_topic = (if ev_kind e = ''impression'' then ''ad.impression'' else if ev_kind e = ''click'' then ''ad.click''
         else if ev_kind e = ''request'' then ''ad.request'' else ''ad.quartile'')\<rparr>)"

definition imp_req_ratio :: "minute_agg \<Rightarrow> rat option" where
  "imp_req_ratio a = (if 0 < mg_requests a then Some (of_int (mg_impressions a) / of_int (mg_requests a)) else None)"

definition low_ratio_alert :: "rat \<Rightarrow> int \<Rightarrow> minute_agg \<Rightarrow> rat option" where
  \<comment> \<open>the ratio reported, if the minute is reported; a division by zero compares as false\<close>
  "low_ratio_alert threshold min_requests a =
     (if min_requests \<le> mg_requests a then
        (case imp_req_ratio a of None \<Rightarrow> None | Some x \<Rightarrow> if x < threshold then Some x else None)
      else None)"

section \<open>Deduplication\<close>

fun deduped :: "flink_input list \<Rightarrow> (string option \<Rightarrow> int option) \<Rightarrow> sql_event list" where
  \<comment> \<open>the view of that name, from a state\<close>
  "deduped [] seen = []"
| "deduped (Watermark w # ins) seen = deduped ins seen"
| "deduped (Arrive now k # ins) seen =
     (case all_events k of
        None \<Rightarrow> deduped ins seen
      | Some e \<Rightarrow> if first_row now e seen then e # deduped ins (seen(ev_id e := Some now)) else deduped ins seen)"

definition events_in :: "flink_input list \<Rightarrow> (int \<times> sql_event) set" where
  "events_in ins = {(now, e). \<exists>k. Arrive now k \<in> set ins \<and> all_events k = Some e}"

lemma events_in_simps [simp]:
  "events_in [] = {}" "events_in (Watermark w # ins) = events_in ins"
  "events_in (Arrive now k # ins) = (case all_events k of None \<Rightarrow> {} | Some e \<Rightarrow> {(now, e)}) \<union> events_in ins"
  by (auto simp: events_in_def split: option.splits)

definition prompt :: "flink_input list \<Rightarrow> bool" where
  \<comment> \<open>copies of an event come within the life of the state\<close>
  "prompt ins \<longleftrightarrow> (\<forall>(n, e) \<in> events_in ins. \<forall>(n', e') \<in> events_in ins. ev_id e = ev_id e' \<longrightarrow> n' < n + STATE_TTL)"

lemma deduped_ids:
  assumes "\<And>n e n' e'. (n, e) \<in> U \<Longrightarrow> (n', e') \<in> U \<Longrightarrow> ev_id e = ev_id e' \<Longrightarrow> n' < n + STATE_TTL"
  shows "events_in ins \<subseteq> U \<Longrightarrow> \<forall>i p. seen i = Some p \<longrightarrow> (\<exists>e. (p, e) \<in> U \<and> ev_id e = i) \<Longrightarrow>
    distinct (map ev_id (deduped ins seen)) \<and> set (deduped ins seen) \<subseteq> snd ` events_in ins \<and>
    ev_id ` set (deduped ins seen) = {i \<in> ev_id ` snd ` events_in ins. seen i = None}"
proof (induction ins seen rule: deduped.induct)
  case (3 now k ins seen)
  note sub = 3(4) and ok = 3(5)
  show ?case
  proof (cases "all_events k")
    case None
    then have "events_in (Arrive now k # ins) = events_in ins" "deduped (Arrive now k # ins) seen = deduped ins seen"
      by simp_all
    with 3(1) [OF None _ ok] sub show ?thesis by simp
  next
    case (Some e)
    have e: "(now, e) \<in> U" and sub': "events_in ins \<subseteq> U" using sub Some by auto
    have ins: "snd ` events_in (Arrive now k # ins) = insert e (snd ` events_in ins)" by (simp add: Some)
    show ?thesis
    proof (cases "seen (ev_id e)")
      case None
      then have f: "first_row now e seen" by (simp add: first_row_def)
      define seen' where "seen' = seen(ev_id e := Some now)"
      have seen': "seen' i = (if i = ev_id e then Some now else seen i)" for i by (simp add: seen'_def)
      have ok': "\<forall>i p. seen' i = Some p \<longrightarrow> (\<exists>e'. (p, e') \<in> U \<and> ev_id e' = i)"
        using e ok by (auto simp: seen')
      have d: "deduped (Arrive now k # ins) seen = e # deduped ins seen'" by (simp add: Some f seen'_def)
      note both = 3(2) [OF Some f, folded seen'_def, OF sub' ok']
      note IH = conjunct1 [OF both] conjunct1 [OF conjunct2 [OF both]] conjunct2 [OF conjunct2 [OF both]]
      have "ev_id e \<notin> ev_id ` set (deduped ins seen')" unfolding IH(3) by (simp add: seen')
      moreover have "insert (ev_id e) {i \<in> ev_id ` snd ` events_in ins. seen' i = None}
          = {i \<in> insert (ev_id e) (ev_id ` snd ` events_in ins). seen i = None}"
        using None by (auto simp: seen')
      ultimately show ?thesis unfolding d ins using IH by auto
    next
      case (Some p)
      then obtain e' where "(p, e') \<in> U" "ev_id e' = ev_id e" using ok by blast
      then have f: "\<not> first_row now e seen" using assms [of p e' now e] e Some by (simp add: first_row_def)
      have d: "deduped (Arrive now k # ins) seen = deduped ins seen" by (simp add: \<open>all_events k = Some e\<close> f)
      have "{i \<in> insert (ev_id e) (ev_id ` snd ` events_in ins). seen i = None}
          = {i \<in> ev_id ` snd ` events_in ins. seen i = None}"
        using Some by auto
      with 3(3) [OF \<open>all_events k = Some e\<close> f sub' ok] show ?thesis unfolding d ins by auto
    qed
  qed
next
  case (2 w ins seen)
  with 2(1) [OF _ 2(3)] show ?case by simp
qed simp

lemma deduped_prompt:
  assumes "prompt ins"
  shows "distinct (map ev_id (deduped ins (\<lambda>i. None)))" "set (deduped ins (\<lambda>i. None)) \<subseteq> snd ` events_in ins"
    "ev_id ` set (deduped ins (\<lambda>i. None)) = ev_id ` snd ` events_in ins"
proof -
  have "n' < n + STATE_TTL" if "(n, e) \<in> events_in ins" "(n', e') \<in> events_in ins" "ev_id e = ev_id e'" for n e n' e'
    using assms that by (auto simp: prompt_def)
  from deduped_ids [of "events_in ins", OF this subset_refl, where seen = "\<lambda>i. None"]
  show "distinct (map ev_id (deduped ins (\<lambda>i. None)))" "set (deduped ins (\<lambda>i. None)) \<subseteq> snd ` events_in ins"
    "ev_id ` set (deduped ins (\<lambda>i. None)) = ev_id ` snd ` events_in ins" by simp_all
qed

section \<open>Every event is counted or late\<close>

definition COUNTED :: "string list" where
  "COUNTED = [''impression'', ''click'', ''complete'', ''request'']"

definition mg_window :: "minute_agg \<Rightarrow> window" where
  "mg_window a = (mg_start a, mg_cid a)"

definition mg_count :: "string \<Rightarrow> minute_agg \<Rightarrow> int" where
  "mg_count kind a = (if kind = ''impression'' then mg_impressions a else if kind = ''click'' then mg_clicks a
     else if kind = ''complete'' then mg_completes a else mg_requests a)"

definition realtime_count :: "string \<Rightarrow> window \<Rightarrow> rt_job \<Rightarrow> int" where
  \<comment> \<open>what \<open>agg.minute\<close> says of a campaign's minute\<close>
  "realtime_count kind w st = (\<Sum>a\<leftarrow>filter (\<lambda>a. mg_window a = w) (fl_aggs st). mg_count kind a)"

definition late_count :: "string \<Rightarrow> window \<Rightarrow> rt_job \<Rightarrow> int" where
  "late_count kind w st = count_kind kind (filter (\<lambda>e. window_of e = w) (map fst (fl_late st)))"

definition open_count :: "string \<Rightarrow> window \<Rightarrow> rt_job \<Rightarrow> int" where
  "open_count kind w st = (case map_of (fl_open st) w of None \<Rightarrow> 0 | Some es \<Rightarrow> count_kind kind es)"

definition true_count :: "string \<Rightarrow> window \<Rightarrow> sql_event list \<Rightarrow> int" where
  "true_count kind w es = count_kind kind (filter (\<lambda>e. window_of e = w) es)"

definition accounts :: "rt_job \<Rightarrow> sql_event list \<Rightarrow> bool" where
  "accounts st es \<longleftrightarrow> distinct (map fst (fl_open st)) \<and> distinct (map mg_window (fl_aggs st)) \<and>
     list_all (\<lambda>a. fired (fl_mark st) (mg_start a)) (fl_aggs st) \<and>
     list_all (\<lambda>we. \<not> fired (fl_mark st) (fst (fst we))) (fl_open st) \<and>
     (\<forall>kind \<in> set COUNTED. \<forall>w. realtime_count kind w st + open_count kind w st + late_count kind w st = true_count kind w es)"

lemma count_kind_append [simp]: "count_kind kind (xs @ ys) = count_kind kind xs + count_kind kind ys"
  by (simp add: count_kind_def)

lemma count_kind_Nil [simp]: "count_kind kind [] = 0"
  by (simp add: count_kind_def)

lemma true_count_snoc: "true_count kind w (es @ [e]) = true_count kind w es + (if window_of e = w then count_kind kind [e] else 0)"
  by (simp add: true_count_def)

lemma open_count_into:
  "open_count kind w (st\<lparr>fl_open := into_window e (fl_open st)\<rparr>) =
     open_count kind w st + (if window_of e = w then count_kind kind [e] else 0)"
proof -
  have "map_of (into_window e (fl_open st)) w =
      (if w = window_of e then Some ((case map_of (fl_open st) w of None \<Rightarrow> [] | Some es \<Rightarrow> es) @ [e]) else map_of (fl_open st) w)"
    by (simp add: into_window_def update_conv')
  then show ?thesis by (simp add: open_count_def split: option.splits)
qed

lemma accounts_parts:
  assumes "accounts st es"
  shows "distinct (map fst (fl_open st))" "distinct (map mg_window (fl_aggs st))"
    "a \<in> set (fl_aggs st) \<Longrightarrow> fired (fl_mark st) (mg_start a)" "we \<in> set (fl_open st) \<Longrightarrow> \<not> fired (fl_mark st) (fst (fst we))"
    "kind \<in> set COUNTED \<Longrightarrow> realtime_count kind w st + open_count kind w st + late_count kind w st = true_count kind w es"
  using assms by (auto simp: accounts_def list_all_iff simp del: split_paired_All)

lemma accountsI:
  assumes "distinct (map fst (fl_open st))" "distinct (map mg_window (fl_aggs st))"
    and "\<And>a. a \<in> set (fl_aggs st) \<Longrightarrow> fired (fl_mark st) (mg_start a)"
    and "\<And>we. we \<in> set (fl_open st) \<Longrightarrow> \<not> fired (fl_mark st) (fst (fst we))"
    and "\<And>kind w. kind \<in> set COUNTED \<Longrightarrow>
      realtime_count kind w st + open_count kind w st + late_count kind w st = true_count kind w es"
  shows "accounts st es"
  unfolding accounts_def list_all_iff by (intro conjI ballI allI assms)

lemma accounts_event:
  assumes "accounts st es"
  shows "accounts (flink_event e st) (es @ [e])"
proof (cases "fired (fl_mark st) (fst (window_of e))")
  case True
  have st: "flink_event e st = st\<lparr>fl_late := fl_late st @ [(e, the (fl_mark st))],
      fl_dropped := AList.update (ev_id e) e (fl_dropped st)\<rparr>"
    by (simp add: flink_event_def True)
  have "late_count kind w (flink_event e st) = late_count kind w st + (if window_of e = w then count_kind kind [e] else 0)" for kind w
    by (simp add: st late_count_def)
  moreover have "realtime_count kind w (flink_event e st) = realtime_count kind w st"
    "open_count kind w (flink_event e st) = open_count kind w st" for kind w
    by (simp_all add: st realtime_count_def open_count_def)
  ultimately have counts: "realtime_count kind w (flink_event e st) + open_count kind w (flink_event e st) +
      late_count kind w (flink_event e st) = true_count kind w (es @ [e])" if "kind \<in> set COUNTED" for kind w
    using accounts_parts(5) [OF assms that, of w] by (simp add: true_count_snoc)
  show ?thesis
    by (rule accountsI [OF _ _ _ _ counts]) (use accounts_parts(1-4) [OF assms] in \<open>simp_all add: st\<close>)
next
  case False
  have st: "flink_event e st = st\<lparr>fl_open := into_window e (fl_open st)\<rparr>" by (simp add: flink_event_def False)
  have "realtime_count kind w (flink_event e st) = realtime_count kind w st"
    "late_count kind w (flink_event e st) = late_count kind w st" for kind w
    by (simp_all add: st realtime_count_def late_count_def)
  then have counts: "realtime_count kind w (flink_event e st) + open_count kind w (flink_event e st) +
      late_count kind w (flink_event e st) = true_count kind w (es @ [e])" if "kind \<in> set COUNTED" for kind w
    using accounts_parts(5) [OF assms that, of w] open_count_into [of kind w e st] by (simp add: true_count_snoc st)
  have keys: "fst ` set (into_window e (fl_open st)) = insert (window_of e) (fst ` set (fl_open st))"
    by (simp add: into_window_def dom_update)
  have "\<not> fired (fl_mark st) (fst (fst we))" if "we \<in> set (into_window e (fl_open st))" for we
  proof -
    have "fst we \<in> insert (window_of e) (fst ` set (fl_open st))" using that unfolding keys [symmetric] by (rule imageI)
    then show ?thesis using False accounts_parts(4) [OF assms] by auto
  qed
  moreover have "distinct (map fst (into_window e (fl_open st)))"
    using accounts_parts(1) [OF assms] by (simp add: into_window_def distinct_update)
  ultimately show ?thesis
    by (intro accountsI [OF _ _ _ _ counts]) (use accounts_parts(2-4) [OF assms] in \<open>simp_all add: st\<close>)
qed

lemma fired_mono: "fired mark ws \<Longrightarrow> mark = Some v \<Longrightarrow> v \<le> w \<Longrightarrow> fired (Some w) ws"
  by (simp add: fired_def)

lemma sum_of_key:
  "distinct (map fst ws) \<Longrightarrow>
     (\<Sum>we\<leftarrow>filter (\<lambda>we. fst we = k \<and> P (fst we)) ws. g we) =
       (case map_of ws k of None \<Rightarrow> 0 | Some es \<Rightarrow> if P k then g (k, es) else (0 :: int))"
proof (induction ws)
  case (Cons we ws)
  have "map_of ws (fst we) = None" using Cons.prems by (simp add: map_of_eq_None_iff)
  with Cons show ?case by (cases we) (auto split: option.splits)
qed simp

lemma map_of_filter_key: "map_of (filter (\<lambda>we. P (fst we)) ws) k = (if P k then map_of ws k else None)"
  by (induction ws) auto

lemma agg_1m_simps:
  "mg_window (agg_1m we) = fst we" "mg_start (agg_1m we) = fst (fst we)"
  "kind \<in> set COUNTED \<Longrightarrow> mg_count kind (agg_1m we) = count_kind kind (snd we)"
  by (auto simp: mg_window_def agg_1m_def mg_count_def COUNTED_def)

lemma accounts_mark:
  assumes "accounts st es"
  shows "accounts (flink_mark w st) es"
proof -
  define mark where "mark = (case fl_mark st of None \<Rightarrow> w | Some v \<Rightarrow> max v w)"
  define go where "go = (\<lambda>k :: window. fired (Some mark) (fst k))"
  have st: "flink_mark w st = st\<lparr>fl_mark := Some mark, fl_aggs := fl_aggs st @ map agg_1m (filter (\<lambda>we. go (fst we)) (fl_open st)),
      fl_open := filter (\<lambda>we. \<not> go (fst we)) (fl_open st)\<rparr>"
    by (simp add: flink_mark_def mark_def go_def Let_def)
  have later: "go k" if "fired (fl_mark st) (fst k)" for k
    using that unfolding go_def mark_def by (cases "fl_mark st") (auto simp: fired_def)
  have dist: "distinct (map fst (fl_open st))" by (rule accounts_parts(1) [OF assms])
  have apart: "mg_window a \<noteq> fst we" if "a \<in> set (fl_aggs st)" "we \<in> set (fl_open st)" for a we
    using accounts_parts(3) [OF assms that(1)] accounts_parts(4) [OF assms that(2)] by (metis mg_window_def fst_conv)
  have moved: "realtime_count kind k (flink_mark w st) + open_count kind k (flink_mark w st)
      = realtime_count kind k st + open_count kind k st" if kind: "kind \<in> set COUNTED" for kind k
  proof -
    have "realtime_count kind k (flink_mark w st) =
        realtime_count kind k st + (\<Sum>we\<leftarrow>filter (\<lambda>we. fst we = k \<and> go (fst we)) (fl_open st). count_kind kind (snd we))"
      by (simp add: st realtime_count_def filter_map comp_def agg_1m_simps kind conj_commute)
    moreover have "map_of (filter (\<lambda>we. \<not> go (fst we)) (fl_open st)) k = (if go k then None else map_of (fl_open st) k)"
      using map_of_filter_key [of "\<lambda>k. \<not> go k" "fl_open st" k] by simp
    ultimately show ?thesis
      by (simp add: sum_of_key [OF dist] open_count_def st split: option.splits)
  qed
  have "late_count kind k (flink_mark w st) = late_count kind k st" for kind k
    by (simp add: st late_count_def)
  then have counts: "realtime_count kind k (flink_mark w st) + open_count kind k (flink_mark w st) +
      late_count kind k (flink_mark w st) = true_count kind k es" if "kind \<in> set COUNTED" for kind k
    using accounts_parts(5) [OF assms that, of k] moved [OF that, of k] by simp
  have "distinct (map mg_window (fl_aggs (flink_mark w st)))"
    using accounts_parts(2) [OF assms] dist apart by (force simp: st comp_def agg_1m_simps distinct_map_filter)
  moreover have "fired (Some mark) (mg_start a)" if "a \<in> set (fl_aggs (flink_mark w st))" for a
    using that later [of "mg_window a"] accounts_parts(3) [OF assms, of a]
    by (auto simp: st agg_1m_simps go_def mg_window_def)
  ultimately show ?thesis
    by (intro accountsI [OF _ _ _ _ counts]) (simp_all add: st go_def dist distinct_map_filter)
qed

lemma run_induct:
  assumes "P st es"
    and event: "\<And>st es e seen. P st es \<Longrightarrow> P (flink_event e (st\<lparr>fl_seen := seen\<rparr>)) (es @ [e])"
    and mark: "\<And>st es w. P st es \<Longrightarrow> P (flink_mark w st) es"
  shows "P (fold flink_step ins st) (es @ deduped ins (fl_seen st))"
  using assms(1)
proof (induction ins arbitrary: st es)
  case (Cons x ins)
  show ?case
  proof (cases x)
    case (Watermark w)
    have "fl_seen (flink_mark w st) = fl_seen st" by (simp add: flink_mark_def Let_def)
    with Cons.IH [OF mark [OF Cons.prems, of w]] show ?thesis by (simp add: Watermark)
  next
    case (Arrive now k)
    show ?thesis
    proof (cases "\<exists>e. all_events k = Some e \<and> first_row now e (fl_seen st)")
      case False
      then show ?thesis using Cons by (auto simp: Arrive split: option.splits)
    next
      case True
      then obtain e where e: "all_events k = Some e" "first_row now e (fl_seen st)" by blast
      let ?seen = "(fl_seen st)(ev_id e := Some now)"
      have "fl_seen (flink_event e (st\<lparr>fl_seen := ?seen\<rparr>)) = ?seen" by (simp add: flink_event_def)
      then show ?thesis
        using Cons.IH [OF event [OF Cons.prems, of e ?seen]] e by (simp add: Arrive del: fun_upd_apply)
    qed
  qed
qed simp

lemma flink_induct:
  assumes "P flink_empty []"
    and "\<And>st es e seen. P st es \<Longrightarrow> P (flink_event e (st\<lparr>fl_seen := seen\<rparr>)) (es @ [e])"
    and "\<And>st es w. P st es \<Longrightarrow> P (flink_mark w st) es"
  shows "P (flink_run ins) (deduped ins (\<lambda>i. None))"
  using run_induct [of P flink_empty "[]" ins] assms by (simp add: flink_run_def flink_empty_def)

lemma accounts_init: "accounts flink_empty []"
  by (simp add: accounts_def flink_empty_def realtime_count_def open_count_def late_count_def true_count_def count_kind_def)

lemma flink_accounts: "accounts (flink_run ins) (deduped ins (\<lambda>i. None))"
proof (rule flink_induct [where P = accounts])
  fix st es e seen
  assume "accounts st es"
  then have "accounts (st\<lparr>fl_seen := seen\<rparr>) es"
    by (simp add: accounts_def realtime_count_def open_count_def late_count_def)
  then show "accounts (flink_event e (st\<lparr>fl_seen := seen\<rparr>)) (es @ [e])" by (rule accounts_event)
qed (rule accounts_init, rule accounts_mark)

lemma flink_windows:
  "set (map mg_window (fl_aggs (flink_run ins))) \<union> fst ` set (fl_open (flink_run ins)) \<subseteq> window_of ` set (deduped ins (\<lambda>i. None))"
proof (rule flink_induct [where P = "\<lambda>st es. set (map mg_window (fl_aggs st)) \<union> fst ` set (fl_open st) \<subseteq> window_of ` set es"])
  fix st :: rt_job and es e seen
  assume "set (map mg_window (fl_aggs st)) \<union> fst ` set (fl_open st) \<subseteq> window_of ` set es"
  moreover have "fst ` set (into_window e (fl_open st)) = insert (window_of e) (fst ` set (fl_open st))"
    by (simp add: into_window_def dom_update)
  ultimately show "set (map mg_window (fl_aggs (flink_event e (st\<lparr>fl_seen := seen\<rparr>)))) \<union>
      fst ` set (fl_open (flink_event e (st\<lparr>fl_seen := seen\<rparr>))) \<subseteq> window_of ` set (es @ [e])"
    by (auto simp: flink_event_def)
qed (auto simp: flink_mark_def flink_empty_def Let_def agg_1m_simps)

section \<open>The table of late events\<close>

definition dropped_count :: "string \<Rightarrow> window \<Rightarrow> rt_job \<Rightarrow> int" where
  "dropped_count kind w st = count_kind kind (filter (\<lambda>e. window_of e = w) (map snd (fl_dropped st)))"

definition dropped_once :: "rt_job \<Rightarrow> sql_event list \<Rightarrow> bool" where
  "dropped_once st es \<longleftrightarrow>
     fl_dropped st = map (\<lambda>(e, w). (ev_id e, e)) (fl_late st) \<and> fst ` set (fl_late st) \<subseteq> set es"

lemma dropped_event:
  assumes "dropped_once st es" "ev_id e \<notin> ev_id ` set es"
  shows "dropped_once (flink_event e st) (es @ [e])"
proof -
  have "ev_id e \<notin> fst ` set (fl_dropped st)" using assms by (force simp: dropped_once_def)
  then have "AList.update (ev_id e) e (fl_dropped st) = fl_dropped st @ [(ev_id e, e)]"
    by (rule update_new)
  then show ?thesis using assms(1) by (auto simp: dropped_once_def flink_event_def)
qed

lemma flink_dropped:
  assumes "prompt ins"
  shows "dropped_once (flink_run ins) (deduped ins (\<lambda>i. None))"
proof -
  have "distinct (map ev_id (deduped ins (\<lambda>i. None))) \<longrightarrow> dropped_once (flink_run ins) (deduped ins (\<lambda>i. None))"
  proof (rule flink_induct [where P = "\<lambda>st es. distinct (map ev_id es) \<longrightarrow> dropped_once st es"])
    fix st es e seen
    assume "distinct (map ev_id es) \<longrightarrow> dropped_once st es"
    then show "distinct (map ev_id (es @ [e])) \<longrightarrow> dropped_once (flink_event e (st\<lparr>fl_seen := seen\<rparr>)) (es @ [e])"
      using dropped_event [of "st\<lparr>fl_seen := seen\<rparr>" es e] by (auto simp: dropped_once_def)
  qed (simp_all add: dropped_once_def flink_empty_def flink_mark_def Let_def)
  with deduped_prompt(1) [OF assms] show ?thesis by blast
qed

lemma dropped_count_late: "prompt ins \<Longrightarrow> dropped_count kind w (flink_run ins) = late_count kind w (flink_run ins)"
  using flink_dropped [of ins] by (simp add: dropped_once_def dropped_count_def late_count_def comp_def split_beta)

section \<open>The settlement counts the same events\<close>

definition records :: "flink_input list \<Rightarrow> kafka_record list" where
  "records ins = concat (map (\<lambda>x. case x of Arrive now k \<Rightarrow> [k] | Watermark w \<Rightarrow> []) ins)"

lemma set_records: "set (records ins) = {k. \<exists>now. Arrive now k \<in> set ins}"
  by (auto simp: records_def split: flink_input.splits)

definition alike :: "kafka_record \<Rightarrow> kafka_record \<Rightarrow> bool" where
  \<comment> \<open>copies of an event tell the same; a pixel and a post may differ in the markers\<close>
  "alike k k' \<longleftrightarrow> kr_topic k = kr_topic k' \<and> kr_type k = kr_type k' \<and> kr_cid k = kr_cid k' \<and> kr_time k = kr_time k'"

definition clean_records :: "kafka_record list \<Rightarrow> bool" where
  \<comment> \<open>ids are there, copies agree, and an impression is called so\<close>
  "clean_records ks \<longleftrightarrow> (\<forall>k \<in> set ks. kr_event_id k \<noteq> None \<and> (kr_topic k = ''ad.impression'' \<longleftrightarrow> kr_type k = Some ''impression'') \<and>
     (\<forall>k' \<in> set ks. kr_event_id k = kr_event_id k' \<longrightarrow> alike k k'))"

definition is_imp :: "int \<Rightarrow> string \<Rightarrow> kafka_record \<Rightarrow> bool" where
  "is_imp m c k \<longleftrightarrow> kr_topic k = ''ad.impression'' \<and> kr_cid k = Some c \<and> kr_time k div 60000 = m"

lemma filter_card: "distinct (map f xs) \<Longrightarrow> length (filter P xs) = card (f ` {x \<in> set xs. P x})"
proof -
  assume d: "distinct (map f xs)"
  then have "distinct (map f (filter P xs))" by (simp add: distinct_map_filter)
  then have "card (set (map f (filter P xs))) = length (filter P xs)" by (metis distinct_card length_map)
  then show ?thesis by simp
qed

lemma ids_of_representatives:
  assumes "f ` set ys = g ` ks" "\<And>y. y \<in> set ys \<Longrightarrow> \<exists>k \<in> ks. g k = f y \<and> (Q y \<longleftrightarrow> P k)"
    and "\<And>k k'. k \<in> ks \<Longrightarrow> k' \<in> ks \<Longrightarrow> g k = g k' \<Longrightarrow> P k = P k'"
  shows "f ` {y \<in> set ys. Q y} = g ` {k \<in> ks. P k}"
proof (intro equalityI subsetI)
  fix i assume "i \<in> f ` {y \<in> set ys. Q y}"
  then obtain y where "y \<in> set ys" "Q y" "i = f y" by auto
  with assms(2) [of y] show "i \<in> g ` {k \<in> ks. P k}" by force
next
  fix i assume "i \<in> g ` {k \<in> ks. P k}"
  then obtain k where k: "k \<in> ks" "P k" "i = g k" by auto
  then have "g k \<in> f ` set ys" using assms(1) by simp
  then obtain y where y: "y \<in> set ys" "f y = g k" by force
  with assms(2) [of y] obtain k' where "k' \<in> ks" "g k' = f y" "Q y \<longleftrightarrow> P k'" by auto
  with assms(3) [of k k'] k y show "i \<in> f ` {y \<in> set ys. Q y}" by force
qed

lemma archived_impressions:
  assumes sp: "spark_ok sp" and clean: "clean_records ks"
  shows "count_of is_impression minute_key (Some m, Some c) (dedup sp (raw_rows sp (archive ks)))
    = int (card (kr_event_id ` {k \<in> set ks. is_imp m c k}))"
proof -
  let ?raw = "raw_rows sp (archive ks)" and ?Q = "\<lambda>r. is_impression r \<and> minute_key r = (Some m, Some c)"
  let ?ks = "{k \<in> set ks. kr_topic k \<in> set ARCHIVED}"
  have "set_mset (mset ?raw) = set_mset (mset (filter (\<lambda>r. r_event_id r \<noteq> None) (archive ks)))"
    unfolding raw_rows_def spark_filter [OF sp] ..
  then have raw: "set ?raw = archive_row ` ?ks"
    using clean by (auto simp: archive_def clean_records_def archive_row_def)
  have ids: "r_event_id (archive_row k) = kr_event_id k" for k by (simp add: archive_row_def)
  have Q: "?Q (archive_row k) \<longleftrightarrow> is_imp m c k" if "k \<in> set ks" for k
    using that clean by (auto simp: archive_row_def is_impression_def minute_key_def is_imp_def clean_records_def)
  note one = evt.one_per_group [OF sp, of ?raw]
  have "r_event_id ` {y \<in> set (dedup sp ?raw). ?Q y} = kr_event_id ` {k \<in> ?ks. is_imp m c k}"
  proof (rule ids_of_representatives)
    show "r_event_id ` set (dedup sp ?raw) = kr_event_id ` ?ks"
      using one by (simp add: raw image_image ids)
    fix y assume "y \<in> set (dedup sp ?raw)"
    then obtain k where "k \<in> ?ks" "y = archive_row k" using evt.mem [OF sp] raw by blast
    then show "\<exists>k \<in> ?ks. kr_event_id k = r_event_id y \<and> (?Q y \<longleftrightarrow> is_imp m c k)"
      using Q by (intro bexI [of _ k]) (simp_all add: ids)
  next
    fix k k' assume "k \<in> ?ks" "k' \<in> ?ks" "kr_event_id k = kr_event_id k'"
    then have "alike k k'" using clean by (auto simp: clean_records_def)
    then show "is_imp m c k = is_imp m c k'" by (simp add: alike_def is_imp_def)
  qed
  moreover have "{k \<in> ?ks. is_imp m c k} = {k \<in> set ks. is_imp m c k}" by (auto simp: is_imp_def ARCHIVED_def)
  ultimately show ?thesis
    using filter_card [of r_event_id "dedup sp ?raw" ?Q] one by (simp add: count_of_def)
qed

lemma all_events_imp:
  assumes "all_events k = Some e"
  shows "ev_kind e = ''impression'' \<and> window_of e = (m * 60000, c) \<longleftrightarrow> is_imp m c k" "ev_id e = kr_event_id k"
  using assms by (auto simp: all_events_def is_imp_def window_of_def Let_def split: option.splits if_splits)

lemma streamed_impressions:
  assumes "prompt ins" "clean_records (records ins)"
  shows "true_count ''impression'' (m * 60000, c) (deduped ins (\<lambda>i. None))
    = int (card (kr_event_id ` {k \<in> set (records ins). is_imp m c k}))"
proof -
  let ?D = "deduped ins (\<lambda>i. None)" and ?Q = "\<lambda>e. ev_kind e = ''impression'' \<and> window_of e = (m * 60000, c)"
  let ?ks = "{k \<in> set (records ins). all_events k \<noteq> None}"
  have ev: "snd ` events_in ins = (\<lambda>k. the (all_events k)) ` ?ks"
    by (force simp: events_in_def set_records image_iff)
  note D = deduped_prompt [OF assms(1)]
  have "ev_id ` {y \<in> set ?D. ?Q y} = kr_event_id ` {k \<in> ?ks. is_imp m c k}"
  proof (rule ids_of_representatives)
    have "ev_id ` set ?D = (\<lambda>k. ev_id (the (all_events k))) ` ?ks" unfolding D(3) ev by (simp add: image_image)
    also have "\<dots> = kr_event_id ` ?ks" by (rule image_cong) (auto dest: all_events_imp(2))
    finally show "ev_id ` set ?D = kr_event_id ` ?ks" .
    fix y assume "y \<in> set ?D"
    then obtain k where k: "k \<in> ?ks" "y = the (all_events k)" using D(2) ev by blast
    then have "all_events k = Some y" by auto
    from all_events_imp [OF this] k show "\<exists>k \<in> ?ks. kr_event_id k = ev_id y \<and> (?Q y \<longleftrightarrow> is_imp m c k)" by auto
  next
    fix k k' assume "k \<in> ?ks" "k' \<in> ?ks" "kr_event_id k = kr_event_id k'"
    then have "alike k k'" using assms(2) by (auto simp: clean_records_def)
    then show "is_imp m c k = is_imp m c k'" by (simp add: alike_def is_imp_def)
  qed
  moreover have "{k \<in> ?ks. is_imp m c k} = {k \<in> set (records ins). is_imp m c k}"
    by (auto simp: is_imp_def all_events_def Let_def)
  ultimately show ?thesis
    using filter_card [of ev_id ?D ?Q] D(1) by (simp add: true_count_def count_kind_def conj_commute)
qed

section \<open>Properties\<close>

lemma late_meets_closed_window:
  "list_all (\<lambda>(e, w). window_end (fst (window_of e)) - 1 \<le> w) (fl_late (flink_run ins))"
  by (rule flink_induct [where P = "\<lambda>st es. list_all (\<lambda>(e, w). window_end (fst (window_of e)) - 1 \<le> w) (fl_late st)"])
    (auto simp: flink_empty_def flink_event_def flink_mark_def fired_def Let_def split: option.splits)

lemma open_window_counts:
  assumes "accounts st es"
  shows "if fired (fl_mark st) (fst w) then open_count kind w st = 0 else realtime_count kind w st = 0"
proof (cases "fired (fl_mark st) (fst w)")
  case True
  have "map_of (fl_open st) w = None"
    unfolding map_of_eq_None_iff using accounts_parts(4) [OF assms] True by auto
  with True show ?thesis by (simp add: open_count_def)
next
  case False
  have "mg_window a \<noteq> w" if "a \<in> set (fl_aggs st)" for a
    using accounts_parts(3) [OF assms that] False by (auto simp: mg_window_def)
  then have "filter (\<lambda>a. mg_window a = w) (fl_aggs st) = []" by (simp add: filter_empty_conv)
  with False show ?thesis by (simp add: realtime_count_def)
qed

text \<open>C24: the realtime job loses nothing silently.  After any records and watermarks, a campaign's minute has been sent
  at most once; each event that passed the deduplication is counted in its minute's row, waits in its open window, or is
  reported late, for each of the four kinds; a minute is open before the watermark reaches its end and closed from then
  on; and every late event met a watermark that had closed its window, so its lateness is not negative.\<close>

theorem every_event_counted_or_late:
  "let st = flink_run ins; es = deduped ins (\<lambda>i. None) in
     distinct (map mg_window (fl_aggs st)) \<and>
     list_all (\<lambda>kind. \<forall>w. realtime_count kind w st + open_count kind w st + late_count kind w st = true_count kind w es \<and>
       (if fired (fl_mark st) (fst w) then open_count kind w st = 0 else realtime_count kind w st = 0)) COUNTED \<and>
     list_all (\<lambda>l. le_window_end l - 1 \<le> le_watermark l \<and> 0 \<le> le_lateness_ms l) (map late_event_of (fl_late st))"
proof -
  note a = flink_accounts [of ins]
  have "0 \<le> (w - ev_time e) div 1000 * 1000" if "window_end (fst (window_of e)) - 1 \<le> w" for e w
  proof -
    have "ev_time e = ev_time e div 60000 * 60000 + ev_time e mod 60000" "ev_time e mod 60000 < 60000" by simp_all
    then have "ev_time e \<le> w" using that unfolding window_end_def window_of_def fst_conv by linarith
    then show ?thesis by (simp add: pos_imp_zdiv_nonneg_iff)
  qed
  then have "list_all (\<lambda>l. le_window_end l - 1 \<le> le_watermark l \<and> 0 \<le> le_lateness_ms l) (map late_event_of (fl_late (flink_run ins)))"
    using late_meets_closed_window [of ins] by (fastforce simp: list_all_iff late_event_of_def)
  then show ?thesis
    using accounts_parts(2,5) [OF a] open_window_counts [OF a] by (simp add: Let_def list_all_iff del: split_paired_All)
qed

end
