(* ===== verification/Pipeline.thy ===== *)
theory Pipeline
  imports Flink Reconcile
begin

text \<open>
  The two ways of counting and their comparison: the records of Kafka go through the realtime job, the writer and the
  summary on one side, through the archive and the settlement on the other, and the reconciliation reads both, with the
  table of late events.
\<close>

section \<open>What is read\<close>

definition agg_message :: "(minute_agg \<Rightarrow> (string \<times> string) option) \<Rightarrow> (minute_agg \<Rightarrow> string) \<Rightarrow> minute_agg \<Rightarrow> dict" where
  \<comment> \<open>a row of \<open>agg_minute_sink\<close> in JSON, with the campaign the lookup join found and the time of sending\<close>
  "agg_message meta sent a =
     [(''window_start'', PStr (iso_render (mg_start a div 1000))),
      (''window_end'', PStr (iso_render (window_end (mg_start a) div 1000))),
      (''campaign_id'', PStr (mg_cid a)),
      (''advertiser'', (case meta a of None \<Rightarrow> PNone | Some (x, y) \<Rightarrow> PStr x)),
      (''campaign_name'', (case meta a of None \<Rightarrow> PNone | Some (x, y) \<Rightarrow> PStr y)),
      (''impressions'', PInt (mg_impressions a)), (''clicks'', PInt (mg_clicks a)),
      (''completes'', PInt (mg_completes a)), (''requests'', PInt (mg_requests a)),
      (''imp_req_ratio'', (case imp_req_ratio a of None \<Rightarrow> PNone | Some x \<Rightarrow> PFloat x)),
      (''ssai_dupes'', PInt (mg_ssai a)), (''emitted_at'', PStr (sent a))]"

definition summary_impressions :: "rview \<Rightarrow> int \<Rightarrow> int \<Rightarrow> int \<Rightarrow> (string \<times> int) list option" where
  \<comment> \<open>\<open>fetch_realtime\<close>; None: the request raised\<close>
  "summary_impressions v now t0 t1 = (case agg_summary v now (realtime_query t0 t1) of
     Inl x \<Rightarrow> None
   | Inr s \<Rightarrow> Some (map (\<lambda>(c, t). (c, sm_count t ''impressions'')) (sy_campaigns s)))"

definition minute_batch :: "(key \<times> int list) list \<Rightarrow> int \<Rightarrow> int \<Rightarrow> batch_row list" where
  \<comment> \<open>the ranged query of \<open>fetch_batch\<close>\<close>
  "minute_batch minutes t0 t1 =
     (let rows = filter (\<lambda>((m, c), v). \<exists>n. m = Some n \<and> t0 \<le> n * 60 \<and> n * 60 < t1) minutes
      in map (\<lambda>c. \<lparr>br_cid = c, br_imp = Some (\<Sum>r\<leftarrow>filter (\<lambda>r. snd (fst r) = c) rows. snd r ! 0),
                 br_raw = Some (\<Sum>r\<leftarrow>filter (\<lambda>r. snd (fst r) = c) rows. snd r ! 1)\<rparr>)
           (remdups (map (\<lambda>r. snd (fst r)) rows)))"

definition day_batch :: "settled list \<Rightarrow> int \<Rightarrow> batch_row list" where
  \<comment> \<open>the daily query of \<open>fetch_batch\<close>\<close>
  "day_batch days t0 = map (\<lambda>r. \<lparr>br_cid = sd_cid r, br_imp = Some (sd_impressions r), br_raw = Some (sd_raw r)\<rparr>)
     (filter (\<lambda>r. sd_dt r = Some (t0 div 86400)) days)"

definition late_impressions :: "(string option \<times> sql_event) list \<Rightarrow> int \<Rightarrow> int \<Rightarrow> (string option \<times> int) list" where
  \<comment> \<open>the query of \<open>fetch_late_dropped\<close>\<close>
  "late_impressions dropped t0 t1 =
     (let es = filter (\<lambda>e. ev_kind e = ''impression'' \<and> t0 * 1000 \<le> ev_time e \<and> ev_time e < t1 * 1000) (map snd dropped)
      in map (\<lambda>c. (Some c, int (length (filter (\<lambda>e. ev_cid e = c) es)))) (remdups (map ev_cid es)))"

definition recon_reads :: "rview \<Rightarrow> int \<Rightarrow> settled list \<Rightarrow> (key \<times> int list) list \<Rightarrow> rt_job \<Rightarrow> recon_io" where
  \<comment> \<open>the reconciliation on these stores\<close>
  "recon_reads v now days minutes st =
     \<lparr>io_summary = summary_impressions v now,
      io_batch = (\<lambda>rng t0 t1. if rng then minute_batch minutes t0 t1 else day_batch days t0),
      io_late = (\<lambda>t0 t1. Some (late_impressions (fl_dropped st) t0 t1))\<rparr>"

section \<open>The index of the minutes\<close>

definition agg_polls :: "polled list \<Rightarrow> (int \<times> string \<times> dict) list" where
  \<comment> \<open>the decoded messages of \<open>agg.minute\<close>, with the two clock readings\<close>
  "agg_polls ps = concat (map (\<lambda>p. case p of
     PollMsg topic (Some (PDict d)) now upd \<Rightarrow> if topic = ''agg.minute'' then [(now, upd, d)] else [] | _ \<Rightarrow> []) ps)"

definition indexed :: "wcfg \<Rightarrow> (int \<times> string \<times> dict) list \<Rightarrow> (string \<times> int) set" where
  "indexed cfg msgs = {(k, ep). \<exists>now upd d mem f. (now, upd, d) \<in> set msgs \<and> agg_row cfg upd d = Inr (k, ep, mem, f)}"

lemma agg_polls_append [simp]: "agg_polls (ps @ qs) = agg_polls ps @ agg_polls qs"
  by (simp add: agg_polls_def)

lemma set_agg_polls: "(now, upd, d) \<in> set (agg_polls ps) \<longleftrightarrow> PollMsg ''agg.minute'' (Some (PDict d)) now upd \<in> set ps"
  by (force simp: agg_polls_def split: polled.splits option.splits pyval.splits if_splits)

lemma indexed_append [simp]: "indexed cfg (xs @ ys) = indexed cfg xs \<union> indexed cfg ys"
  by (auto simp: indexed_def) blast+

definition index_ok :: "int \<Rightarrow> (string \<times> int) set \<Rightarrow> (string \<times> int) list \<Rightarrow> bool" where
  \<comment> \<open>from a time on, the index holds exactly these keys, once\<close>
  "index_ok lo I z \<longleftrightarrow> distinct (map fst z) \<and> (\<forall>k s. lo \<le> s \<longrightarrow> ((k, s) \<in> set z \<longleftrightarrow> (k, s) \<in> I))"

lemma mem_update: "distinct (map fst z) \<Longrightarrow>
    (k', s) \<in> set (AList.update k ep z) \<longleftrightarrow> (if k' = k then s = ep else (k', s) \<in> set z)"
proof -
  assume d: "distinct (map fst z)"
  then have "distinct (map fst (AList.update k ep z))" by (rule distinct_update)
  then have "(k', s) \<in> set (AList.update k ep z) \<longleftrightarrow> map_of (AList.update k ep z) k' = Some s" by simp
  with d show ?thesis by (auto simp: update_conv')
qed

lemma index_ok_add:
  assumes "index_ok lo I z" "\<And>s. (k, s) \<in> I \<Longrightarrow> s = ep" "gone < lo"
  shows "index_ok lo (insert (k, ep) I) (filter (\<lambda>(m, s). \<not> (0 \<le> s \<and> s \<le> gone)) (AList.update k ep z))"
proof -
  have d: "distinct (map fst z)" using assms(1) by (simp add: index_ok_def)
  have "distinct (map fst (filter (\<lambda>(m, s). \<not> (0 \<le> s \<and> s \<le> gone)) (AList.update k ep z)))"
    by (rule distinct_map_filter) (rule distinct_update [OF d])
  then show ?thesis using assms by (auto simp: index_ok_def mem_update [OF d])
qed

text \<open>Only a stored aggregate touches the index.\<close>

definition commands_keep_zsets :: "redis_cmd list \<Rightarrow> bool" where
  "commands_keep_zsets cs \<longleftrightarrow> list_all (\<lambda>c. case c of ZAdd k m s \<Rightarrow> False | ZRemRangeByScore k a b \<Rightarrow> False | Expire k t \<Rightarrow> 0 < t | _ \<Rightarrow> True) cs"

lemma keep_zsets: "commands_keep_zsets cs \<Longrightarrow> rv_zset (fold redis_apply cs v) = rv_zset v"
  by (induction cs arbitrary: v) (auto simp: commands_keep_zsets_def split: redis_cmd.splits)

lemma planned_keeps_zsets:
  assumes "planned cfg p = Some cs" "0 < wc_ttl cfg"
    and "\<And>d now upd x. p = PollMsg ''agg.minute'' (Some (PDict d)) now upd \<Longrightarrow> agg_row cfg upd d \<noteq> Inr x"
  shows "commands_keep_zsets cs"
proof (cases p)
  case (PollMsg topic body now upd)
  with assms(1) obtain d where d: "body = Some d" by (cases body) (simp_all add: planned_def)
  consider "topic = ''agg.minute''" | "topic = ''late.events''" | "topic = ''alert.anomaly''" | "topic \<notin> {''agg.minute'', ''late.events'', ''alert.anomaly''}"
    by blast
  then show ?thesis
  proof cases
    case 1
    show ?thesis
    proof (cases d)
      case (PDict m)
      obtain e where "agg_row cfg upd m = Inl e"
        using assms(3) [of m now upd] PollMsg d PDict 1 by (cases "agg_row cfg upd m") auto
      then show ?thesis using assms(1) by (simp add: PollMsg d 1 PDict planned_def agg_commands_def)
    qed (use assms(1) in \<open>simp_all add: PollMsg d 1 planned_def\<close>)
  next
    case 2
    show ?thesis
    proof (cases d)
      case (PDict m)
      then have "late_commands cfg m = Inr (Some cs)"
        using assms(1) by (simp add: PollMsg d 2 planned_def split: sum.splits)
      then obtain key where "cs = [Incr key, Expire key (wc_ttl cfg), Incr ''late:total'']"
        by (fastforce simp: late_commands_def Let_def rbind_eq_Inr_iff split: if_splits)
      then show ?thesis using assms(2) by (simp add: commands_keep_zsets_def)
    qed (use assms(1) in \<open>simp_all add: PollMsg d 2 planned_def\<close>)
  next
    case 3
    then have "cs = alert_commands cfg d" using assms(1) by (simp add: PollMsg d planned_def)
    then show ?thesis using assms(2) by (simp add: alert_commands_def commands_keep_zsets_def)
  next
    case 4
    then show ?thesis using assms(1) by (simp add: PollMsg d planned_def)
  qed
qed (use assms(1) in \<open>simp_all add: planned_def\<close>)

lemma index_run:
  assumes r: "redis_ok r" "\<And>cs db. fst (rd_exec r cs db) = None" and ttl: "0 < wc_ttl cfg"
    and empty: "rd_view r (snd s) = rview_empty"
    and one: "single_valued (indexed cfg (agg_polls ps))"
    and kept: "list_all (\<lambda>(now, upd, d). now - wc_ttl cfg < lo) (agg_polls ps)"
  shows "index_ok lo (indexed cfg (agg_polls ps)) (rv_zset (rd_view r (snd (writer_run r cfg ps s))) ''agg:index'')"
  using one kept
proof (induction ps rule: rev_induct)
  case Nil
  then show ?case by (simp add: writer_run_def empty rview_empty_def index_ok_def indexed_def agg_polls_def)
next
  case (snoc p ps)
  let ?v = "rd_view r (snd (writer_run r cfg ps s))"
  have own: "owned ?v" using writer_run_matches [OF r ttl empty] by blast
  have IH: "index_ok lo (indexed cfg (agg_polls ps)) (rv_zset ?v ''agg:index'')"
    by (rule snoc.IH) (use snoc.prems in \<open>auto intro: single_valued_subset [rotated]\<close>)
  have view: "rd_view r (snd (writer_run r cfg (ps @ [p]) s)) =
      (case planned cfg p of None \<Rightarrow> ?v | Some cs \<Rightarrow> fold redis_apply cs ?v)"
    using writer_step_view [OF r own, of cfg p] by (simp add: writer_run_def)
  show ?case
  proof (cases "\<exists>k ep mem f now upd d. p = PollMsg ''agg.minute'' (Some (PDict d)) now upd \<and> agg_row cfg upd d = Inr (k, ep, mem, f)")
    case True
    then obtain k ep mem f now upd d where
      p: "p = PollMsg ''agg.minute'' (Some (PDict d)) now upd" and row: "agg_row cfg upd d = Inr (k, ep, mem, f)" by blast
    have I: "indexed cfg (agg_polls (ps @ [p])) = insert (k, ep) (indexed cfg (agg_polls ps))"
    proof -
      have "agg_polls [p] = [(now, upd, d)]" by (simp add: agg_polls_def p)
      then have "indexed cfg (agg_polls [p]) = {(k, ep)}" by (auto simp: indexed_def row)
      then show ?thesis by simp
    qed
    have z: "rv_zset (rd_view r (snd (writer_run r cfg (ps @ [p]) s))) ''agg:index'' =
        filter (\<lambda>(m, s). \<not> (0 \<le> s \<and> s \<le> now - wc_ttl cfg)) (AList.update k ep (rv_zset ?v ''agg:index''))"
      using ttl unfolding view by (simp add: p planned_def agg_commands_def row)
    have "now - wc_ttl cfg < lo" using snoc.prems(2) by (simp add: agg_polls_def p)
    then show ?thesis
      unfolding I z by (intro index_ok_add [OF IH]) (use snoc.prems(1) I in \<open>auto simp: single_valued_def\<close>)
  next
    case False
    have "indexed cfg (agg_polls [p]) = {}"
      using False by (auto simp: indexed_def agg_polls_def split: polled.splits option.splits pyval.splits if_splits)
    then have "indexed cfg (agg_polls (ps @ [p])) = indexed cfg (agg_polls ps)" by simp
    moreover have "rv_zset (fold redis_apply cs ?v) = rv_zset ?v" if "planned cfg p = Some cs" for cs
    proof (rule keep_zsets, rule planned_keeps_zsets [OF that ttl])
      fix d now upd x assume "p = PollMsg ''agg.minute'' (Some (PDict d)) now upd"
      with False show "agg_row cfg upd d \<noteq> Inr x" by (cases x) auto
    qed
    then have "rv_zset (rd_view r (snd (writer_run r cfg (ps @ [p]) s))) = rv_zset ?v"
      unfolding view by (simp split: option.splits)
    ultimately show ?thesis using IH by simp
  qed
qed

section \<open>Minutes of a range\<close>

definition minutes_in :: "int \<Rightarrow> int \<Rightarrow> int set" where
  "minutes_in t0 t1 = {t0 div 60 ..< t1 div 60}"

lemma finite_minutes [simp]: "finite (minutes_in t0 t1)"
  by (simp add: minutes_in_def)

lemma in_minutes:
  assumes "t0 mod 60 = 0" "t1 mod 60 = 0"
  shows "n \<in> minutes_in t0 t1 \<longleftrightarrow> t0 \<le> n * 60 \<and> n * 60 < t1"
    "e div 60000 \<in> minutes_in t0 t1 \<longleftrightarrow> t0 * 1000 \<le> e \<and> e < t1 * 1000"
proof -
  have t: "t0 = 60 * (t0 div 60)" "t1 = 60 * (t1 div 60)" using assms by (simp_all add: mod_0_imp_dvd)
  have e: "e = 60000 * (e div 60000) + e mod 60000" "0 \<le> e mod 60000" "e mod 60000 < 60000" by simp_all
  show "n \<in> minutes_in t0 t1 \<longleftrightarrow> t0 \<le> n * 60 \<and> n * 60 < t1"
    unfolding minutes_in_def atLeastLessThan_iff using t by linarith
  show "e div 60000 \<in> minutes_in t0 t1 \<longleftrightarrow> t0 * 1000 \<le> e \<and> e < t1 * 1000"
    unfolding minutes_in_def atLeastLessThan_iff using t e by linarith
qed

lemma count_by_key:
  "finite K \<Longrightarrow> int (length (filter (\<lambda>x. f x \<in> K) xs)) = (\<Sum>k\<in>K. int (length (filter (\<lambda>x. f x = k) xs)))"
  using sum_by_key [where h = "\<lambda>x. 1" and f = f and K = K and xs = xs] by (simp add: sum_list_triv)

section \<open>What the batch query returns\<close>

text \<open>The dictionary by campaign keeps the last row of each.\<close>

lemma fetch_lookup:
  assumes "c \<noteq> []"
  shows "map_of (fold (\<lambda>r acc. case br_cid r of None \<Rightarrow> acc | Some c \<Rightarrow> if c = [] then acc else AList.update c r acc) rs []) c =
    (case rev (filter (\<lambda>r. br_cid r = Some c) rs) of [] \<Rightarrow> None | r # _ \<Rightarrow> Some r)"
  using assms by (induction rs rule: rev_induct) (auto simp: update_conv' split: option.splits)

lemma fetch_raw:
  assumes "c \<noteq> []" "filter (\<lambda>r. br_cid r = Some c) (io_batch io rng t0 t1) = rs"
    and "rs = [] \<and> n = 0 \<or> (\<exists>r. rs = [r] \<and> br_raw r = Some n)"
  shows "batch_field br_raw (fetch_batch io rng t0 t1) c = n"
  using assms(3) by (auto simp: batch_field_def fetch_batch_def fetch_lookup [OF assms(1)] assms(2))

lemma filter_single: "distinct xs \<Longrightarrow> filter (\<lambda>x. x = y) xs = (if y \<in> set xs then [y] else [])"
  by (induction xs) auto

lemma raw_of_minutes:
  assumes "t0 mod 60 = 0" "t1 mod 60 = 0" "c \<noteq> []"
  shows "batch_field br_raw (fetch_batch (recon_reads v now days minutes st) True t0 t1) c =
    (\<Sum>p\<leftarrow>filter (\<lambda>p. fst p \<in> (\<lambda>m. (Some m, Some c)) ` minutes_in t0 t1) minutes. snd p ! 1)"
proof (rule fetch_raw [OF assms(3) refl])
  let ?rows = "filter (\<lambda>((m, c), v). \<exists>n. m = Some n \<and> t0 \<le> n * 60 \<and> n * 60 < t1) minutes"
  let ?of = "\<lambda>c. filter (\<lambda>r. snd (fst r) = c) ?rows" and ?cs = "remdups (map (\<lambda>r. snd (fst r)) ?rows)"
  let ?mk = "\<lambda>c. \<lparr>br_cid = c, br_imp = Some (\<Sum>r\<leftarrow>?of c. snd r ! 0), br_raw = Some (\<Sum>r\<leftarrow>?of c. snd r ! 1)\<rparr>"
  have "filter (\<lambda>r. br_cid r = Some c) (map ?mk ?cs) = map ?mk (filter (\<lambda>x. x = Some c) ?cs)"
    by (simp add: filter_map comp_def)
  also have "\<dots> = (if Some c \<in> set ?cs then [?mk (Some c)] else [])" by (simp add: filter_single)
  finally have rs: "filter (\<lambda>r. br_cid r = Some c) (io_batch (recon_reads v now days minutes st) True t0 t1) =
      (if Some c \<in> set ?cs then [?mk (Some c)] else [])"
    unfolding recon_reads_def minute_batch_def Let_def by simp
  have of_c: "?of (Some c) = filter (\<lambda>p. fst p \<in> (\<lambda>m. (Some m, Some c)) ` minutes_in t0 t1) minutes"
    unfolding filter_filter by (rule filter_cong [OF refl]) (auto simp: in_minutes(1) [OF assms(1,2)] image_iff split_beta)
  have none: "?of (Some c) = []" if "Some c \<notin> set ?cs"
    unfolding filter_empty_conv
  proof (intro ballI notI)
    fix r assume r: "r \<in> set ?rows" "snd (fst r) = Some c"
    show False by (rule that [THEN notE], unfold set_remdups set_map, rule image_eqI [of _ _ r, OF _ r(1)], rule r(2) [symmetric])
  qed
  show "filter (\<lambda>r. br_cid r = Some c) (io_batch (recon_reads v now days minutes st) True t0 t1) = [] \<and>
      (\<Sum>p\<leftarrow>filter (\<lambda>p. fst p \<in> (\<lambda>m. (Some m, Some c)) ` minutes_in t0 t1) minutes. snd p ! 1) = 0 \<or>
      (\<exists>r. filter (\<lambda>r. br_cid r = Some c) (io_batch (recon_reads v now days minutes st) True t0 t1) = [r] \<and>
        br_raw r = Some (\<Sum>p\<leftarrow>filter (\<lambda>p. fst p \<in> (\<lambda>m. (Some m, Some c)) ` minutes_in t0 t1) minutes. snd p ! 1))"
    unfolding rs of_c [symmetric] using none by (cases "Some c \<in> set ?cs") (simp_all only: if_True if_False, simp_all)
qed

lemma raw_of_day:
  assumes "spark_ok sp" "c \<notin> set NON_CAMPAIGN" "settlement_job sp ps rates parquet = Some (days, minutes)" "c \<noteq> []"
  shows "batch_field br_raw (fetch_batch (recon_reads v now days minutes st) False t0 t1) c =
    count_of is_impression day_key (Some (t0 div 86400), Some c) (dedup sp (raw_rows sp parquet))"
proof (rule fetch_raw [OF assms(4) refl])
  have days: "days = map (settle_row rates) (snd (daily_table sp ps (raw_rows sp parquet)))"
    using assms(3) by (simp add: settlement_job_def Let_def split: if_splits)
  have "filter (\<lambda>r. br_cid r = Some c) (io_batch (recon_reads v now days minutes st) False t0 t1) =
      map (\<lambda>r. \<lparr>br_cid = sd_cid r, br_imp = Some (sd_impressions r), br_raw = Some (sd_raw r)\<rparr>)
        (filter (\<lambda>r. sd_dt r = Some (t0 div 86400) \<and> sd_cid r = Some c) days)"
    by (simp add: recon_reads_def day_batch_def filter_map comp_def conj_commute)
  then show "filter (\<lambda>r. br_cid r = Some c) (io_batch (recon_reads v now days minutes st) False t0 t1) = [] \<and>
      count_of is_impression day_key (Some (t0 div 86400), Some c) (dedup sp (raw_rows sp parquet)) = 0 \<or>
    (\<exists>r. filter (\<lambda>r. br_cid r = Some c) (io_batch (recon_reads v now days minutes st) False t0 t1) = [r] \<and>
      br_raw r = Some (count_of is_impression day_key (Some (t0 div 86400), Some c) (dedup sp (raw_rows sp parquet))))"
    unfolding days daily_rows [OF assms(1,2)] by (simp split: if_splits)
qed

lemma recon_day: "recon_range env = Inr (t0, t1) \<Longrightarrow> \<not> ranged env \<Longrightarrow> minutes_in t0 t1 = day_minutes (t0 div 86400)"
  by (auto simp: recon_range_def ranged_def strptime_date_def minutes_in_def day_minutes_def Let_def
      split: option.splits if_splits prod.splits Option.bind_splits)

lemma settled_impressions:
  assumes "settlement_job sp ps rates (archive ks) = Some (days, minutes)" "spark_ok sp" "clean_records ks"
    and env: "recon_range env = Inr (t0, t1)" and c: "c \<noteq> []" "c \<notin> set NON_CAMPAIGN"
  shows "batch_field br_raw (fetch_batch (recon_reads v now days minutes st) (ranged env) t0 t1) c =
    (\<Sum>m\<in>minutes_in t0 t1. int (card (kr_event_id ` {k \<in> set ks. is_imp m c k})))"
proof (cases "ranged env")
  case True
  note range = conjunct1 [OF recon_range_minutes [OF env]] conjunct2 [OF recon_range_minutes [OF env]]
  have "minutes = map (\<lambda>(k, cs). (k, fill0 cs)) (snd (minute_table sp ps (raw_rows sp (archive ks))))"
    using assms(1) by (simp add: settlement_job_def Let_def split: if_splits)
  then show ?thesis
    using minutes_total_sum [OF assms(2) c(2), of 1 "minutes_in t0 t1" ps "raw_rows sp (archive ks)"]
    by (simp add: True raw_of_minutes [OF range c(1)] archived_impressions [OF assms(2,3)])
next
  case False
  then show ?thesis
    by (simp add: raw_of_day [OF assms(2) c(2) assms(1) c(1)] count_day_minutes recon_day [OF env False] archived_impressions [OF assms(2,3)])
qed

section \<open>What the late query returns\<close>

lemma late_of_minutes:
  assumes "t0 mod 60 = 0" "t1 mod 60 = 0"
  shows "dict_int (late_impressions (fl_dropped st) t0 t1) (Some c) =
    (\<Sum>m\<in>minutes_in t0 t1. dropped_count ''impression'' (m * 60000, c) st)"
proof -
  let ?all = "map snd (fl_dropped st)"
  let ?es = "filter (\<lambda>e. ev_kind e = ''impression'' \<and> t0 * 1000 \<le> ev_time e \<and> ev_time e < t1 * 1000) ?all"
  let ?imps = "filter (\<lambda>e. ev_kind e = ''impression'' \<and> ev_cid e = c) ?all"
  have "map_of (map (\<lambda>c. (Some c, n c)) cs) (Some c) = (if c \<in> set cs then Some (n c) else None)" for n :: "string \<Rightarrow> int" and cs
    by (induction cs) auto
  then have "dict_int (late_impressions (fl_dropped st) t0 t1) (Some c) = int (length (filter (\<lambda>e. ev_cid e = c) ?es))"
    by (auto simp: late_impressions_def Let_def dict_int_def filter_empty_conv)
  also have "filter (\<lambda>e. ev_cid e = c) ?es = filter (\<lambda>e. ev_time e div 60000 \<in> minutes_in t0 t1) ?imps"
    unfolding filter_filter by (rule filter_cong [OF refl]) (auto simp: in_minutes(2) [OF assms])
  also have "int (length (filter (\<lambda>e. ev_time e div 60000 \<in> minutes_in t0 t1) ?imps)) =
      (\<Sum>m\<in>minutes_in t0 t1. int (length (filter (\<lambda>e. ev_time e div 60000 = m) ?imps)))"
    by (rule count_by_key) simp
  also have "\<dots> = (\<Sum>m\<in>minutes_in t0 t1. dropped_count ''impression'' (m * 60000, c) st)"
  proof (rule sum.cong [OF refl])
    fix m
    have "filter (\<lambda>e. ev_time e div 60000 = m) ?imps =
        filter (\<lambda>e. ev_kind e = ''impression'') (filter (\<lambda>e. window_of e = (m * 60000, c)) ?all)"
      unfolding filter_filter by (rule filter_cong [OF refl]) (auto simp: window_of_def)
    then show "int (length (filter (\<lambda>e. ev_time e div 60000 = m) ?imps)) = dropped_count ''impression'' (m * 60000, c) st"
      by (simp add: dropped_count_def count_kind_def)
  qed
  finally show ?thesis .
qed

section \<open>What the writer keeps of the minutes\<close>

definition minute_row_key :: "minute_agg \<Rightarrow> string" where
  "minute_row_key a = ''agg:1m:'' @ mg_cid a @ '':'' @ strftime_minute (mg_start a div 1000)"

definition dated :: "minute_agg \<Rightarrow> bool" where
  "dated a \<longleftrightarrow> mg_cid a \<noteq> [] \<and> mg_start a mod 60000 = 0 \<and>
     1000 \<le> utc_year (mg_start a div 1000) \<and> utc_year (mg_start a div 1000) \<le> 9999"

definition polled_all :: "minute_agg list \<Rightarrow> polled list \<Rightarrow> bool" where
  \<comment> \<open>the writer polls each minute sent, at least once, and no other aggregate\<close>
  "polled_all aggs ps \<longleftrightarrow>
     (\<forall>a \<in> set aggs. \<exists>now upd meta sent. (now, upd, agg_message meta sent a) \<in> set (agg_polls ps)) \<and>
     (\<forall>(now, upd, d) \<in> set (agg_polls ps). \<exists>a \<in> set aggs. \<exists>meta sent. d = agg_message meta sent a)"

lemma encode_fields_total: "list_all (\<lambda>(f, v). \<exists>z. redis_encode cfg v = Inr z) m \<Longrightarrow> \<exists>h. encode_fields cfg m = Inr h"
  by (induction m) auto

lemma message_row:
  assumes "dated a"
  obtains h where "agg_row cfg upd (agg_message meta sent a) = Inr (minute_row_key a, mg_start a div 1000, mg_cid a, h)"
    "hash_cid h = Some (mg_cid a)" "num_field h ''impressions'' = Inr (mg_impressions a)"
proof -
  let ?d = "agg_message meta sent a" and ?start = "mg_start a div 1000"
  have key: "writer_minute_key (iso_render ?start) = Inr (strftime_minute ?start, ?start)"
    using assms by (intro writer_minute_key_render) (simp_all add: dated_def)
  have get: "dget ?d ''window_start'' = PStr (iso_render ?start)" "dget ?d ''campaign_id'' = PStr (mg_cid a)"
    "dget ?d ''window_end'' = PStr (iso_render (window_end (mg_start a) div 1000))"
    "dget ?d ''impressions'' = PInt (mg_impressions a)" "dget ?d ''clicks'' = PInt (mg_clicks a)"
    "dget ?d ''completes'' = PInt (mg_completes a)" "dget ?d ''requests'' = PInt (mg_requests a)"
    "dget ?d ''ssai_dupes'' = PInt (mg_ssai a)"
    "dget ?d ''advertiser'' = (case meta a of None \<Rightarrow> PNone | Some (x, y) \<Rightarrow> PStr x)"
    "dget ?d ''campaign_name'' = (case meta a of None \<Rightarrow> PNone | Some (x, y) \<Rightarrow> PStr y)"
    "dget ?d ''imp_req_ratio'' = (case imp_req_ratio a of None \<Rightarrow> PNone | Some x \<Rightarrow> PFloat x)"
    by (simp_all add: agg_message_def dget_def)
  have sub: "dsub ?d ''window_start'' = Inr (PStr (iso_render ?start))" "dsub ?d ''campaign_id'' = Inr (PStr (mg_cid a))"
    "dsub ?d ''window_end'' = Inr (PStr (iso_render (window_end (mg_start a) div 1000)))"
    by (simp_all add: agg_message_def dsub_def)
  have "\<exists>h. encode_fields cfg (agg_fields ?d (PStr (mg_cid a)) (PStr (iso_render ?start))
      (PStr (iso_render (window_end (mg_start a) div 1000))) upd) = Inr h"
    by (rule encode_fields_total, cases "meta a"; cases "imp_req_ratio a")
      (auto simp: agg_fields_def get py_or_def redis_encode_def)
  then obtain h where "encode_fields cfg (agg_fields ?d (PStr (mg_cid a)) (PStr (iso_render ?start))
      (PStr (iso_render (window_end (mg_start a) div 1000))) upd) = Inr h" ..
  then have row: "agg_row cfg upd ?d = Inr (minute_row_key a, ?start, mg_cid a, h)"
    by (simp add: agg_row_def sub minute_key_of_def key agg_key_def minute_row_key_def py_str_def redis_encode_def)
  show ?thesis
    by (rule that [OF row agg_row_cid [OF row get(2)] agg_row_value [OF row]]) (use assms in \<open>simp_all add: dated_def SUM_FIELDS_def get\<close>)
qed

lemma strftime_minute_length: "1000 \<le> utc_year s \<Longrightarrow> utc_year s \<le> 9999 \<Longrightarrow> length (strftime_minute s) = 12"
  by (auto simp: strftime_minute_def utc_year_def dec_nat_pad4 pad4_def pad2_def split: prod.splits)

lemma minute_row_key_inj:
  assumes "dated a" "dated b" "minute_row_key a = minute_row_key b"
  shows "mg_window a = mg_window b"
proof -
  let ?t = "\<lambda>a. strftime_minute (mg_start a div 1000)"
  have "length (?t a) = length (?t b)"
    using assms by (simp add: dated_def strftime_minute_length)
  then have "mg_cid a = mg_cid b" "?t a = ?t b"
    using assms(3) by (simp_all add: minute_row_key_def)
  moreover from this(2) have "mg_start a div 1000 div 60 = mg_start b div 1000 div 60"
    using assms by (intro strftime_minute_inj) (simp_all add: dated_def)
  then have "mg_start a = mg_start b"
    using assms by (simp add: dated_def zdiv_zmult2_eq [symmetric]) (metis mult_div_mod_eq add.right_neutral)
  ultimately show ?thesis by (simp add: mg_window_def)
qed

lemma agg_rows_polls:
  "(k, h) \<in> set (agg_rows (map (effect_of cfg) ps)) \<longleftrightarrow>
    (\<exists>now upd d ep mem. (now, upd, d) \<in> set (agg_polls ps) \<and> agg_row cfg upd d = Inr (k, ep, mem, h))"
proof -
  have eff: "effect_of cfg p = EAgg k h \<longleftrightarrow>
      (\<exists>now upd d ep mem. p = PollMsg ''agg.minute'' (Some (PDict d)) now upd \<and> agg_row cfg upd d = Inr (k, ep, mem, h))" for p
  proof (cases "\<exists>m now upd. p = PollMsg ''agg.minute'' (Some (PDict m)) now upd")
    case True
    then obtain m now upd where "p = PollMsg ''agg.minute'' (Some (PDict m)) now upd" by blast
    then show ?thesis by (auto simp: effect_of_def split: sum.splits)
  next
    case False
    have "effect_of cfg p \<noteq> EAgg k h"
    proof (cases p)
      case (PollMsg topic body now upd)
      then show ?thesis
        using False by (cases "topic = ''agg.minute''"; cases body) (simp_all add: effect_of_def split: pyval.splits sum.splits)
    qed (simp_all add: effect_of_def)
    with False show ?thesis by blast
  qed
  have mem: "(k, h) \<in> set (agg_rows (map (effect_of cfg) ps)) \<longleftrightarrow> (\<exists>p \<in> set ps. effect_of cfg p = EAgg k h)"
  proof -
    have "(k, h) \<in> set (case x of EAgg k f \<Rightarrow> [(k, f)] | _ \<Rightarrow> []) \<longleftrightarrow> x = EAgg k h" for x by (cases x) auto
    then show ?thesis by (simp add: agg_rows_def)
  qed
  show ?thesis unfolding mem eff set_agg_polls by blast
qed

lemma last_row_of_minute:
  assumes r: "redis_ok r" "\<And>cs db. fst (rd_exec r cs db) = None" and ttl: "0 < wc_ttl cfg"
    and empty: "rd_view r (snd s) = rview_empty"
    and pub: "polled_all aggs ps" and dt: "list_all dated aggs" and one: "distinct (map mg_window aggs)" and a: "a \<in> set aggs"
  shows "hash_cid (rv_hash (rd_view r (snd (writer_run r cfg ps s))) (minute_row_key a)) = Some (mg_cid a)"
    "field_value (rv_hash (rd_view r (snd (writer_run r cfg ps s))) (minute_row_key a)) ''impressions'' = mg_impressions a"
proof -
  let ?rows = "agg_rows (map (effect_of cfg) ps)" and ?k = "minute_row_key a"
  let ?h = "rv_hash (rd_view r (snd (writer_run r cfg ps s))) ?k"
  have da: "dated a" using dt a by (simp add: list_all_iff)
  obtain now upd meta sent where "(now, upd, agg_message meta sent a) \<in> set (agg_polls ps)"
    using pub a unfolding polled_all_def by blast
  moreover obtain h0 where "agg_row cfg upd (agg_message meta sent a) = Inr (?k, mg_start a div 1000, mg_cid a, h0)"
    using message_row [OF da] by blast
  ultimately have "(?k, h0) \<in> set ?rows" unfolding agg_rows_polls by blast
  then obtain h where h: "map_of (rev ?rows) ?k = Some h"
    by (cases "map_of (rev ?rows) ?k") (force simp: map_of_eq_None_iff)+
  have "?h = h"
    using writer_run_matches [OF r ttl empty, of ps] h by (simp add: store_matches_def minute_row_key_def)
  moreover have "(?k, h) \<in> set ?rows" using map_of_SomeD [OF h] by simp
  then obtain now' upd' d ep mem where p: "(now', upd', d) \<in> set (agg_polls ps)" "agg_row cfg upd' d = Inr (?k, ep, mem, h)"
    unfolding agg_rows_polls by blast
  from p(1) pub obtain b meta' sent' where b: "b \<in> set aggs" "d = agg_message meta' sent' b"
    unfolding polled_all_def by blast
  have db: "dated b" using dt b by (simp add: list_all_iff)
  obtain h' where h': "agg_row cfg upd' d = Inr (minute_row_key b, mg_start b div 1000, mg_cid b, h')"
    "hash_cid h' = Some (mg_cid b)" "num_field h' ''impressions'' = Inr (mg_impressions b)"
    unfolding b(2) by (rule message_row [OF db])
  have "mg_window b = mg_window a" using p(2) h'(1) minute_row_key_inj [OF db da] by simp
  then have "b = a" using one a b(1) by (simp add: distinct_map inj_on_def)
  with p(2) h' have "hash_cid h = Some (mg_cid a)" "field_value h ''impressions'' = mg_impressions a"
    by (simp_all add: field_value_def)
  ultimately show "hash_cid ?h = Some (mg_cid a)" "field_value ?h ''impressions'' = mg_impressions a" by simp_all
qed

lemma indexed_minutes:
  assumes "polled_all aggs ps" "list_all dated aggs"
  shows "indexed cfg (agg_polls ps) = (\<lambda>a. (minute_row_key a, mg_start a div 1000)) ` set aggs"
proof (intro equalityI subsetI)
  fix x assume "x \<in> indexed cfg (agg_polls ps)"
  then obtain now upd d mem f where x: "(now, upd, d) \<in> set (agg_polls ps)" "agg_row cfg upd d = Inr (fst x, snd x, mem, f)"
    unfolding indexed_def by auto
  with assms(1) obtain a meta sent where a: "a \<in> set aggs" "d = agg_message meta sent a" unfolding polled_all_def by blast
  obtain h where "agg_row cfg upd d = Inr (minute_row_key a, mg_start a div 1000, mg_cid a, h)"
    unfolding a(2) by (rule message_row [of a]) (use assms(2) a(1) in \<open>auto simp: list_all_iff\<close>)
  with x(2) have "x = (minute_row_key a, mg_start a div 1000)" by (simp add: prod_eq_iff)
  with a(1) show "x \<in> (\<lambda>a. (minute_row_key a, mg_start a div 1000)) ` set aggs" by blast
next
  fix x assume "x \<in> (\<lambda>a. (minute_row_key a, mg_start a div 1000)) ` set aggs"
  then obtain a where a: "a \<in> set aggs" "x = (minute_row_key a, mg_start a div 1000)" by blast
  with assms(1) obtain now upd meta sent where p: "(now, upd, agg_message meta sent a) \<in> set (agg_polls ps)"
    unfolding polled_all_def by blast
  obtain h where "agg_row cfg upd (agg_message meta sent a) = Inr (minute_row_key a, mg_start a div 1000, mg_cid a, h)"
    by (rule message_row [of a]) (use assms(2) a(1) in \<open>auto simp: list_all_iff\<close>)
  with p show "x \<in> indexed cfg (agg_polls ps)" unfolding indexed_def a(2) by blast
qed

lemma minute_of_start:
  assumes "dated a"
  shows "mg_window a = (m * 60000, c) \<longleftrightarrow> mg_start a div 1000 div 60 = m \<and> mg_cid a = c"
proof -
  have "mg_start a = 60000 * (mg_start a div 60000)" using assms by (simp add: dated_def mod_0_imp_dvd)
  then show ?thesis by (auto simp: mg_window_def zdiv_zmult2_eq [symmetric])
qed

lemma realtime_of_minutes:
  assumes r: "redis_ok r" "\<And>cs db. fst (rd_exec r cs db) = None" and ttl: "0 < wc_ttl cfg"
    and empty: "rd_view r (snd s) = rview_empty"
    and pub: "polled_all aggs ps" and dt: "list_all dated aggs" and one: "distinct (map mg_window aggs)"
    and kept: "list_all (\<lambda>(now, upd, d). now - wc_ttl cfg < t0) (agg_polls ps)"
    and range: "t0 mod 60 = 0" "t1 mod 60 = 0"
    and sum: "sum_range (rd_view r (snd (writer_run r cfg ps s))) t0 (t1 - 1) = Inr out"
  shows "tally_of out c ''impressions'' =
    (\<Sum>m\<in>minutes_in t0 t1. \<Sum>a\<leftarrow>filter (\<lambda>a. mg_window a = (m * 60000, c)) aggs. mg_impressions a)"
proof -
  let ?v = "rd_view r (snd (writer_run r cfg ps s))" and ?entry = "\<lambda>a. (minute_row_key a, mg_start a div 1000)"
  let ?z = "filter (\<lambda>(k, s). t0 \<le> s \<and> s \<le> t1 - 1) (rv_zset ?v ''agg:index'')"
  define here where "here = filter (\<lambda>a. t0 \<le> mg_start a div 1000 \<and> mg_start a div 1000 \<le> t1 - 1) aggs"
  have dated: "dated a" if "a \<in> set aggs" for a using dt that by (simp add: list_all_iff)
  have inj: "a = b" if "a \<in> set aggs" "b \<in> set aggs" "minute_row_key a = minute_row_key b" for a b
  proof -
    have "mg_window a = mg_window b" by (rule minute_row_key_inj [OF dated [OF that(1)] dated [OF that(2)] that(3)])
    then show ?thesis using one that(1,2) by (simp add: distinct_map inj_on_def)
  qed
  note I = indexed_minutes [OF pub dt, of cfg]
  have "single_valued (indexed cfg (agg_polls ps))"
    unfolding I single_valued_def using inj by blast
  from index_run [OF r ttl empty this kept]
  have idx: "distinct (map fst (rv_zset ?v ''agg:index''))"
      "\<And>k s. t0 \<le> s \<Longrightarrow> (k, s) \<in> set (rv_zset ?v ''agg:index'') \<longleftrightarrow> (k, s) \<in> ?entry ` set aggs"
    unfolding index_ok_def I by blast+
  have "distinct ?z" using idx(1) by (simp add: distinct_map)
  moreover have "distinct (map ?entry here)"
    using one inj by (auto simp: here_def distinct_map inj_on_def)
  moreover have "set ?z = set (map ?entry here)"
    using idx(2) by (auto simp: here_def)
  ultimately have "mset ?z = mset (map ?entry here)" by (simp only: set_eq_iff_mset_eq_distinct)
  then have hs: "mset (range_hashes ?v t0 (t1 - 1)) = mset (map (\<lambda>a. rv_hash ?v (minute_row_key a)) here)"
    by (simp add: range_hashes_def zrangebyscore_def) (simp only: mset_map [symmetric] map_map comp_def prod.case)
  have "tally_of out c ''impressions'' =
      (\<Sum>h\<leftarrow>filter (\<lambda>h. hash_cid h = Some c) (map (\<lambda>a. rv_hash ?v (minute_row_key a)) here). field_value h ''impressions'')"
    using sum_range_counts [OF sum, of "''impressions''" c] sum_list_mset_eq [OF hs]
    by (simp add: SUM_FIELDS_def)
  also have "\<dots> = (\<Sum>a\<leftarrow>filter (\<lambda>a. mg_cid a = c) here. mg_impressions a)" (is "?L = _")
  proof -
    note row = last_row_of_minute [OF r ttl empty pub dt one]
    have "filter (\<lambda>a. hash_cid (rv_hash ?v (minute_row_key a)) = Some c) here = filter (\<lambda>a. mg_cid a = c) here"
      by (rule filter_cong [OF refl]) (simp add: here_def row(1))
    then have "?L = sum_list (map (\<lambda>a. field_value (rv_hash ?v (minute_row_key a)) ''impressions'') (filter (\<lambda>a. mg_cid a = c) here))"
      by (simp add: filter_map comp_def)
    also have "map (\<lambda>a. field_value (rv_hash ?v (minute_row_key a)) ''impressions'') (filter (\<lambda>a. mg_cid a = c) here)
        = map mg_impressions (filter (\<lambda>a. mg_cid a = c) here)"
      by (rule map_cong [OF refl]) (simp add: here_def row(2))
    finally show ?thesis .
  qed
  also have "filter (\<lambda>a. mg_cid a = c) here =
      filter (\<lambda>a. mg_window a \<in> (\<lambda>m. (m * 60000, c)) ` minutes_in t0 t1) aggs"
    unfolding here_def filter_filter
  proof (rule filter_cong [OF refl])
    fix a assume a: "a \<in> set aggs"
    have "mg_start a div 1000 div 60 \<in> minutes_in t0 t1 \<longleftrightarrow> t0 \<le> mg_start a div 1000 \<and> mg_start a div 1000 \<le> t1 - 1"
      using dated [OF a] in_minutes(2) [OF range, of "mg_start a"] by (simp add: dated_def zdiv_zmult2_eq [symmetric]) linarith
    moreover have "mg_window a \<in> (\<lambda>m. (m * 60000, c)) ` minutes_in t0 t1 \<longleftrightarrow>
        mg_start a div 1000 div 60 \<in> minutes_in t0 t1 \<and> mg_cid a = c"
      unfolding image_iff minute_of_start [OF dated [OF a]] by blast
    ultimately show "(t0 \<le> mg_start a div 1000 \<and> mg_start a div 1000 \<le> t1 - 1) \<and> mg_cid a = c \<longleftrightarrow>
        mg_window a \<in> (\<lambda>m. (m * 60000, c)) ` minutes_in t0 t1" by blast
  qed
  also have "(\<Sum>a\<leftarrow>\<dots>. mg_impressions a) =
      (\<Sum>w\<in>(\<lambda>m. (m * 60000, c)) ` minutes_in t0 t1. \<Sum>a\<leftarrow>filter (\<lambda>a. mg_window a = w) aggs. mg_impressions a)"
    by (rule sum_by_key) simp
  also have "\<dots> = (\<Sum>m\<in>minutes_in t0 t1. \<Sum>a\<leftarrow>filter (\<lambda>a. mg_window a = (m * 60000, c)) aggs. mg_impressions a)"
    by (rule sum.reindex_cong [of "\<lambda>m. (m * 60000, c)"]) (auto simp: inj_on_def)
  finally show ?thesis .
qed

section \<open>The two sides together\<close>

definition named_and_dated :: "kafka_record \<Rightarrow> bool" where
  "named_and_dated k \<longleftrightarrow> kr_cid k \<noteq> Some [] \<and> 1000 \<le> utc_year (kr_time k div 1000) \<and> utc_year (kr_time k div 1000) \<le> 9999"

lemma dated_minutes:
  assumes "prompt ins" "list_all named_and_dated (records ins)"
  shows "list_all dated (fl_aggs (flink_run ins))"
  unfolding list_all_iff
proof
  fix a assume "a \<in> set (fl_aggs (flink_run ins))"
  then have "mg_window a \<in> window_of ` set (deduped ins (\<lambda>i. None))" using flink_windows [of ins] by auto
  then obtain e where e: "e \<in> set (deduped ins (\<lambda>i. None))" "mg_window a = window_of e" by blast
  with deduped_prompt(2) [OF assms(1)] obtain k now where k: "Arrive now k \<in> set ins" "all_events k = Some e"
    by (force simp: events_in_def)
  then have "named_and_dated k" using assms(2) by (auto simp: list_all_iff set_records)
  moreover have "kr_cid k = Some (ev_cid e)" "kr_time k = ev_time e"
    using k(2) by (auto simp: all_events_def Let_def split: option.splits if_splits)
  moreover have "ev_time e div 60000 * 60000 div 1000 div 86400 = ev_time e div 1000 div 86400"
    by (simp add: zdiv_zmult2_eq [symmetric])
  then have "utc_year (ev_time e div 60000 * 60000 div 1000) = utc_year (ev_time e div 1000)"
    by (simp only: utc_year_def utc_date_def)
  ultimately show "dated a" using e(2) by (simp add: named_and_dated_def dated_def mg_window_def window_of_def)
qed

definition distinct_impressions :: "kafka_record list \<Rightarrow> int \<Rightarrow> int \<Rightarrow> string \<Rightarrow> int" where
  \<comment> \<open>how many impressions of a campaign happened in the range, whatever became of them\<close>
  "distinct_impressions ks t0 t1 c = int (card (kr_event_id ` {k \<in> set ks. kr_topic k = ''ad.impression'' \<and>
     kr_cid k = Some c \<and> t0 * 1000 \<le> kr_time k \<and> kr_time k < t1 * 1000}))"

lemma impressed_campaign: "0 < distinct_impressions ks t0 t1 c \<Longrightarrow> \<exists>k \<in> set ks. kr_cid k = Some c"
proof (rule ccontr)
  assume "0 < distinct_impressions ks t0 t1 c" and "\<not> (\<exists>k \<in> set ks. kr_cid k = Some c)"
  then have "{k \<in> set ks. kr_topic k = ''ad.impression'' \<and> kr_cid k = Some c \<and> t0 * 1000 \<le> kr_time k \<and> kr_time k < t1 * 1000} = {}"
    by blast
  with \<open>0 < distinct_impressions ks t0 t1 c\<close> show False by (simp only: distinct_impressions_def) simp
qed

lemma impressions_by_minute:
  assumes "clean_records ks" "t0 mod 60 = 0" "t1 mod 60 = 0"
  shows "distinct_impressions ks t0 t1 c = (\<Sum>m\<in>minutes_in t0 t1. int (card (kr_event_id ` {k \<in> set ks. is_imp m c k})))"
proof -
  let ?ids = "\<lambda>m. kr_event_id ` {k \<in> set ks. is_imp m c k}"
  have "m = n" if "i \<in> ?ids m" "i \<in> ?ids n" for i m n
  proof -
    from that obtain k k' where "k \<in> set ks" "k' \<in> set ks" "is_imp m c k" "is_imp n c k'" "kr_event_id k = kr_event_id k'"
      by auto
    then show ?thesis using assms(1) unfolding clean_records_def alike_def is_imp_def by metis
  qed
  then have disjoint: "\<forall>m\<in>minutes_in t0 t1. \<forall>n\<in>minutes_in t0 t1. m \<noteq> n \<longrightarrow> ?ids m \<inter> ?ids n = {}" by blast
  have "{k \<in> set ks. kr_topic k = ''ad.impression'' \<and> kr_cid k = Some c \<and> t0 * 1000 \<le> kr_time k \<and> kr_time k < t1 * 1000}
      = (\<Union>m\<in>minutes_in t0 t1. {k \<in> set ks. is_imp m c k})"
    by (auto simp: is_imp_def in_minutes(2) [OF assms(2,3)])
  then have "distinct_impressions ks t0 t1 c = int (card (\<Union>m\<in>minutes_in t0 t1. ?ids m))"
    by (simp add: distinct_impressions_def image_UN)
  also have "card (\<Union>m\<in>minutes_in t0 t1. ?ids m) = (\<Sum>m\<in>minutes_in t0 t1. card (?ids m))"
    by (rule card_UN_disjoint) (use disjoint in simp_all)
  finally show ?thesis by simp
qed

text \<open>What the realtime side shows and what it reports late make up the impressions of a minute it has closed.\<close>

lemma minute_counted_or_dropped:
  assumes "prompt ins" "clean_records (records ins)" "fl_mark (flink_run ins) = Some w" "(m + 1) * 60000 - 1 \<le> w"
  shows "realtime_count ''impression'' (m * 60000, c) (flink_run ins) + dropped_count ''impression'' (m * 60000, c) (flink_run ins)
    = int (card (kr_event_id ` {k \<in> set (records ins). is_imp m c k}))"
proof -
  note a = flink_accounts [of ins]
  have "fired (fl_mark (flink_run ins)) (m * 60000)" using assms(3,4) by (simp add: fired_def window_end_def)
  then have "open_count ''impression'' (m * 60000, c) (flink_run ins) = 0"
    using open_window_counts [OF a, of "(m * 60000, c)"] by (auto split: if_splits)
  then show ?thesis
    using accounts_parts(5) [OF a, of "''impression''" "(m * 60000, c)"] streamed_impressions [OF assms(1,2), of m c]
    by (simp add: COUNTED_def dropped_count_late [OF assms(1)])
qed

lemma summary_read:
  assumes "recon_range env = Inr (t0, t1)" "summary_impressions v now t0 t1 = Some rts"
  obtains out where "sum_range v t0 (t1 - 1) = Inr out" "\<And>c. dict_int rts c = tally_of out c ''impressions''"
    "fst ` set rts = fst ` set out"
proof -
  obtain out where out: "sum_range v t0 (t1 - 1) = Inr out" "rts = map (\<lambda>(c, t). (c, sm_count t ''impressions'')) out"
    using assms(2) by (auto simp: summary_impressions_def agg_summary_def realtime_range_is_batch_range [OF assms(1)] rbind_eq_Inr_iff
        split: sum.splits)
  have "dict_int rts c = tally_of out c ''impressions''" for c
    unfolding out(2) dict_int_def tally_of_def map_of_map by (simp split: option.splits)
  moreover have "fst ` set rts = fst ` set out" unfolding out(2) by (force simp: image_iff)
  ultimately show thesis using that [OF out(1)] by blast
qed

lemma sum_hashes_named: "sum_hashes hs out = Inr out' \<Longrightarrow> [] \<notin> fst ` set out \<Longrightarrow> [] \<notin> fst ` set out'"
proof (induction hs arbitrary: out)
  case (Cons h hs)
  then obtain out1 where o: "sum_hash h out = Inr out1" "sum_hashes hs out1 = Inr out'" by (auto simp: rbind_eq_Inr_iff)
  have "out1 = out \<or> (\<exists>c x. c \<noteq> [] \<and> out1 = AList.update c x out)"
  proof (cases "hash_cid h")
    case (Some c)
    then have "c \<noteq> []" by (auto simp: hash_cid_def split: option.splits if_splits)
    with o(1) Some show ?thesis by (auto simp: sum_hash_def Let_def rbind_eq_Inr_iff)
  qed (use o(1) in \<open>simp add: sum_hash_def\<close>)
  then have "[] \<notin> fst ` set out1" using Cons.prems(2)
    by (elim disjE exE conjE) (simp_all add: dom_update)
  from Cons.IH [OF o(2) this] show ?case .
qed simp

lemma batch_named: "[] \<notin> fst ` set (fetch_batch io rng t0 t1)"
proof -
  have step: "[] \<notin> fst ` set acc \<Longrightarrow> [] \<notin> fst ` set (fold (\<lambda>r acc. case br_cid r of None \<Rightarrow> acc
      | Some c \<Rightarrow> if c = [] then acc else AList.update c r acc) rs acc)" for rs acc
    by (induction rs arbitrary: acc) (simp_all add: dom_update split: option.splits)
  show ?thesis unfolding fetch_batch_def by (rule step) simp
qed

fun explained :: "cause \<Rightarrow> bool" where
  \<comment> \<open>no residual is named\<close>
  "explained (Parts ps) \<longleftrightarrow> list_all (\<lambda>p. case p of LatePart n \<Rightarrow> True | SsaiPart n \<Rightarrow> True | _ \<Rightarrow> False) ps"
| "explained c \<longleftrightarrow> True"

lemma classify_explained: "explained (classify ssai late 0 rt bt)"
  by (simp add: classify_def Let_def)

lemma realtime_plus_late:
  assumes stream: "prompt ins" "clean_records (records ins)" "list_all named_and_dated (records ins)"
      "fl_mark (flink_run ins) = Some w" "t1 * 1000 - 1 \<le> w"
    and writer: "redis_ok r" "\<And>cs db. fst (rd_exec r cs db) = None" "0 < wc_ttl cfg" "rd_view r (snd s) = rview_empty"
      "polled_all (fl_aggs (flink_run ins)) ps" "list_all (\<lambda>(now, upd, d). now - wc_ttl cfg < t0) (agg_polls ps)"
    and range: "t0 mod 60 = 0" "t1 mod 60 = 0"
    and out: "sum_range (rd_view r (snd (writer_run r cfg ps s))) t0 (t1 - 1) = Inr out"
    and ks: "clean_records ks" "set ks = set (records ins)"
  shows "tally_of out c ''impressions'' + dict_int (late_impressions (fl_dropped (flink_run ins)) t0 t1) (Some c)
    = distinct_impressions ks t0 t1 c"
proof -
  let ?st = "flink_run ins"
  have "tally_of out c ''impressions'' = (\<Sum>m\<in>minutes_in t0 t1. realtime_count ''impression'' (m * 60000, c) ?st)"
    using realtime_of_minutes [OF writer(1-5) dated_minutes [OF stream(1,3)] accounts_parts(2) [OF flink_accounts] writer(6) range out]
    by (simp add: realtime_count_def mg_count_def)
  then have "tally_of out c ''impressions'' + dict_int (late_impressions (fl_dropped ?st) t0 t1) (Some c) = (\<Sum>m\<in>minutes_in t0 t1.
      realtime_count ''impression'' (m * 60000, c) ?st + dropped_count ''impression'' (m * 60000, c) ?st)"
    by (simp add: late_of_minutes [OF range] sum.distrib)
  also have "\<dots> = (\<Sum>m\<in>minutes_in t0 t1. int (card (kr_event_id ` {k \<in> set ks. is_imp m c k})))"
  proof (rule sum.cong [OF refl])
    fix m assume "m \<in> minutes_in t0 t1"
    then have "(m + 1) * 60 \<le> t1" using range(2) by (auto simp: minutes_in_def)
    then have "(m + 1) * 60000 - 1 \<le> w" using stream(5) by simp
    from minute_counted_or_dropped [OF stream(1,2,4) this]
    show "realtime_count ''impression'' (m * 60000, c) ?st + dropped_count ''impression'' (m * 60000, c) ?st
        = int (card (kr_event_id ` {k \<in> set ks. is_imp m c k}))" unfolding ks(2) .
  qed
  finally show ?thesis by (simp only: impressions_by_minute [OF ks(1) range])
qed

section \<open>Properties\<close>

definition demo_imp :: "string \<Rightarrow> int \<Rightarrow> kafka_record" where
  "demo_imp i t = \<lparr>kr_topic = ''ad.impression'', kr_event_id = Some i, kr_type = Some ''impression'', kr_cid = Some ''c1'',
     kr_arid = Some (''r'' @ i), kr_source = Some ''player_sdk'', kr_quartile = None, kr_twin_of = None, kr_fill = None,
     kr_late = None, kr_time = t\<rparr>"

text \<open>Why copies have to come within the hour: a later one is a new event to the realtime job.\<close>

lemma forgotten_copy_counted_again:
  "realtime_count ''impression'' (0, ''c1'')
    (flink_run [Arrive 0 (demo_imp ''1'' 5000), Arrive STATE_TTL (demo_imp ''1'' 5000), Watermark 60000]) = 2"
  by code_simp

definition demo_stream :: "flink_input list" where
  \<comment> \<open>an impression, a copy of it, the end of its minute, and an impression that is late\<close>
  "demo_stream = [Arrive 0 (demo_imp ''1'' 1789948805000), Arrive 1 (demo_imp ''1'' 1789948805000), Watermark 1789948859999,
     Arrive 2 (demo_imp ''2'' 1789948807000)]"

definition demo_minute_env :: recon_env where
  "demo_minute_env = demo_env\<lparr>re_from := Some ''2026-09-21T00:00:00+00:00'', re_to := Some ''2026-09-21T00:01:00+00:00''\<rparr>"

definition demo_minute :: minute_agg where
  "demo_minute = \<lparr>mg_start = 1789948800000, mg_cid = ''c1'', mg_impressions = 1, mg_clicks = 0, mg_completes = 0,
     mg_requests = 0, mg_ssai = 0\<rparr>"

definition demo_minute_polls :: "polled list" where
  "demo_minute_polls = [PollMsg ''agg.minute'' (Some (PDict (agg_message (\<lambda>a. None) (\<lambda>a. []) demo_minute))) 1789948870 []]"

lemma demo_flink:
  "fl_aggs (flink_run demo_stream) = [demo_minute]" "fl_mark (flink_run demo_stream) = Some 1789948859999"
  by code_simp+

lemma demo_minute_range: "recon_range demo_minute_env = Inr (1789948800, 1789948860)"
  by code_simp

lemma demo_minute_summary:
  "summary_impressions (rd_view view_redis (snd (writer_run view_redis demo_wcfg demo_minute_polls (wstats_init, rview_empty)))) 0
    1789948800 1789948860 = Some [(''c1'', 1)]"
  by code_simp

lemma demo_stream_sound:
  "prompt demo_stream" "clean_records (records demo_stream)" "list_all named_and_dated (records demo_stream)"
  "int (length (records demo_stream)) \<le> 2 ^ 53" "distinct_impressions (records demo_stream) 1789948800 1789948860 ''c1'' = 2"
proof -
  have rs: "records demo_stream = [demo_imp ''1'' 1789948805000, demo_imp ''1'' 1789948805000, demo_imp ''2'' 1789948807000]"
    by (simp add: records_def demo_stream_def)
  show "int (length (records demo_stream)) \<le> 2 ^ 53" by (simp add: rs)
  show "clean_records (records demo_stream)" by (simp add: rs clean_records_def alike_def demo_imp_def)
  show "prompt demo_stream"
    by (auto simp: prompt_def demo_stream_def all_events_def demo_imp_def Let_def STATE_TTL_def)
  have "1000 \<le> utc_year 1789948805" "utc_year 1789948805 \<le> 9999" "1000 \<le> utc_year 1789948807" "utc_year 1789948807 \<le> 9999"
    by code_simp+
  then show "list_all named_and_dated (records demo_stream)" by (simp add: rs named_and_dated_def demo_imp_def)
  have "kr_event_id ` {k \<in> set (records demo_stream). kr_topic k = ''ad.impression'' \<and> kr_cid k = Some ''c1'' \<and>
      1789948800 * 1000 \<le> kr_time k \<and> kr_time k < 1789948860 * 1000} = {Some ''1'', Some ''2''}"
    by (force simp: rs demo_imp_def)
  then show "distinct_impressions (records demo_stream) 1789948800 1789948860 ''c1'' = 2"
    by (simp add: distinct_impressions_def)
qed

lemma demo_polled_all: "polled_all [demo_minute] demo_minute_polls"
  "list_all (\<lambda>(now, upd, d). now - wc_ttl demo_wcfg < 1789948800) (agg_polls demo_minute_polls)"
  by (auto simp: polled_all_def agg_polls_def demo_minute_polls_def demo_wcfg_def)

text \<open>C3: the two ways of counting agree up to what is known to differ.  Let the records of Kafka go through the realtime
  job, its rows through the writer into an empty store, and the same records, in any order and number of copies, through
  the archive and the settlement.  If the watermark has passed the range, copies of an event come within the hour for which
  its id is kept, and the rows polled are not older than their lifetime in Redis, then the reconciliation of a range of
  minutes, or of a day, has a row for each campaign with an impression in it, and in every row the realtime count plus the late events
  that job dropped is the number of distinct impressions that happened, so that no cause names a residual: a difference is
  late events and SSAI twins, exactly.\<close>

theorem reconciliation_explains_everything:
  assumes stream: "prompt ins" "clean_records (records ins)" "list_all named_and_dated (records ins)"
      "fl_mark (flink_run ins) = Some w" "t1 * 1000 - 1 \<le> w" "int (length (records ins)) \<le> 2 ^ 53"
    and writer: "redis_ok r" "\<And>cs db. fst (rd_exec r cs db) = None" "0 < wc_ttl cfg" "rd_view r (snd s) = rview_empty"
      "polled_all (fl_aggs (flink_run ins)) ps" "list_all (\<lambda>(now, upd, d). now - wc_ttl cfg < t0) (agg_polls ps)"
    and batch: "spark_ok sp" "set ks = set (records ins)" "settlement_job sp prio rates (archive ks) = Some (days, minutes)"
    and recon: "recon_range env = Inr (t0, t1)"
      "reconcile (recon_reads (rd_view r (snd (writer_run r cfg ps s))) now days minutes (flink_run ins)) env = Inr (Compared rows totals)"
  defines "late \<equiv> \<lambda>c. dict_int (late_impressions (fl_dropped (flink_run ins)) t0 t1) (Some c)"
  shows "list_all (\<lambda>row. rr_cid row \<in> set NON_CAMPAIGN \<or>
      rr_realtime row + late (rr_cid row) = distinct_impressions ks t0 t1 (rr_cid row) \<and> explained (rr_cause row)) rows \<and>
    {c. 0 < distinct_impressions ks t0 t1 c} - set NON_CAMPAIGN \<subseteq> rr_cid ` set rows"
proof -
  let ?v = "rd_view r (snd (writer_run r cfg ps s))" and ?st = "flink_run ins"
  let ?io = "recon_reads ?v now days minutes ?st" and ?raw = "distinct_impressions ks t0 t1"
  let ?b = "fetch_batch ?io (ranged env) t0 t1"
  note range = conjunct1 [OF recon_range_minutes [OF recon(1)]] conjunct2 [OF recon_range_minutes [OF recon(1)]]
  have clean: "clean_records ks" using stream(2) batch(2) by (simp add: clean_records_def)
  obtain rts where rts: "summary_impressions ?v now t0 t1 = Some rts"
    and loop: "compare_loop (re_warn env) rts ?b (fetch_late_dropped ?io t0 t1) (campaign_ids rts ?b) totals_init = (rows, totals)"
    using reconcile_compared [OF recon(2)] recon(1) by (auto simp: recon_reads_def)
  obtain out where out: "sum_range ?v t0 (t1 - 1) = Inr out" "\<And>c. dict_int rts c = tally_of out c ''impressions''"
      "fst ` set rts = fst ` set out"
    by (rule summary_read [OF recon(1) rts]) blast
  have lates: "dict_int (fetch_late_dropped ?io t0 t1) (Some c) = late c" for c
    by (simp add: fetch_late_dropped_def recon_reads_def late_def)
  have settled: "batch_field br_raw ?b c = ?raw c" if "c \<noteq> []" "c \<notin> set NON_CAMPAIGN" for c
    using settled_impressions [OF batch(3,1) clean recon(1) that] impressions_by_minute [OF clean range] by simp
  have balance: "dict_int rts c + late c = ?raw c" for c
    unfolding out(2) late_def
    by (rule realtime_plus_late [OF stream(1-5) writer range out(1) clean batch(2)])
  have named: "[] \<notin> set (campaign_ids rts ?b)"
    using sum_hashes_named [of _ "[]" out] out(1,3) batch_named by (simp add: campaign_ids_set(1) sum_range_def)
  have rows: "rows = map (\<lambda>c. fst (compare_one (re_warn env) rts ?b (fetch_late_dropped ?io t0 t1) c)) (campaign_ids rts ?b)"
    using compare_loop_rows [OF loop] by blast
  have "rr_cid row \<in> set NON_CAMPAIGN \<or> rr_realtime row + late (rr_cid row) = ?raw (rr_cid row) \<and> explained (rr_cause row)"
    if row: "row \<in> set rows" for row
  proof -
    from row obtain c where c: "c \<in> set (campaign_ids rts ?b)"
        "row = fst (compare_one (re_warn env) rts ?b (fetch_late_dropped ?io t0 t1) c)" unfolding rows by auto
    have "c \<noteq> []" using c(1) named by auto
    then have "residual_of rts ?b (fetch_late_dropped ?io t0 t1) c = 0" if "c \<notin> set NON_CAMPAIGN"
      using settled [OF _ that] balance [of c] by (simp add: residual_of_def lates)
    then show ?thesis unfolding c(2) compare_one_simps
      using balance by (cases "c \<in> set NON_CAMPAIGN") (simp_all add: classify_explained)
  qed
  moreover have "c \<in> rr_cid ` set rows" if "0 < ?raw c" "c \<notin> set NON_CAMPAIGN" for c
  proof -
    have "c \<noteq> []" using impressed_campaign [OF that(1)] stream(3) batch(2) by (auto simp: list_all_iff named_and_dated_def)
    then have "batch_field br_raw ?b c \<noteq> 0" using settled [OF _ that(2)] that(1) by simp
    then have "map_of ?b c \<noteq> None" by (cases "map_of ?b c") (simp_all add: batch_field_def)
    then have "c \<in> set (campaign_ids rts ?b)" by (simp add: campaign_ids_set(1) map_of_eq_None_iff)
    then show ?thesis unfolding rows by (force simp: compare_one_simps image_image)
  qed
  ultimately show ?thesis by (auto simp: list_all_iff)
qed

lemma reconciliation_explains_everything_witness:
  "\<exists>days minutes rows totals.
     reconcile (recon_reads (rd_view view_redis (snd (writer_run view_redis demo_wcfg demo_minute_polls (wstats_init, rview_empty)))) 0
       days minutes (flink_run demo_stream)) demo_minute_env = Inr (Compared rows totals) \<and>
     (\<exists>row \<in> set rows. rr_cid row = ''c1'' \<and> explained (rr_cause row) \<and>
       rr_realtime row + dict_int (late_impressions (fl_dropped (flink_run demo_stream)) 1789948800 1789948860) (Some ''c1'') = 2)"
proof -
  let ?v = "rd_view view_redis (snd (writer_run view_redis demo_wcfg demo_minute_polls (wstats_init, rview_empty)))"
  let ?ks = "records demo_stream"
  have "raw_rows list_spark (archive ?ks) \<noteq> []" by code_simp
  from job_returns [OF this] obtain days minutes where
    job: "settlement_job list_spark [] (\<lambda>c. None) (archive ?ks) = Some (days, minutes)" by blast
  let ?io = "recon_reads ?v 0 days minutes (flink_run demo_stream)"
  have "io_summary ?io 1789948800 1789948860 = Some [(''c1'', 1)]" by (simp add: recon_reads_def demo_minute_summary)
  then have "\<exists>rows totals. reconcile ?io demo_minute_env = Inr (Compared rows totals)"
    by (simp add: reconcile_def demo_minute_range Let_def split: prod.splits)
  then obtain rows totals where rec: "reconcile ?io demo_minute_env = Inr (Compared rows totals)" by blast
  have start: "rd_view view_redis (snd (wstats_init, rview_empty)) = rview_empty" "0 < wc_ttl demo_wcfg"
    by (simp_all add: view_redis_def demo_wcfg_def)
  note all = reconciliation_explains_everything [OF demo_stream_sound(1-3) demo_flink(2) _ demo_stream_sound(4) view_redis_ok start(2,1)
      _ _ list_spark_ok refl job demo_minute_range rec, unfolded demo_flink(1), OF _ demo_polled_all]
  have "{c. 0 < distinct_impressions ?ks 1789948800 1789948860 c} - set NON_CAMPAIGN \<subseteq> rr_cid ` set rows"
    using all by simp
  moreover have "''c1'' \<in> {c. 0 < distinct_impressions ?ks 1789948800 1789948860 c} - set NON_CAMPAIGN"
    by (simp add: demo_stream_sound(5) NON_CAMPAIGN_def)
  ultimately obtain row where row: "row \<in> set rows" "rr_cid row = ''c1''" by auto
  then have "explained (rr_cause row) \<and>
      rr_realtime row + dict_int (late_impressions (fl_dropped (flink_run demo_stream)) 1789948800 1789948860) (Some ''c1'') = 2"
    using all by (auto simp: list_all_iff demo_stream_sound(5) NON_CAMPAIGN_def)
  with rec row show ?thesis by blast
qed

end
