(* ===== verification/Intake.thy ===== *)
theory Intake
  imports Delivery Pipeline
begin

text \<open>
  From the collector to the two Flink jobs: what both make of an event that was posted, and where the two ways of
  counting read it differently.
\<close>

section \<open>Reading a record\<close>

text \<open>How Flink's JSON format reads a column is not in the repository: it is a parameter.\<close>

record json_reader =
  jr_text :: "pyval \<Rightarrow> string option"
  jr_bool :: "pyval \<Rightarrow> bool option"
  jr_time :: "string \<Rightarrow> int option"

definition reads_texts :: "json_reader \<Rightarrow> bool" where
  "reads_texts jr \<longleftrightarrow> (\<forall>s. jr_text jr (PStr s) = Some s) \<and> jr_text jr PNone = None"

definition kafka_record_of :: "json_reader \<Rightarrow> krecord \<Rightarrow> kafka_record option" where
  \<comment> \<open>the columns of the source tables; \<open>None\<close> without a readable time\<close>
  "kafka_record_of jr r =
     (let (topic, key, d) = r; text = (\<lambda>f. jr_text jr (dget d f)); flag = (\<lambda>f. jr_bool jr (dget d f)) in
      case dget d ''event_time'' of
        PStr s \<Rightarrow> map_option (\<lambda>t. \<lparr>kr_topic = topic, kr_event_id = text ''event_id'', kr_type = text ''event_type'',
            kr_cid = text ''campaign_id'', kr_arid = text ''ad_request_id'', kr_source = text ''source'',
            kr_quartile = text ''quartile'', kr_twin_of = text ''ssai_twin_of'', kr_fill = flag ''fill'', kr_late = flag ''_late'',
            kr_time = t\<rparr>) (jr_time jr s)
      | _ \<Rightarrow> None)"

definition CLIENT_TOPICS :: "string list" where
  "CLIENT_TOPICS = [''ad.impression'', ''ad.quartile'', ''ad.click'']"

lemma posted_record:
  assumes ev: "sendable ev t" "t * 1000000 \<le> av_now av 0 + 300000000000" "dget ev ''event_type'' = PStr ty" "topic_for ty = Some topic"
    and jr: "reads_texts jr" "jr_time jr (instant_str (t * 1000000)) = Some t"
  obtains k where "fst (routed cfg av ep (PDict ev)) = None" "kafka_record_of jr (snd (routed cfg av ep (PDict ev))) = Some k"
    "kr_topic k = topic" "kr_type k = Some ty" "kr_time k = t" "kr_event_id k = jr_text jr (dget ev ''event_id'')"
    "kr_cid k = jr_text jr (dget ev ''campaign_id'')" "kr_quartile k = jr_text jr (dget ev ''quartile'')"
    "kr_arid k = jr_text jr (dget ev ''ad_request_id'')"
proof -
  have r: "routed cfg av ep (PDict ev) = (None, topic, event_key cfg (enrich av (t * 1000000) ep ev), enrich av (t * 1000000) ep ev)"
    by (rule post_routed [OF ev(1,2)]) (simp add: ev(3,4))
  show thesis
    by (rule that) (use jr in \<open>auto simp: r kafka_record_of_def dget_enrich ev(3) reads_texts_def\<close>)
qed

section \<open>Properties\<close>

text \<open>C25: both jobs see an event that was posted under the same id, in the same minute of the same campaign.  The
  realtime job takes its kind from the topic and the settlement from the type, so they agree on impressions, clicks and
  completions posted under their plain types; an impression or a click posted under another spelling the router takes, and
  a completion that is a type of its own, count in the realtime job only.\<close>

theorem both_jobs_see_the_event:
  assumes ev: "sendable ev t" "t * 1000000 \<le> av_now av 0 + 300000000000"
      "dget ev ''event_type'' = PStr ty" "topic_for ty = Some topic" "topic \<in> set CLIENT_TOPICS"
      "dget ev ''event_id'' = PStr i" "dget ev ''campaign_id'' = PStr c"
    and jr: "reads_texts jr" "jr_time jr (instant_str (t * 1000000)) = Some t"
  shows "\<exists>k e. routed cfg av ep (PDict ev) = (None, snd (routed cfg av ep (PDict ev))) \<and>
    kafka_record_of jr (snd (routed cfg av ep (PDict ev))) = Some k \<and> all_events k = Some e \<and>
    ev_id e = Some i \<and> window_of e = (t div 60000 * 60000, c) \<and>
    archive [k] = [archive_row k] \<and> r_event_id (archive_row k) = Some i \<and> minute_key (archive_row k) = (Some (t div 60000), Some c) \<and>
    (let complete = (jr_text jr (dget ev ''quartile'') = Some ''complete'') in
      (ev_kind e = ''impression'') = (topic = ''ad.impression'') \<and> is_impression (archive_row k) = (ty = ''impression'') \<and>
      (ev_kind e = ''click'') = (topic = ''ad.click'') \<and> is_click (archive_row k) = (ty = ''click'') \<and>
      (ev_kind e = ''complete'') = (topic = ''ad.quartile'' \<and> complete) \<and> is_completion (archive_row k) = (ty = ''quartile'' \<and> complete))"
proof -
  obtain k where k: "fst (routed cfg av ep (PDict ev)) = None" "kafka_record_of jr (snd (routed cfg av ep (PDict ev))) = Some k"
    "kr_topic k = topic" "kr_type k = Some ty" "kr_time k = t" "kr_event_id k = jr_text jr (dget ev ''event_id'')"
    "kr_cid k = jr_text jr (dget ev ''campaign_id'')" "kr_quartile k = jr_text jr (dget ev ''quartile'')"
    using posted_record [OF ev(1-4) jr] by blast
  have id: "kr_event_id k = Some i" "kr_cid k = Some c" using jr(1) by (simp_all add: k ev(6,7) reads_texts_def)
  have row: "r_event_id (archive_row k) = Some i" "minute_key (archive_row k) = (Some (t div 60000), Some c)"
    "r_type (archive_row k) = Some ty" "r_quartile (archive_row k) = jr_text jr (dget ev ''quartile'')"
    by (simp_all add: archive_row_def minute_key_def id k)
  have sel: "is_impression (archive_row k) = (ty = ''impression'')" "is_click (archive_row k) = (ty = ''click'')"
    "is_completion (archive_row k) = (ty = ''quartile'' \<and> jr_text jr (dget ev ''quartile'') = Some ''complete'')"
    by (simp_all add: is_impression_def is_click_def is_completion_def row)
  consider "topic = ''ad.impression''" | "topic = ''ad.quartile''" | "topic = ''ad.click''"
    using ev(5) by (auto simp: CLIENT_TOPICS_def)
  then show ?thesis
    by cases (simp_all add: k(1-3) id row sel all_events_def archive_def ARCHIVED_def window_of_def k(5,8) prod_eq_iff Let_def)
qed

definition demo_reader :: json_reader where
  "demo_reader = \<lparr>jr_text = (\<lambda>v. case v of PStr s \<Rightarrow> Some s | _ \<Rightarrow> None), jr_bool = (\<lambda>v. case v of PBool b \<Rightarrow> Some b | _ \<Rightarrow> None),
     jr_time = (\<lambda>s. if s = instant_str 1000000000000 then Some 1000000 else None)\<rparr>"

lemma both_jobs_see_the_event_witness:
  "\<exists>k e. kafka_record_of demo_reader (snd (routed demo_kcfg demo_arrival ''v1_events'' (PDict demo_impression))) = Some k \<and>
     all_events k = Some e \<and> ev_kind e = ''impression'' \<and> is_impression (archive_row k) \<and> ev_id e = r_event_id (archive_row k)"
proof -
  have reader: "reads_texts demo_reader" "jr_time demo_reader (instant_str (1000000 * 1000000)) = Some 1000000"
    by (simp_all add: reads_texts_def demo_reader_def)
  have ev: "dget demo_impression ''event_type'' = PStr ''impression''" "dget demo_impression ''event_id'' = PStr ''evt-1''"
    "\<exists>c. dget demo_impression ''campaign_id'' = PStr c"
    by (simp_all add: demo_impression_def dget_def)
  have "1000000 * 1000000 \<le> av_now demo_arrival 0 + 300000000000" by (simp add: demo_facts)
  moreover have "topic_for ''impression'' = Some ''ad.impression''" "''ad.impression'' \<in> set CLIENT_TOPICS"
    using demo_facts(7) by (simp_all add: ev CLIENT_TOPICS_def)
  moreover from ev(3) obtain c where "dget demo_impression ''campaign_id'' = PStr c" by blast
  ultimately show ?thesis
    using both_jobs_see_the_event [OF demo_facts(4) _ ev(1) _ _ ev(2) _ reader, of demo_arrival "''ad.impression''" c demo_kcfg "''v1_events''"]
    by (auto simp: Let_def)
qed

end
