(* ===== verification/Spec2Isabelle.thy ===== *)
theory Spec2Isabelle
  imports Gen_Stats Emitter Redis_Writer Settlement Reconcile Catalog Player Tracer Dashboard Viewer Traffic Simulator Delivery Outbox Doc_Check Intake
begin

text \<open>
  Verification development of an advertising event pipeline: the Python programs under \<open>src/\<close> that generate traffic,
  store and serve the realtime aggregates, settle and reconcile the archive, and show what happened to an event, the
  two Kotlin services they talk to, the ad-decision service and the collector, and the two Flink jobs in between.

  \<^bold>\<open>The pipeline.\<close>  Virtual viewers (\<open>generator/users.py\<close>) act out sessions and hand events to an emitter
  (\<open>generator/emitter.py\<close>), which adds anomalies and sends them to the collector in batches or as signed pixels.  An ad
  break asks the ad-decision service, which writes the decision to an outbox table that workers publish to Kafka.  The
  collector validates events, routes them to Kafka topics and, when Kafka fails, to files it can replay; Flink
  (\<open>sql/pipeline.sql\<close>, \<open>sql/archive.sql\<close>) computes one-minute aggregates, late events and alerts and archives
  every event.  The Redis writer (\<open>redis-writer/writer.py\<close>) stores aggregates, late counters and
  alerts and answers range queries.  The settlement job (\<open>spark/batch_settlement.py\<close>) recomputes the day from the archive; the reconciliation (\<open>spark/reconcile.py\<close>)
  compares it with the writer's sums.  Three web services look at the systems: the player (\<open>player/app.py\<close>), the tracer
  (\<open>tracer/app.py\<close>) and the dashboard (\<open>dashboard/api.py\<close>).

  \<^bold>\<open>Theories, in the order they build on each other.\<close>
  \<^item> \<open>Prelude\<close>: JSON values and dictionaries, exceptions and the result type, counters, decimal texts, \<open>int()\<close> and
    \<open>float()\<close> of texts.
  \<^item> \<open>Gen_Stats\<close>: \<open>generator/stats.py\<close> and \<open>generator/addecision.py\<close>.  Locale \<open>event_counter\<close>, interpreted for the
    total and for the window of a second.
  \<^item> \<open>Collector\<close>: \<open>TopicRouter.kt\<close> and \<open>SignatureVerifier.kt\<close>, the two services the Python code copies or relies on.
    Locale \<open>pixel_signer\<close>, interpreted in \<open>Emitter\<close> and \<open>Player\<close>.
  \<^item> \<open>Emitter\<close>: class \<open>Emitter\<close>.  State record \<open>emitter\<close>, one definition per method, the completions of its tasks and
    its steps as inductive relations.
  \<^item> \<open>Py_Time\<close>: \<open>datetime\<close> (UTC dates, \<open>strftime\<close>, \<open>fromisoformat\<close>) and the minute keys of writer, player and tracer.
  \<^item> \<open>Redis_Writer\<close>: the three handlers, the main loop and the HTTP queries, over a store that is a parameter with the
    laws of Redis transactions (\<open>redis_ok\<close>).
  \<^item> \<open>Settlement\<close>, \<open>Reconcile\<close>: the two batch jobs.  Spark's relational operators are a parameter with their laws
    (\<open>spark\<close>); locale \<open>row_selection\<close>, interpreted for the deduplication by event and for the SSAI choice.
  \<^item> \<open>Catalog\<close>: the tables of \<open>generator/catalog.py\<close> and \<open>player/catalog.py\<close>.
  \<^item> \<open>Py_Service\<close>: what player and tracer share.  Locale \<open>bounded_registry\<close>, interpreted for the player's 40 ads and
    the tracer's 20 traces; the poll loop of a Kafka scan as a \<open>partial_function\<close>.
  \<^item> \<open>Player\<close>, \<open>Tracer\<close>, \<open>Dashboard\<close>: the three services, one definition per endpoint, stage and sampler, the state
    passed explicitly, the reachable states as inductive predicates.
  \<^item> \<open>Viewer\<close>: class \<open>VirtualUser\<close> as a log of emissions and sleeps (\<open>viewer_run\<close> is its \<open>run\<close>).
    \<open>Traffic\<close>: the options and control loops of \<open>generator/main.py\<close>.  \<open>Simulator\<close>: its \<open>main\<close>, the tasks interleaved
    on one emitter as the step relation \<open>traffic_step\<close>, the stop and the closing.
  \<^item> \<open>Collector_Ingest\<close>: the collector from a request to a record (\<open>EventValidator.kt\<close>, \<open>EventIngestService.kt\<close>,
    \<open>EventPublisher.kt\<close>, \<open>FallbackWriter.kt\<close>, \<open>EventController.kt\<close>, \<open>TrackController.kt\<close>).  State record
    \<open>collector\<close>: the records in Kafka, those Kafka got although the service gave up on them, the fallback files, the
    replayed files, and the records that could not be filed.
  \<^item> \<open>Fallback_Replay\<close>: \<open>AdminController.kt\<close>, and the runs of the collector (\<open>collector_run\<close>) over records arriving and
    replays.
  \<^item> \<open>Delivery\<close>: senders and collector composed, an event posted or sent as a pixel.
  \<^item> \<open>Ad_Decision\<close>: \<open>CampaignCache.kt\<close> and \<open>DecisionService.kt\<close>.  \<open>Outbox\<close>: \<open>OutboxWorker.kt\<close> as the step relation
    \<open>outbox_step\<close> of interleaved transactions.
  \<^item> \<open>Flink\<close>: the two jobs, \<open>sql/archive.sql\<close> and \<open>sql/pipeline.sql\<close>.  State record \<open>rt_job\<close> (deduplication,
    watermark, open windows, and what was sent), one step per record or watermark.
  \<^item> \<open>Pipeline\<close>: both ways of counting composed: the records through the realtime job, the writer and its summary, and
    through the archive and the settlement, read by the three queries of the reconciliation (\<open>recon_reads\<close>).
    \<open>Intake\<close>: from a record of the collector to a record of the jobs; how Flink's JSON format reads a column is a
    parameter.
  \<^item> \<open>Doc_Check\<close>: \<open>scripts/ci/check_docs.py\<close>, which CI runs over the documents.
  \<^item> This theory: the properties that span the writer and the services.  Locale \<open>minute_reader\<close>, interpreted for the
    minute keys of player and tracer.

  \<^bold>\<open>How the code is read.\<close>  A Python object is a record and a method a function from state to state; an exception is
  the left of a sum or an \<open>exn option\<close> beside the state; \<open>float\<close> is an exact rational, and \<open>round\<close> rounds half to even.
  Whatever comes from outside a program is an argument: draws of a random generator as a stream, uuids and clock readings
  by number, replies of HTTP, Kafka, Redis, Parquet and PostgreSQL as values that include failure.  Asynchronous code is
  split at its awaits: a task is a value in flight, and its completion is a step that may come in any order.  The two
  Kotlin services keep instants in nanoseconds and take the ISO reader of \<open>java.time\<close> and the text of a decimal as
  parameters; texts are ASCII wherever case or white space matters.  Kafka acknowledges a record, or fails it, or fails
  it although the broker keeps it; the last is what can make duplicates.  A replay runs while other requests fail into
  the same directory, as an argument of the replay; \<open>collector_run\<close> takes replays with no such requests.  The field
  \<open>ob_redone\<close> of \<open>outbox_db\<close> serves the statements only: it counts deliveries whose transaction ended without the flag.
  The realtime job runs with parallelism 1, and the watermarks and processing times it sees are inputs; every record has
  an event time, which the collector puts in.

  \<^bold>\<open>What the lemmas show.\<close>
  \<^item> Generator: no routed event is lost or counted twice, in any interleaving, and closing settles all; what a flush, an
    emission and each anomaly do; a pixel passes the collector's check until it expires; the events of one ad and of one
    session follow one pattern; nothing a viewer emits raises in the emitter; in a run of the whole program the
    emitter's counters account for every event the viewers hand over, and the run can always be ended; the speed control
    settles.
  \<^item> Collector: every record accepted is in Kafka, in a file or counted as lost, through any sequence of arrivals and
    replays; each event of a batch gets one outcome and one record; a pixel and a posted event give the same record, and
    a broken event is a dead letter by either path, save the fields the pixel endpoint fills in.
  \<^item> Ad decisions: the answer and its outbox row agree; no decision leaves the table unpublished, each is delivered once
    plus once for every delivery whose flag was not stored, and undisturbed polls empty the table.
  \<^item> Writer: its store after any run equals the abstract store of last rows, newest alerts and counters; no transaction
    meets a key of another type; each message is counted once, and a failed one writes nothing; stored aggregates read
    back, and series and summaries agree.
  \<^item> Realtime job: whatever the order of records and watermarks, an event that passed the deduplication is counted in
    its minute, waits in its open window, or is reported late, for each kind.
  \<^item> Between collector and jobs: both see a posted event under one id, minute and campaign, and agree on its kind when it
    is posted under its plain type.
  \<^item> End to end: in a range or day the watermark has passed, the realtime count of a campaign plus the late events
    dropped is the number of distinct impressions that happened, and the reconciliation explains every difference by late events and SSAI
    twins, with nothing left over.  This needs what the code relies on: copies of an event within the hour of the
    deduplication's state, impressions under their own name (an alias is counted on one side only), and rows polled
    within their lifetime.
  \<^item> Batch: deduplication and SSAI choice keep the right row; a daily row holds the counts of its day and equals the sum
    of its minutes; rerunning or redelivering changes nothing settled; reconciliation covers every campaign once, its sums
    are its totals, and the parts of a cause add up to the difference.
  \<^item> Services: bounded registries; scans end and list each message once; a batch of events is sent once; the page's
    preview of topics is the collector's routing up to five aliases; the dashboard shows the writer's sums; player and
    tracer read the row the writer stored for the minute.
  \<^item> Documents: the check prints exactly the links whose file or anchor is missing; anchors are numbered as headings repeat.
  \<^item> Departures from intent that the model shows are stated as theorems of the same kind (days without impressions,
    campaigns whose events were all late, impressions under another spelling, copies after the hour, traces of late events, abandonment after the last mark, a replay that a file of
    the same hour blocks and that then sends again, lines written between the reading of a file and its renaming, a
    linked image that hides its target).

  \<^bold>\<open>Fuel and bounds.\<close>  There is no fuel in the loops of the code: recursion is structural or has a measure, except the
  poll loop, a partial function whose value is \<open>None\<close> when the clock never passes the deadline; \<open>inspection_returns\<close>
  shows when it returns.  \<open>run_sessions\<close> and \<open>viewer_run\<close> take the number of sessions to observe and \<open>burst_cycle\<close> and
  \<open>reporter_loop\<close> the turns to observe; their theorems hold for every number; \<open>sm_sessions\<close> of a simulation is that number for its viewers.  Counts stored in Redis are read through
  \<open>float\<close>, so reading back assumes integers within 2^53; key agreement assumes years 1000 to 9999; a pixel's time is
  below 2^63 milliseconds.

  \<^bold>\<open>Not modelled.\<close>  Of the Kotlin services the start-up, the Kafka configuration and the registration of gauges; of
  the Flink jobs the connectors, checkpoints and submission scripts; the web pages; the scripts for screen captures
  and end-to-end tests, which only drive browsers and running systems; the Spark session helper; start-up, signal handling, logging, printed reports, DDL,
  connections and display texts of the modelled programs.
\<close>

section \<open>The player and the writer\<close>

text \<open>The row of an aggregate after any further messages that do not write its key.\<close>

lemma last_row_served:
  assumes "redis_ok r" "\<And>cs db. fst (rd_exec r cs db) = None" "0 < wc_ttl cfg" "rd_view r (snd s) = rview_empty"
    and row: "agg_row cfg upd d = Inr (k, ep, mem, h)" and later: "k \<notin> fst ` set (agg_rows (map (effect_of cfg) rest))"
  shows "rv_hash (rd_view r (snd (writer_run r cfg (ps @ PollMsg ''agg.minute'' (Some (PDict d)) now upd # rest) s))) k = h"
proof -
  let ?ps = "ps @ PollMsg ''agg.minute'' (Some (PDict d)) now upd # rest"
  have "effect_of cfg (PollMsg ''agg.minute'' (Some (PDict d)) now upd) = EAgg k h"
    by (simp add: effect_of_def row)
  then have rows: "agg_rows (map (effect_of cfg) ?ps) =
      agg_rows (map (effect_of cfg) ps) @ (k, h) # agg_rows (map (effect_of cfg) rest)"
    by (simp add: agg_rows_def)
  have "map_of (rev (agg_rows (map (effect_of cfg) rest))) k = None"
    using later by (simp add: map_of_eq_None_iff)
  then have "map_of (rev (agg_rows (map (effect_of cfg) ?ps))) k = Some h"
    unfolding rows by (simp add: map_add_def)
  then show ?thesis
    using writer_run_matches [OF assms(1-4), of ?ps] agg_row_key [OF row] by (simp add: store_matches_def)
qed

lemma same_minute:
  fixes w ms :: int
  assumes "w mod 60 = 0" "w * 1000 \<le> ms" "ms < (w + 60) * 1000"
  shows "ms div 1000 div 60 = w div 60"
proof -
  define q where "q = ms div 1000"
  obtain e where "0 \<le> e" "e < 1000" "ms = 1000 * q + e"
    unfolding q_def by (metis mult_div_mod_eq pos_mod_bound pos_mod_sign zero_less_numeral)
  moreover have "ms < 1000 * w + 60000" using assms(3) by simp
  ultimately have "w \<le> q" "q < w + 60" using assms(2) by linarith+
  moreover have "w = 60 * (w div 60)" using assms(1) mult_div_mod_eq [of 60 w] by simp
  ultimately have "60 * (w div 60) \<le> q" "q < 60 * (w div 60) + 60" by linarith+
  then have "q div 60 = w div 60" by (intro int_div_pos_eq [of _ _ _ "q - 60 * (w div 60)"]) simp_all
  then show ?thesis by (simp add: q_def)
qed

text \<open>The minute keys of the two services, as an interface to the writer's rows.\<close>

locale minute_reader =
  fixes minute_key :: "int \<Rightarrow> string result"
  assumes minute_key_of_ms: "minute_key ms = Inr mk \<Longrightarrow> mk = strftime_minute (ms div 1000)"
begin

lemma key_agrees:
  assumes row: "agg_row cfg upd d = Inr (k, ep, mem, h)" "dget d ''campaign_id'' = PStr cid"
      "dget d ''window_start'' = PStr (iso_render w)" "w mod 60 = 0" "1000 \<le> utc_year w" "utc_year w \<le> 9999"
    and ms: "minute_key ms = Inr mk" "w * 1000 \<le> ms" "ms < (w + 60) * 1000"
  shows "''agg:1m:'' @ cid @ '':'' @ mk = k"
proof -
  have "k = agg_key cfg (PStr cid) (strftime_minute w)"
    using row(1-3) writer_minute_key_render [OF row(5,6)]
    by (auto simp: agg_row_def rbind_eq_Inr_iff dsub_def dget_def minute_key_of_def split: option.splits)
  moreover have "strftime_minute (ms div 1000) = strftime_minute w"
    by (rule strftime_minute_cong [OF same_minute [OF row(4) ms(2,3)]])
  ultimately show ?thesis using minute_key_of_ms [OF ms(1)] by (simp add: agg_key_def py_str_def)
qed

end

interpretation player_minutes: minute_reader player_minute_key
  by unfold_locales (auto simp: player_minute_key_def fromtimestamp_ms_def rbind_eq_Inr_iff Let_def split: if_splits)

interpretation tracer_minutes: minute_reader tracer_minute_key
  by unfold_locales (auto simp: tracer_minute_key_def fromtimestamp_ms_def rbind_eq_Inr_iff Let_def split: if_splits)

text \<open>The tracer finds the row of the minute it keeps.\<close>

lemma tracer_reads_the_writers_row:
  assumes agg: "agg_row cfg upd d = Inr (k, ep, mem, h)" "dget d ''campaign_id'' = PStr (''cmp-tr-'' @ trace_id)"
      "dget d ''window_start'' = PStr (iso_render w)" "w mod 60 = 0" "1000 \<le> utc_year w" "utc_year w \<le> 9999"
    and counts: "list_all (\<lambda>f. dget d f = PInt (n f) \<and> \<bar>n f\<bar> \<le> 2 ^ 53 \<or> dget d f = PNone \<and> n f = 0) SUM_FIELDS"
    and trace: "new_trace env0 trace_id kind offs (ts, arid, sg) = Inr tr" "w * 1000 \<le> ts" "ts < (w + 60) * 1000"
    and reads: "te_redis env k = Some h"
  shows "\<exists>a. check_redis env tr = Inr (Some a) \<and> ta_key a = k \<and> ta_impressions a = n ''impressions''"
proof -
  obtain mk where mk: "tracer_minute_key ts = Inr mk" and tr: "tr_minute tr = mk" "tr_campaign tr = ''cmp-tr-'' @ trace_id"
    using trace(1) by (auto simp: new_trace_def rbind_eq_Inr_iff)
  have k: "''agg:1m:'' @ tr_campaign tr @ '':'' @ tr_minute tr = k"
    unfolding tr by (rule tracer_minutes.key_agrees [OF agg mk trace(2,3)])
  have "h \<noteq> []" using agg_row_names [OF agg(1)] by (auto simp: row_names_def)
  moreover have "num_field h f = Inr (n f)" if "f \<in> set SUM_FIELDS" for f
    by (rule agg_row_value [OF agg(1) that]) (use counts that in \<open>auto simp: list_all_iff\<close>)
  ultimately show ?thesis unfolding check_redis_def k Let_def reads by (simp add: SUM_FIELDS_def)
qed

text \<open>C4: the player shows the row the writer stored.  Flink's aggregate of a campaign and minute, stored by the
  writer in any run and not replaced later in it, is what the inspection of an ad of that campaign requested in that
  minute reads: both sides build the same key, one from the ISO text of the window start and one from the epoch time, and
  the counts are those of the aggregate.\<close>

theorem player_reads_the_writers_row:
  assumes redis: "redis_ok r" "\<And>cs db. fst (rd_exec r cs db) = None" "0 < wc_ttl cfg" "rd_view r (snd s) = rview_empty"
    and agg: "agg_row cfg upd d = Inr (k, ep, mem, h)" "dget d ''campaign_id'' = PStr cid" "cid \<noteq> []"
      "dget d ''window_start'' = PStr (iso_render w)" "w mod 60 = 0" "1000 \<le> utc_year w" "utc_year w \<le> 9999"
    and counts: "list_all (\<lambda>f. dget d f = PInt (n f) \<and> \<bar>n f\<bar> \<le> 2 ^ 53 \<or> dget d f = PNone \<and> n f = 0) SUM_FIELDS"
    and later: "k \<notin> fst ` set (agg_rows (map (effect_of cfg) rest))"
    and play: "new_play env0 arid content decision offs = Inr tr" "dget decision ''campaign_id'' = PStr cid"
      "w * 1000 \<le> pe_ms env0" "pe_ms env0 < (w + 60) * 1000"
    and reads: "pe_redis env = (\<lambda>key. Some (rv_hash (rd_view r (snd (writer_run r cfg
      (ps @ PollMsg ''agg.minute'' (Some (PDict d)) now upd # rest) s))) key))"
  shows "\<exists>a. pl_redis_agg env tr = Inr (Some a) \<and> ra_key a = k \<and> ra_counts a = map (\<lambda>f. (f, n f)) SUM_FIELDS"
proof -
  obtain mk where mk: "player_minute_key (pe_ms env0) = Inr mk" and tr: "pl_campaign tr = PStr cid" "pl_minute tr = mk"
    using play(1,2) by (auto simp: new_play_def rbind_eq_Inr_iff)
  have "''agg:1m:'' @ cid @ '':'' @ mk = k"
    by (rule player_minutes.key_agrees [OF agg(1,2,4-7) mk play(3,4)])
  then have k: "''agg:1m:'' @ py_str (pe_repr env) (pl_campaign tr) @ '':'' @ pl_minute tr = k"
    by (simp add: tr py_str_def)
  have h: "pe_redis env k = Some h"
    unfolding reads using last_row_served [OF redis agg(1) later, of ps now] by simp
  have "h \<noteq> []" using agg_row_names [OF agg(1)] by (auto simp: row_names_def)
  moreover have "num_field h f = Inr (n f)" if "f \<in> set SUM_FIELDS" for f
    by (rule agg_row_value [OF agg(1) that]) (use counts that in \<open>auto simp: list_all_iff\<close>)
  ultimately show ?thesis
    unfolding pl_redis_agg_def k Let_def h using agg(3) by (simp add: tr(1) SUM_FIELDS_def)
qed

lemma player_reads_the_writers_row_witness:
  "\<exists>env tr a. pl_redis_agg env tr = Inr (Some a) \<and> ra_key a = ''agg:1m:c1:202609210000'' \<and>
     map_of (ra_counts a) ''impressions'' = Some 7"
proof -
  let ?d = "demo_agg ''2026-09-21T00:00:00Z'' 7" and ?w = "1789948800 :: int"
  let ?n = "(\<lambda>f. if f = ''impressions'' then 7 else 0) :: string \<Rightarrow> int"
  define env where "env = demo_player_env\<lparr>pe_redis := (\<lambda>key. Some (rv_hash (rd_view view_redis (snd (writer_run view_redis demo_wcfg
    ([] @ PollMsg ''agg.minute'' (Some (PDict ?d)) 0 [] # demo_polls) (wstats_init, rview_empty)))) key))\<rparr>"
  have "\<not> isl (agg_row demo_wcfg [] ?d)" by code_simp
  from not_isl_Inr [OF this] obtain k ep mem h where row: "agg_row demo_wcfg [] ?d = Inr (k, ep, mem, h)" by (metis surj_pair)
  have iso: "iso_render ?w = ''2026-09-21T00:00:00Z''" by code_simp
  have year: "1000 \<le> utc_year ?w" "utc_year ?w \<le> 9999" by code_simp+
  have d: "dget ?d ''campaign_id'' = PStr ''c1''" "dget ?d ''window_start'' = PStr (iso_render ?w)"
    by (simp_all add: demo_agg_def dget_def iso)
  have counts: "list_all (\<lambda>f. dget ?d f = PInt (?n f) \<and> \<bar>?n f\<bar> \<le> 2 ^ 53 \<or> dget ?d f = PNone \<and> ?n f = 0) SUM_FIELDS"
    by (simp add: SUM_FIELDS_def demo_agg_def dget_def)
  have later: "k \<notin> fst ` set (agg_rows (map (effect_of demo_wcfg) demo_polls))"
    by (simp add: demo_polls_def effect_of_def agg_rows_def demo_wcfg_def dget_def)
  have ms: "pe_ms demo_player_env = 1789948800000" by (simp add: demo_player_env_def)
  have "datetime_ok ?w" by code_simp
  then obtain tr where play: "new_play demo_player_env ''req-1'' ''ct-1'' [(''campaign_id'', PStr ''c1'')] [] = Inr tr"
    by (simp add: new_play_def player_minute_key_def fromtimestamp_ms_def ms Let_def)
  have start: "rd_view view_redis (snd (wstats_init, rview_empty)) = rview_empty" "0 < wc_ttl demo_wcfg"
    by (simp_all add: view_redis_def demo_wcfg_def)
  obtain a where a: "pl_redis_agg env tr = Inr (Some a)" "ra_key a = k" "ra_counts a = map (\<lambda>f. (f, ?n f)) SUM_FIELDS"
    using player_reads_the_writers_row [OF view_redis_ok start(2,1) row d(1) _ d(2) _ year counts later play, of env "[]" 0]
    by (auto simp: env_def demo_player_env_def dget_def)
  have "k = ''agg:1m:c1:202609210000''"
  proof -
    have "(case agg_row demo_wcfg [] ?d of Inl x \<Rightarrow> [] | Inr (k, _) \<Rightarrow> k) = ''agg:1m:c1:202609210000''" by code_simp
    then show ?thesis by (simp only: row sum.case prod.case)
  qed
  then show ?thesis using a by (intro exI [of _ env] exI [of _ tr] exI [of _ a]) (simp add: SUM_FIELDS_def)
qed

end
